(* ===== verification/Prelude.thy ===== *)
theory Prelude
  imports Main "HOL-Library.Word" "HOL-Library.Multiset"
begin

text \<open>
  Shared vocabulary of the development: the machine integers and strings of Go, the
  outcome of a piece of Go code (a value, a panic or the end of the process), programs
  that pass the outside world along, the loops over slices, and the locale from which
  every step relation of the library gets its reachability theorem.

  Strings are byte lists. \<open>ToLower\<close>, \<open>ToUpper\<close> and \<open>EqualFold\<close> are those of Go's
  \<open>strings\<close> package on ASCII text, which is what addresses, contract names, environment
  variable names and method names are.
\<close>

section \<open>Machine integers and strings\<close>

type_synonym u64 = "64 word"
type_synonym u32 = "32 word"

named_theorems prog_simps
named_theorems str_simps
named_theorems run_simps

definition lower_char :: "char \<Rightarrow> char" where
  "lower_char c = (let n = of_char c :: nat in if 65 \<le> n \<and> n \<le> 90 then char_of (n + 32) else c)"

definition upper_char :: "char \<Rightarrow> char" where
  "upper_char c = (let n = of_char c :: nat in if 97 \<le> n \<and> n \<le> 122 then char_of (n - 32) else c)"

definition ToLower :: "string \<Rightarrow> string" where
  "ToLower s = map lower_char s"

definition ToUpper :: "string \<Rightarrow> string" where
  "ToUpper s = map upper_char s"

definition EqualFold :: "string \<Rightarrow> string \<Rightarrow> bool" where
  "EqualFold s t \<longleftrightarrow> ToLower s = ToLower t"

definition HasPrefix :: "string \<Rightarrow> string \<Rightarrow> bool" where
  "HasPrefix s p \<longleftrightarrow> take (length p) s = p"

definition HasSuffix :: "string \<Rightarrow> string \<Rightarrow> bool" where
  "HasSuffix s p \<longleftrightarrow> length p \<le> length s \<and> drop (length s - length p) s = p"

text \<open>\<open>hex.EncodeToString\<close>: two lower-case digits per byte, most significant first.\<close>

definition hex_digit :: "nat \<Rightarrow> char" where
  "hex_digit n = (if n < 10 then char_of (48 + n) else char_of (87 + n))"

definition hex_encode :: "string \<Rightarrow> string" where
  "hex_encode bs = concat (map (\<lambda>b. [hex_digit (of_char b div 16), hex_digit (of_char b mod 16)]) bs)"

definition hex_value :: "char \<Rightarrow> nat" where
  "hex_value c = (let n = of_char c in if n < 58 then n - 48 else n - 87)"

fun hex_decode :: "string \<Rightarrow> string" where
  "hex_decode (h # l # s) = char_of (hex_value h * 16 + hex_value l) # hex_decode s"
| "hex_decode _ = []"

section \<open>Outcomes and world-passing programs\<close>

text \<open>
  \<open>Panicked m\<close> is a Go panic that is unwinding, \<open>Exited c\<close> is the process after
  \<open>os.Exit(c)\<close>. A program takes the outside world (whatever the caller's interfaces can
  observe or change) and gives its outcome and the new world.
\<close>

datatype 'a outcome = Ret 'a | Panicked string | Exited int

type_synonym ('w, 'a) prog = "'w \<Rightarrow> 'a outcome \<times> 'w"

definition returnP :: "'a \<Rightarrow> ('w, 'a) prog" where
  "returnP x = (\<lambda>w. (Ret x, w))"

definition panicP :: "string \<Rightarrow> ('w, 'a) prog" where
  "panicP m = (\<lambda>w. (Panicked m, w))"

definition exitP :: "int \<Rightarrow> ('w, 'a) prog" where
  "exitP c = (\<lambda>w. (Exited c, w))"

definition bindP :: "('w, 'a) prog \<Rightarrow> ('a \<Rightarrow> ('w, 'b) prog) \<Rightarrow> ('w, 'b) prog" where
  "bindP m f = (\<lambda>w. case m w of
     (Ret x, w') \<Rightarrow> f x w'
   | (Panicked e, w') \<Rightarrow> (Panicked e, w')
   | (Exited c, w') \<Rightarrow> (Exited c, w'))"

text \<open>Calling a function value or an interface that may be nil.\<close>

definition nil_deref :: string where
  "nil_deref = ''invalid memory address or nil pointer dereference''"

definition callP :: "'f option \<Rightarrow> ('f \<Rightarrow> ('w, 'a) prog) \<Rightarrow> ('w, 'a) prog" where
  "callP f k = (case f of None \<Rightarrow> panicP nil_deref | Some g \<Rightarrow> k g)"

text \<open>Running a list of programs one after the other.\<close>

fun seqP :: "('w, unit) prog list \<Rightarrow> ('w, unit) prog" where
  "seqP [] = returnP ()"
| "seqP (m # ms) = bindP m (\<lambda>_. seqP ms)"

text \<open>
  The elements of a slice whose key is not in the set and has not occurred before, in
  order: the shape of every loop that skips what is already in a map of seen keys.
\<close>

fun keep_first :: "('a \<Rightarrow> 'k) \<Rightarrow> 'k set \<Rightarrow> 'a list \<Rightarrow> 'a list" where
  "keep_first key seen [] = []"
| "keep_first key seen (x # xs) =
     (if key x \<in> seen then keep_first key seen xs
      else x # keep_first key (insert (key x) seen) xs)"

section \<open>Lemmas\<close>

lemma bindP_return [simp, prog_simps]: "bindP (returnP x) f = f x"
  by (simp add: bindP_def returnP_def)

lemma bindP_panic [simp, prog_simps]: "bindP (panicP e) f = panicP e"
  by (simp add: bindP_def panicP_def)

lemma bindP_exit [simp, prog_simps]: "bindP (exitP c) f = exitP c"
  by (simp add: bindP_def exitP_def)

lemma bindP_right [simp, prog_simps]: "bindP m returnP = m"
  by (auto simp: bindP_def returnP_def fun_eq_iff split: prod.splits outcome.splits)

lemma bindP_assoc [prog_simps]: "bindP (bindP m f) g = bindP m (\<lambda>x. bindP (f x) g)"
  by (auto simp: bindP_def fun_eq_iff split: prod.splits outcome.splits)

lemma bindP_Ret [simp]: "m w = (Ret x, w') \<Longrightarrow> bindP m f w = f x w'"
  by (simp add: bindP_def)

lemma bindP_Panicked [simp]: "m w = (Panicked e, w') \<Longrightarrow> bindP m f w = (Panicked e, w')"
  by (simp add: bindP_def)

lemma bindP_Exited [simp]: "m w = (Exited c, w') \<Longrightarrow> bindP m f w = (Exited c, w')"
  by (simp add: bindP_def)

lemma returnP_apply [run_simps]: "returnP x w = (Ret x, w)"
  by (simp add: returnP_def)

lemma panicP_apply [run_simps]: "panicP e w = (Panicked e, w)"
  by (simp add: panicP_def)

lemma exitP_apply [run_simps]: "exitP c w = (Exited c, w)"
  by (simp add: exitP_def)

lemma bindP_Pair [run_simps]:
  "bindP (Pair (Ret x)) f = f x"
  "bindP (Pair (Panicked e)) f = Pair (Panicked e)"
  "bindP (Pair (Exited c)) f = Pair (Exited c)"
  by (simp_all add: bindP_def fun_eq_iff)

lemma callP_Some [simp]: "callP (Some g) k = k g"
  by (simp add: callP_def)

lemma callP_None [simp]: "callP None k = panicP nil_deref"
  by (simp add: callP_def)

lemma seqP_append [prog_simps]: "seqP (ms @ ns) = bindP (seqP ms) (\<lambda>_. seqP ns)"
  by (induction ms) (simp_all add: bindP_assoc)

lemma lower_char_idem [simp, str_simps]: "lower_char (lower_char c) = lower_char c"
  by (auto simp: lower_char_def Let_def)

lemma ToLower_idem [simp, str_simps]: "ToLower (ToLower s) = ToLower s"
  by (simp add: ToLower_def)

lemma length_ToLower [simp, str_simps]: "length (ToLower s) = length s"
  by (simp add: ToLower_def)

lemma ToLower_Nil [simp, str_simps]: "ToLower [] = []"
  by (simp add: ToLower_def)

lemma ToLower_append [str_simps]: "ToLower (s @ t) = ToLower s @ ToLower t"
  by (simp add: ToLower_def)

lemma EqualFold_refl [simp]: "EqualFold s s"
  by (simp add: EqualFold_def)

lemma EqualFold_ToLower [simp, str_simps]:
  "EqualFold s (ToLower t) = EqualFold s t" "EqualFold (ToLower s) t = EqualFold s t"
  by (simp_all add: EqualFold_def)

lemma HasSuffix_append [simp, str_simps]: "HasSuffix (s @ p) p"
  by (simp add: HasSuffix_def)

lemma HasSuffix_iff: "HasSuffix s p \<longleftrightarrow> (\<exists>t. s = t @ p)"
  by (auto simp: HasSuffix_def) (metis append_take_drop_id)

lemma HasPrefix_iff: "HasPrefix s p \<longleftrightarrow> (\<exists>t. s = p @ t)"
  by (auto simp: HasPrefix_def) (metis append_take_drop_id)

lemma underscore_lower [simp, str_simps]: "lower_char c = CHR ''_'' \<longleftrightarrow> c = CHR ''_''"
proof
  assume eq: "lower_char c = CHR ''_''"
  show "c = CHR ''_''"
  proof (cases "65 \<le> (of_char c :: nat) \<and> of_char c \<le> (90 :: nat)")
    case True
    with eq have "char_of (of_char c + 32 :: nat) = CHR ''_''" by (simp add: lower_char_def)
    then have "of_char (char_of (of_char c + 32 :: nat)) = (95 :: nat)" by simp
    with True show ?thesis by simp
  next
    case False
    with eq show ?thesis by (auto simp: lower_char_def Let_def)
  qed
qed (simp add: lower_char_def)

lemma underscore_ToLower [simp, str_simps]: "CHR ''_'' \<in> set (ToLower s) \<longleftrightarrow> CHR ''_'' \<in> set s"
proof (induction s)
  case Nil
  then show ?case by simp
next
  case (Cons c s)
  have "CHR ''_'' = lower_char c \<longleftrightarrow> CHR ''_'' = c" using underscore_lower [of c] by metis
  with Cons show ?case by (simp add: ToLower_def)
qed

lemma separator_split:
  assumes "c \<notin> set s" "c \<notin> set s'" and "s @ c # t = s' @ c # t'"
  shows "s = s' \<and> t = t'"
  using assms
proof (induction s arbitrary: s')
  case Nil
  then show ?case by (cases s') auto
next
  case (Cons x s)
  then show ?case by (cases s') auto
qed

lemma concat_blocks_inj:
  assumes "\<forall>x \<in> set xs. length x = n" "\<forall>y \<in> set ys. length y = n" "0 < n" "concat xs = concat ys"
  shows "xs = ys"
  using assms
proof (induction xs arbitrary: ys)
  case Nil
  then show ?case by (cases ys) fastforce+
next
  case (Cons x xs)
  from Cons.prems obtain y ys' where ys: "ys = y # ys'" by (cases ys) fastforce+
  with Cons.prems have "length x = length y" and "x @ concat xs = y @ concat ys'" by simp_all
  then have "x = y" and "concat xs = concat ys'" by simp_all
  moreover have "xs = ys'"
    by (rule Cons.IH) (use Cons.prems ys calculation(2) in simp_all)
  ultimately show ?case using ys by simp
qed

lemma hex_value_digit [simp]: "n < 16 \<Longrightarrow> hex_value (hex_digit n) = n"
  by (auto simp: hex_value_def hex_digit_def Let_def)

lemma hex_decode_encode [simp]: "hex_decode (hex_encode bs) = bs"
proof (induction bs)
  case Nil
  then show ?case by (simp add: hex_encode_def)
next
  case (Cons b bs)
  have "(of_char b :: nat) < 256" by simp
  then have "(of_char b :: nat) div 16 < 16" by linarith
  with Cons show ?case by (simp add: hex_encode_def)
qed

lemma length_hex_encode [simp]: "length (hex_encode bs) = 2 * length bs"
  by (induction bs) (simp_all add: hex_encode_def)

lemma keep_first_subset: "set (keep_first key seen xs) \<subseteq> set xs"
  by (induction xs arbitrary: seen) auto

lemma keep_first_keys: "key ` set (keep_first key seen xs) = key ` set xs - seen"
  by (induction xs arbitrary: seen) auto

lemma keep_first_distinct: "distinct (map key (keep_first key seen xs))"
  by (induction xs arbitrary: seen) (auto simp: keep_first_keys)

lemma keep_first_seen_cong:
  "(\<forall>x \<in> set xs. key x \<in> S \<longleftrightarrow> key x \<in> T) \<Longrightarrow> keep_first key S xs = keep_first key T xs"
proof (induction xs arbitrary: S T)
  case Nil
  then show ?case by simp
next
  case (Cons x xs)
  have "keep_first key S xs = keep_first key T xs"
    "keep_first key (insert (key x) S) xs = keep_first key (insert (key x) T) xs"
    using Cons.prems by (auto intro!: Cons.IH)
  with Cons.prems show ?case by auto
qed

lemma keep_first_keep_first:
  "(\<forall>x \<in> set xs. \<forall>y \<in> set xs. k x = k y \<longrightarrow> a x = a y) \<Longrightarrow> (\<forall>x \<in> set xs. k x \<in> T \<longrightarrow> a x \<in> S) \<Longrightarrow>
   keep_first a S (keep_first k T xs) = keep_first a S xs"
proof (induction xs arbitrary: S T)
  case Nil
  then show ?case by simp
next
  case (Cons x xs)
  have c: "\<forall>y \<in> set xs. \<forall>z \<in> set xs. k y = k z \<longrightarrow> a y = a z"
    and t: "\<forall>y \<in> set xs. k y \<in> T \<longrightarrow> a y \<in> S"
    and h: "\<forall>y \<in> set xs. k y = k x \<longrightarrow> a y = a x"
    using Cons.prems by (meson list.set_intros)+
  have "keep_first a S (keep_first k T xs) = keep_first a S xs"
    using c t by (rule Cons.IH)
  moreover have "a x \<in> S \<Longrightarrow> keep_first a S (keep_first k (insert (k x) T) xs) = keep_first a S xs"
    using c by (rule Cons.IH) (use t h in \<open>metis insertE\<close>)
  moreover have "keep_first a (insert (a x) S) (keep_first k (insert (k x) T) xs) = keep_first a (insert (a x) S) xs"
    using c by (rule Cons.IH) (use t h in \<open>metis insert_iff\<close>)
  moreover have "k x \<in> T \<Longrightarrow> a x \<in> S" using Cons.prems(2) by simp
  ultimately show ?case by (cases "k x \<in> T"; cases "a x \<in> S") simp_all
qed

lemma keep_first_idem:
  "distinct (map key xs) \<Longrightarrow> key ` set xs \<inter> seen = {} \<Longrightarrow> keep_first key seen xs = xs"
  by (induction xs arbitrary: seen) (auto simp: image_iff)

lemma mset_concat_update:
  "k < length xs \<Longrightarrow> mset (concat (map f (xs[k := x]))) + mset (f (xs ! k)) = mset (concat (map f xs)) + mset (f x)"
proof (induction xs arbitrary: k)
  case (Cons y ys)
  show ?case
  proof (cases k)
    case (Suc i)
    with Cons have "mset (concat (map f (ys[i := x]))) + mset (f (ys ! i)) = mset (concat (map f ys)) + mset (f x)" by simp
    with Suc show ?thesis by (simp add: ac_simps)
  qed simp
qed simp

section \<open>Step relations\<close>

text \<open>
  Every state machine of the library (the scanner's goroutines, the metrics
  initialisation, the notifier, the forwarding loop, the dispatch loop, the calls of a connection) is a step relation
  with an invariant; the locale carries the induction over its runs.
\<close>

lemma three_steps: "r a b \<Longrightarrow> r b c \<Longrightarrow> r c d \<Longrightarrow> r\<^sup>*\<^sup>* a d"
  by (blast intro: rtranclp.rtrancl_into_rtrancl rtranclp.rtrancl_refl)

locale step_system =
  fixes init :: "'s \<Rightarrow> bool"
    and step :: "'s \<Rightarrow> 's \<Rightarrow> bool"
    and inv :: "'s \<Rightarrow> bool"
  assumes inv_init: "init s \<Longrightarrow> inv s"
    and inv_step: "inv s \<Longrightarrow> step s t \<Longrightarrow> inv t"
begin

lemma inv_run: "step\<^sup>*\<^sup>* s t \<Longrightarrow> inv s \<Longrightarrow> inv t"
  by (induction rule: rtranclp_induct) (auto intro: inv_step)

lemma inv_reachable: "init s \<Longrightarrow> step\<^sup>*\<^sup>* s t \<Longrightarrow> inv t"
  by (blast intro: inv_run inv_init)

end

text \<open>
  A step system that implements a more abstract one: an abstraction of its states, under which each
  step is a run of the abstract system (possibly of no step). Reachable states then abstract to
  reachable states, and an invariant of the abstract system holds of what the states abstract to.
\<close>

locale simulation = step_system init step inv
  for init :: "'s \<Rightarrow> bool" and step :: "'s \<Rightarrow> 's \<Rightarrow> bool" and inv :: "'s \<Rightarrow> bool" +
  fixes abs :: "'s \<Rightarrow> 'a"
    and ainit :: "'a \<Rightarrow> bool"
    and astep :: "'a \<Rightarrow> 'a \<Rightarrow> bool"
  assumes sim_init: "init s \<Longrightarrow> ainit (abs s)"
    and sim_step: "inv s \<Longrightarrow> step s t \<Longrightarrow> astep\<^sup>*\<^sup>* (abs s) (abs t)"
begin

lemma sim_run: "step\<^sup>*\<^sup>* s t \<Longrightarrow> inv s \<Longrightarrow> astep\<^sup>*\<^sup>* (abs s) (abs t)"
proof (induction rule: rtranclp_induct)
  case (step t u)
  then have "inv t" using inv_run by blast
  with step show ?case using sim_step by (meson rtranclp_trans)
qed simp

lemma sim_reachable: "init s \<Longrightarrow> step\<^sup>*\<^sup>* s t \<Longrightarrow> ainit (abs s) \<and> astep\<^sup>*\<^sup>* (abs s) (abs t)"
  using sim_init sim_run inv_init by blast

lemma sim_invariant:
  assumes "step_system ainit astep ainv" and "init s" and "step\<^sup>*\<^sup>* s t"
  shows "ainv (abs t)"
  using step_system.inv_reachable [OF assms(1)] sim_reachable [OF assms(2,3)] by blast

end

end
