(* ===== verification/Util.thy ===== *)
theory Util
  imports Prelude
begin

text \<open>
  The package \<open>util\<close> (src/util/utils.go): \<open>Panic\<close>, \<open>BytesToHex\<close>, the retry helper
  \<open>TryReturn\<close> and the two durations read from the environment. \<open>cast.ToUint64\<close> is the
  parameter \<open>toUint64\<close>; the process environment is a function from names to values that
  gives the empty string for an unset variable, as \<open>os.Getenv\<close> does.
\<close>

type_synonym error = string

section \<open>Definitions\<close>

definition Panic :: "error option \<Rightarrow> ('w, unit) prog" where
  "Panic err = (case err of None \<Rightarrow> returnP () | Some e \<Rightarrow> panicP e)"

definition BytesToHex :: "string \<Rightarrow> string" where
  "BytesToHex b = hex_encode b"

text \<open>
  The function that is tried returns a result and an error, nil on success. The loop runs
  while \<open>try < maxTry\<close>; its first argument is the number of tries left.
\<close>

fun try_loop :: "nat \<Rightarrow> ('w, 'a \<times> error option) prog \<Rightarrow> error option \<Rightarrow>
    ('w, 'a option \<times> error option) prog" where
  "try_loop 0 f err = returnP (None, err)"
| "try_loop (Suc n) f err =
     bindP f (\<lambda>(result, e). case e of
       None \<Rightarrow> returnP (Some result, None)
     | Some _ \<Rightarrow> try_loop n f e)"

definition max_try :: "int list \<Rightarrow> nat" where
  "max_try tryCount = (case tryCount of
     [] \<Rightarrow> 3
   | c # _ \<Rightarrow> if c > 0 then nat c else 3)"

definition TryReturn :: "('w, 'a \<times> error option) prog \<Rightarrow> int list \<Rightarrow>
    ('w, 'a option \<times> error option) prog" where
  "TryReturn f tryCount = try_loop (max_try tryCount) f None"

definition GetEnv :: "(string \<Rightarrow> string) \<Rightarrow> string \<Rightarrow> string \<Rightarrow> string" where
  "GetEnv env key defaultValue = (let value = env key in if value = [] then defaultValue else value)"

text \<open>\<open>time.Duration\<close> is an int64 count of nanoseconds; products wrap around.\<close>

type_synonym duration = "64 word"

definition Second :: duration where
  "Second = 1000000000"

definition GetSleepTime :: "(string \<Rightarrow> u64) \<Rightarrow> (string \<Rightarrow> string) \<Rightarrow> duration" where
  "GetSleepTime toUint64 env =
     (let sleepTime = toUint64 (GetEnv env ''BLOCK_POLLING_SLEEP_TIME'' ''2'')
      in if sleepTime \<le> 0 then 2 * Second else sleepTime * Second)"

definition GetDelayTime :: "(string \<Rightarrow> u64) \<Rightarrow> (string \<Rightarrow> string) \<Rightarrow> duration" where
  "GetDelayTime toUint64 env =
     (let sleepTime = toUint64 (GetEnv env ''BLOCK_DELAY_SEND_TIME'' ''5'')
      in if sleepTime \<le> 0 then 5 * Second else sleepTime * Second)"

text \<open>
  The first \<open>n\<close> calls of \<open>f\<close> from world \<open>w\<close>, when each of them reports an error: the last
  error and the world after them. This is the specification \<open>TryReturn\<close> is compared with.
\<close>

fun failures :: "nat \<Rightarrow> ('w, 'a \<times> error option) prog \<Rightarrow> error option \<Rightarrow> 'w \<Rightarrow>
    (error option \<times> 'w) option" where
  "failures 0 f err w = Some (err, w)"
| "failures (Suc n) f err w = (case f w of
     (Ret (r, Some e), w') \<Rightarrow> failures n f (Some e) w'
   | _ \<Rightarrow> None)"

section \<open>Lemmas\<close>

lemma Panic_simps [simp]: "Panic None = returnP ()" "Panic (Some e) = panicP e"
  by (simp_all add: Panic_def)

lemma max_try_pos [simp]: "0 < max_try tc"
  by (auto simp: max_try_def split: list.splits)

lemma try_loop_success:
  "failures k f err w = Some (e, w1) \<Longrightarrow> k < n \<Longrightarrow> f w1 = (Ret (r, None), w2) \<Longrightarrow>
   try_loop n f err w = (Ret (Some r, None), w2)"
proof (induction k arbitrary: n err w)
  case 0
  then show ?case by (cases n) (auto simp: run_simps)
next
  case (Suc k)
  then show ?case
    by (cases n) (auto simp: run_simps split: prod.splits outcome.splits option.splits)
qed

lemma TryReturn_immediate:
  "f w = (Ret (r, None), w') \<Longrightarrow> TryReturn f tc w = (Ret (Some r, None), w')"
  using try_loop_success [of 0 f None w None w "max_try tc" r w'] by (simp add: TryReturn_def)

lemma try_loop_exhausted:
  "failures n f err w = Some (e, w1) \<Longrightarrow> try_loop n f err w = (Ret (None, e), w1)"
  by (induction n arbitrary: err w) (auto simp: run_simps split: prod.splits outcome.splits option.splits)

lemma try_loop_cases:
  assumes "\<And>w. \<exists>x w'. f w = (Ret x, w')"
  shows "(\<exists>k<n. \<exists>e w1 r w2. failures k f err w = Some (e, w1) \<and> f w1 = (Ret (r, None), w2))
       \<or> (\<exists>e w1. failures n f err w = Some (e, w1))"
proof (induction n arbitrary: err w)
  case 0
  then show ?case by simp
next
  case (Suc n)
  obtain r e w' where fw: "f w = (Ret (r, e), w')" using assms [of w] by auto
  show ?case
  proof (cases e)
    case None
    with fw show ?thesis by fastforce
  next
    case (Some m)
    from Suc.IH [of "Some m" w'] show ?thesis
    proof
      assume "\<exists>k<n. \<exists>e w1 r w2. failures k f (Some m) w' = Some (e, w1) \<and> f w1 = (Ret (r, None), w2)"
      then obtain k e1 w1 r1 w2 where "k < n" "failures k f (Some m) w' = Some (e1, w1)"
        "f w1 = (Ret (r1, None), w2)" by blast
      with fw Some have "Suc k < Suc n" "failures (Suc k) f err w = Some (e1, w1)" by simp_all
      with \<open>f w1 = (Ret (r1, None), w2)\<close> show ?thesis by blast
    next
      assume "\<exists>e w1. failures n f (Some m) w' = Some (e, w1)"
      with fw Some show ?thesis by auto
    qed
  qed
qed

lemma failures_error: "failures n f err w = Some (e, w1) \<Longrightarrow> 0 < n \<or> err \<noteq> None \<Longrightarrow> e \<noteq> None"
  by (induction n arbitrary: err w) (auto split: prod.splits outcome.splits option.splits)

lemma sint_small:
  fixes x :: "64 word"
  assumes "unat x < 2 ^ 63"
  shows "sint x = int (unat x)"
proof -
  have "uint x < 2 ^ 63" using assms of_nat_less_iff [where 'a = int, of "unat x" "2 ^ 63"] by simp
  then have "signed_take_bit 63 (uint x) = uint x"
    by (intro signed_take_bit_int_eq_self) (simp_all add: order_trans [OF _ uint_ge_0])
  then show ?thesis by (simp add: sint_uint)
qed

lemma scaled_second:
  fixes s :: u64
  assumes "unat s \<le> 9223372036" and "s \<noteq> 0"
  shows "sint (s * Second) = int (unat s) * 1000000000" and "0 < sint (s * Second)"
proof -
  have lt: "unat s * 1000000000 < 2 ^ 63" using assms(1) by simp
  have u: "unat (s * Second) = unat s * 1000000000"
    using lt by (simp add: Second_def unat_word_ariths)
  show eq: "sint (s * Second) = int (unat s) * 1000000000"
    using sint_small [of "s * Second"] lt u by simp
  have "0 < uint s" using assms(2) by (simp add: word_neq_0_conv word_less_def)
  then show "0 < sint (s * Second)" unfolding eq by simp
qed

section \<open>Properties\<close>

text \<open>\<open>TryReturn\<close> of a function that always returns: either some call among the first
  \<open>max_try\<close> ones succeeds after only failing calls, and its result is returned with a nil
  error from the world that call left; or all \<open>max_try\<close> calls fail, and a nil result is
  returned with the last error. The function is never called more often than that.\<close>

theorem TryReturn_correct:
  assumes "\<And>w. \<exists>x w'. f w = (Ret x, w')"
  shows "(\<exists>k < max_try tc. \<exists>e w1 r w2. failures k f None w = Some (e, w1) \<and>
            f w1 = (Ret (r, None), w2) \<and> TryReturn f tc w = (Ret (Some r, None), w2))
       \<or> (\<exists>e w1. failures (max_try tc) f None w = Some (Some e, w1) \<and>
            TryReturn f tc w = (Ret (None, Some e), w1))"
  using try_loop_cases [of f "max_try tc" None w, OF assms]
proof
  assume "\<exists>k < max_try tc. \<exists>e w1 r w2. failures k f None w = Some (e, w1) \<and> f w1 = (Ret (r, None), w2)"
  then show ?thesis by (metis TryReturn_def try_loop_success)
next
  assume "\<exists>e w1. failures (max_try tc) f None w = Some (e, w1)"
  then show ?thesis
    by (metis TryReturn_def failures_error max_try_pos not_None_eq try_loop_exhausted)
qed

text \<open>The case of \<open>TestTryReturn\<close>: nine failing calls, then a success on the tenth.\<close>

theorem TryReturn_correct_witness:
  "let f = (\<lambda>n::nat. (Ret (Suc n, if Suc n \<le> 9 then Some ''error'' else None), Suc n)) in
     (\<forall>w. \<exists>x w'. f w = (Ret x, w')) \<and>
     ((\<exists>k < max_try [10]. \<exists>e w1 r w2. failures k f None 0 = Some (e, w1) \<and>
         f w1 = (Ret (r, None), w2) \<and> TryReturn f [10] 0 = (Ret (Some r, None), w2))
      \<or> (\<exists>e w1. failures (max_try [10]) f None 0 = Some (Some e, w1) \<and>
         TryReturn f [10] 0 = (Ret (None, Some e), w1))) \<and>
     TryReturn f [10] 0 = (Ret (Some 10, None), 10)"
proof -
  let ?f = "\<lambda>n::nat. (Ret (Suc n, if Suc n \<le> 9 then Some ''error'' else None), Suc n)"
  have total: "\<And>w. \<exists>x w'. ?f w = (Ret x, w')" by simp
  have run: "TryReturn ?f [10] 0 = (Ret (Some 10, None), 10)"
    by (simp add: TryReturn_def max_try_def numeral_eq_Suc bindP_def run_simps)
  show ?thesis unfolding Let_def using total TryReturn_correct [of ?f "[10]" 0, OF total] run by blast
qed

text \<open>A sleep or delay time of at most 9223372036 seconds read from the environment is
  that many seconds exactly, and a value of 0 (unset, or not a number) gives the built-in
  2 and 5 seconds; in all these cases the duration is positive. (Larger values overflow
  int64 nanoseconds.)\<close>

theorem sleep_and_delay_bounds:
  assumes "unat (toUint64 (GetEnv env ''BLOCK_POLLING_SLEEP_TIME'' ''2'')) \<le> 9223372036"
    and "unat (toUint64 (GetEnv env ''BLOCK_DELAY_SEND_TIME'' ''5'')) \<le> 9223372036"
  shows "sint (GetSleepTime toUint64 env) =
           (let s = unat (toUint64 (GetEnv env ''BLOCK_POLLING_SLEEP_TIME'' ''2''))
            in if s = 0 then 2 else int s) * 1000000000 \<and>
         sint (GetDelayTime toUint64 env) =
           (let s = unat (toUint64 (GetEnv env ''BLOCK_DELAY_SEND_TIME'' ''5''))
            in if s = 0 then 5 else int s) * 1000000000 \<and>
         0 < sint (GetSleepTime toUint64 env) \<and> 0 < sint (GetDelayTime toUint64 env)"
  using scaled_second [OF assms(1)] scaled_second [OF assms(2)]
  by (auto simp: GetSleepTime_def GetDelayTime_def Let_def Second_def unat_eq_0)

text \<open>With nothing set and a conversion that reads one decimal digit.\<close>

theorem sleep_and_delay_bounds_witness:
  "let cast = (\<lambda>s. if s = ''2'' then 2 else if s = ''5'' then 5 else 0 :: u64); env = (\<lambda>_. []) in
     unat (cast (GetEnv env ''BLOCK_POLLING_SLEEP_TIME'' ''2'')) \<le> 9223372036 \<and>
     unat (cast (GetEnv env ''BLOCK_DELAY_SEND_TIME'' ''5'')) \<le> 9223372036 \<and>
     sint (GetSleepTime cast env) = 2000000000 \<and> sint (GetDelayTime cast env) = 5000000000"
proof -
  let ?cast = "\<lambda>s. if s = ''2'' then 2 else if s = ''5'' then 5 else 0 :: u64"
  let ?env = "\<lambda>_. [] :: string"
  have p: "unat (?cast (GetEnv ?env ''BLOCK_POLLING_SLEEP_TIME'' ''2'')) = 2"
    and d: "unat (?cast (GetEnv ?env ''BLOCK_DELAY_SEND_TIME'' ''5'')) = 5"
    by (simp_all add: GetEnv_def)
  show ?thesis
    using p d sleep_and_delay_bounds [of ?cast ?env] by (simp add: GetEnv_def)
qed

end
