(* ===== verification/Logging.thy ===== *)
theory Logging
  imports Util
begin

text \<open>
  The package \<open>util/log\<close> (src/util/log/log.go): the level parser, the package variables
  \<open>log\<close>, \<open>logFunc\<close> and \<open>mysqlLogCount\<close>, their initialisation, the function \<open>outByLog\<close>
  behind \<open>Debug\<close> \<dots> \<open>Fatal\<close>, and the two adapters \<open>GormLog\<close> and \<open>WorkersLog\<close>.
  The zap library is a parameter: a logger is what its methods do for each level and
  which levels its core enables; \<open>zap.New\<close> for a level is the argument \<open>newZap\<close>.
\<close>

section \<open>Levels\<close>

datatype zlevel = DebugLevel | InfoLevel | WarnLevel | ErrorLevel | DPanicLevel | PanicLevel | FatalLevel

text \<open>The int8 value of a \<open>zapcore.Level\<close>; levels are compared by it.\<close>

fun level_int :: "zlevel \<Rightarrow> int" where
  "level_int DebugLevel = -1"
| "level_int InfoLevel = 0"
| "level_int WarnLevel = 1"
| "level_int ErrorLevel = 2"
| "level_int DPanicLevel = 3"
| "level_int PanicLevel = 4"
| "level_int FatalLevel = 5"

lemma level_int_inj [simp]: "level_int a = level_int b \<longleftrightarrow> a = b"
  by (cases a; cases b) simp_all

instantiation zlevel :: linorder
begin

definition less_eq_zlevel :: "zlevel \<Rightarrow> zlevel \<Rightarrow> bool" where
  "less_eq_zlevel a b \<longleftrightarrow> level_int a \<le> level_int b"

definition less_zlevel :: "zlevel \<Rightarrow> zlevel \<Rightarrow> bool" where
  "less_zlevel a b \<longleftrightarrow> level_int a < level_int b"

instance
  by standard (auto simp: less_eq_zlevel_def less_zlevel_def)

end

definition StrLevel2zAPlEVEL :: "string \<Rightarrow> zlevel" where
  "StrLevel2zAPlEVEL level =
     (let l = ToLower level in
      if l = ''info'' then InfoLevel
      else if l = ''Warn'' then WarnLevel
      else if l = ''error'' then ErrorLevel
      else DebugLevel)"

section \<open>Package state\<close>

record 'w zap_logger =
  sugarf :: "zlevel \<Rightarrow> string \<Rightarrow> ('w, unit) prog"
  core_enabled :: "zlevel \<Rightarrow> bool"

text \<open>\<open>logFunc\<close> is an association list from levels to output functions; \<open>log\<close> may be nil.\<close>

record 'w log_pkg =
  log :: "'w zap_logger option"
  logFunc :: "(zlevel \<times> (string \<Rightarrow> ('w, unit) prog)) list"
  mysqlLogCount :: "64 word"

definition zero_pkg :: "'w log_pkg" where
  "zero_pkg = \<lparr>log = None, logFunc = [], mysqlLogCount = 0\<rparr>"

definition all_levels :: "zlevel list" where
  "all_levels = [DebugLevel, InfoLevel, WarnLevel, ErrorLevel, FatalLevel, PanicLevel, DPanicLevel]"

text \<open>\<open>InitLog\<close> replaces the logger only; the encoder settings and extra writers are zap's.\<close>

definition InitLog :: "(zlevel \<Rightarrow> 'w zap_logger) \<Rightarrow> zlevel \<Rightarrow> 'w log_pkg \<Rightarrow> 'w log_pkg" where
  "InitLog newZap level pkg = pkg\<lparr>log := Some (newZap level)\<rparr>"

text \<open>The package's \<open>init\<close>: the level comes from the environment variable \<open>LOG_LEVEL\<close>.\<close>

definition log_init :: "(zlevel \<Rightarrow> 'w zap_logger) \<Rightarrow> (string \<Rightarrow> string) \<Rightarrow> 'w log_pkg" where
  "log_init newZap env = InitLog newZap (StrLevel2zAPlEVEL (GetEnv env ''LOG_LEVEL'' ''DEBUG'')) zero_pkg"

definition initOutFunc :: "'w log_pkg \<Rightarrow> ('w, 'w log_pkg) prog" where
  "initOutFunc pkg =
     (if length (logFunc pkg) = 0
      then callP (log pkg) (\<lambda>l. returnP (pkg\<lparr>logFunc := map (\<lambda>lv. (lv, sugarf l lv)) all_levels\<rparr>))
      else returnP pkg)"

text \<open>
  The prologue shared by \<open>NewGormLog\<close> and \<open>NewWorkersLog\<close>: a nil logger is replaced by a
  debug one with a warning, then \<open>logFunc\<close> is filled.
\<close>

definition ensure_log :: "(zlevel \<Rightarrow> 'w zap_logger) \<Rightarrow> string \<Rightarrow> 'w log_pkg \<Rightarrow> ('w, 'w log_pkg) prog" where
  "ensure_log newZap warning pkg = (case log pkg of
     None \<Rightarrow> (let pkg1 = InitLog newZap DebugLevel pkg
              in bindP (sugarf (newZap DebugLevel) WarnLevel warning) (\<lambda>_. returnP pkg1))
   | Some _ \<Rightarrow> returnP pkg)"

definition NewGormLog :: "(zlevel \<Rightarrow> 'w zap_logger) \<Rightarrow> 'w log_pkg \<Rightarrow> ('w, 'w log_pkg) prog" where
  "NewGormLog newZap pkg =
     bindP (ensure_log newZap ''log not init, auto init log level debug'' pkg) initOutFunc"

record workers_log =
  wl_show :: bool

definition NewWorkersLog :: "(zlevel \<Rightarrow> 'w zap_logger) \<Rightarrow> (string \<Rightarrow> bool) \<Rightarrow> (string \<Rightarrow> string) \<Rightarrow>
    'w log_pkg \<Rightarrow> ('w, 'w log_pkg \<times> workers_log) prog" where
  "NewWorkersLog newZap toBool env pkg =
     bindP (ensure_log newZap ''log not init, auto init log leveet debug'' pkg) (\<lambda>pkg1.
     bindP (initOutFunc pkg1) (\<lambda>pkg2.
     returnP (pkg2, \<lparr>wl_show = toBool (env ''SHOW_WORKERS_LOG'')\<rparr>)))"

section \<open>Writing a message\<close>

text \<open>
  In the nil case the source calls \<open>InitLog\<close>, \<open>initOutFunc\<close> and then warns. A message of
  level DPanic ends the process with status 1 whenever the core enables debug messages.
\<close>

definition outByLog :: "(zlevel \<Rightarrow> 'w zap_logger) \<Rightarrow> zlevel \<Rightarrow> string \<Rightarrow> 'w log_pkg \<Rightarrow> ('w, 'w log_pkg) prog" where
  "outByLog newZap level msg pkg0 =
     bindP (case log pkg0 of
        None \<Rightarrow> bindP (initOutFunc (InitLog newZap DebugLevel pkg0)) (\<lambda>pkg1.
                bindP (sugarf (newZap DebugLevel) WarnLevel ''log not init, auto init log level debug'')
                  (\<lambda>_. returnP pkg1))
      | Some _ \<Rightarrow> returnP pkg0) (\<lambda>pkg.
     callP (log pkg) (\<lambda>l.
     bindP (case map_of (logFunc pkg) level of
        Some out \<Rightarrow> out msg
      | None \<Rightarrow> sugarf l DebugLevel msg) (\<lambda>_.
     if level = DPanicLevel \<and> core_enabled l DebugLevel then exitP 1 else returnP pkg)))"

text \<open>The functions of the package, one per level.\<close>

definition log_Debug :: "(zlevel \<Rightarrow> 'w zap_logger) \<Rightarrow> string \<Rightarrow> 'w log_pkg \<Rightarrow> ('w, 'w log_pkg) prog" where "log_Debug newZap = outByLog newZap DebugLevel"
definition log_Info :: "(zlevel \<Rightarrow> 'w zap_logger) \<Rightarrow> string \<Rightarrow> 'w log_pkg \<Rightarrow> ('w, 'w log_pkg) prog" where "log_Info newZap = outByLog newZap InfoLevel"
definition log_Warn :: "(zlevel \<Rightarrow> 'w zap_logger) \<Rightarrow> string \<Rightarrow> 'w log_pkg \<Rightarrow> ('w, 'w log_pkg) prog" where "log_Warn newZap = outByLog newZap WarnLevel"
definition log_Error :: "(zlevel \<Rightarrow> 'w zap_logger) \<Rightarrow> string \<Rightarrow> 'w log_pkg \<Rightarrow> ('w, 'w log_pkg) prog" where "log_Error newZap = outByLog newZap ErrorLevel"
definition log_Panic :: "(zlevel \<Rightarrow> 'w zap_logger) \<Rightarrow> string \<Rightarrow> 'w log_pkg \<Rightarrow> ('w, 'w log_pkg) prog" where "log_Panic newZap = outByLog newZap PanicLevel"
definition log_DPanic :: "(zlevel \<Rightarrow> 'w zap_logger) \<Rightarrow> string \<Rightarrow> 'w log_pkg \<Rightarrow> ('w, 'w log_pkg) prog" where "log_DPanic newZap = outByLog newZap DPanicLevel"
definition log_Fatal :: "(zlevel \<Rightarrow> 'w zap_logger) \<Rightarrow> string \<Rightarrow> 'w log_pkg \<Rightarrow> ('w, 'w log_pkg) prog" where "log_Fatal newZap = outByLog newZap FatalLevel"

section \<open>The database adapter\<close>

text \<open>
  The values of the variadic \<open>Print\<close> matter only as strings, errors or others. The result
  says which record is written; the SQL counter is an int64 that wraps around.
\<close>

datatype log_val = LStr string | LErr string | LOther

datatype gorm_out = GNothing | GRaw | GSqlError | GSqlDebug | GMessage

definition GormLog_Print :: "log_val list \<Rightarrow> 'w log_pkg \<Rightarrow> gorm_out \<times> 'w log_pkg" where
  "GormLog_Print v pkg = (case v of
     [] \<Rightarrow> (GNothing, pkg)
   | LStr sqlField # _ \<Rightarrow>
       (if sqlField = ''sql'' then
          (if length v < 6 then (GRaw, pkg)
           else let logCount = mysqlLogCount pkg + 1; pkg' = pkg\<lparr>mysqlLogCount := logCount\<rparr>
                in if sint logCount mod 1000 = 0 then (GSqlError, pkg') else (GSqlDebug, pkg'))
        else if sqlField = ''log'' then
          (if length v < 3 then (GRaw, pkg) else (GMessage, pkg))
        else (GNothing, pkg))
   | _ # _ \<Rightarrow> (GRaw, pkg))"

definition WorkersLog_Println :: "workers_log \<Rightarrow> (string \<Rightarrow> ('w, unit) prog) \<Rightarrow> string \<Rightarrow> ('w, unit) prog" where
  "WorkersLog_Println wl debugf v = (if \<not> wl_show wl then returnP () else debugf v)"

text \<open>The format and the slice of arguments are two values for \<open>Debug\<close>, which does not format.\<close>

definition WorkersLog_Printf :: "workers_log \<Rightarrow> (string \<Rightarrow> string list \<Rightarrow> ('w, unit) prog) \<Rightarrow> string \<Rightarrow> string list \<Rightarrow> ('w, unit) prog" where
  "WorkersLog_Printf wl debug f v = (if \<not> wl_show wl then returnP () else debug f v)"

text \<open>A run of \<open>Print\<close> calls and what they write.\<close>

fun gorm_run :: "log_val list list \<Rightarrow> 'w log_pkg \<Rightarrow> gorm_out list" where
  "gorm_run [] pkg = []"
| "gorm_run (v # vs) pkg = (let (out, pkg') = GormLog_Print v pkg in out # gorm_run vs pkg')"

section \<open>Lemmas\<close>

lemma StrLevel_not_Warn: "StrLevel2zAPlEVEL level \<noteq> WarnLevel"
proof -
  have "ToLower level \<noteq> ''Warn''"
  proof
    assume eq: "ToLower level = ''Warn''"
    have "ToLower (ToLower level) = ToLower level" by (rule ToLower_idem)
    then have "ToLower ''Warn'' = ''Warn''" unfolding eq .
    moreover have "ToLower ''Warn'' \<noteq> ''Warn''" by code_simp
    ultimately show False by blast
  qed
  then show ?thesis by (simp add: StrLevel2zAPlEVEL_def Let_def)
qed

lemma log_init_simps [simp]:
  "log (log_init newZap env) = Some (newZap (StrLevel2zAPlEVEL (GetEnv env ''LOG_LEVEL'' ''DEBUG'')))"
  "logFunc (log_init newZap env) = []"
  by (simp_all add: log_init_def InitLog_def zero_pkg_def)

lemma outByLog_init:
  "log pkg = Some l \<Longrightarrow> outByLog newZap level msg pkg =
     bindP (case map_of (logFunc pkg) level of Some out \<Rightarrow> out msg | None \<Rightarrow> sugarf l DebugLevel msg)
       (\<lambda>_. if level = DPanicLevel \<and> core_enabled l DebugLevel then exitP 1 else returnP pkg)"
  by (simp add: outByLog_def)

lemma map_of_all_levels: "map_of (map (\<lambda>lv. (lv, f lv)) all_levels) level = Some (f level)"
  by (cases level) (simp_all add: all_levels_def)

lemma gorm_print_sql:
  assumes "hd v = LStr ''sql''" and "6 \<le> length v" and "unat (mysqlLogCount pkg) + 1 < 2 ^ 63"
  shows "GormLog_Print v pkg =
    (if (unat (mysqlLogCount pkg) + 1) mod 1000 = 0 then GSqlError else GSqlDebug,
     pkg\<lparr>mysqlLogCount := mysqlLogCount pkg + 1\<rparr>)"
    and "unat (mysqlLogCount pkg + 1) = unat (mysqlLogCount pkg) + 1"
proof -
  let ?c = "mysqlLogCount pkg"
  show u: "unat (?c + 1) = unat ?c + 1"
    using assms(3) by (simp add: unat_word_ariths)
  obtain n where n: "n = unat (?c + 1)" by blast
  have "sint (?c + 1) = int n"
    using sint_small [of "?c + 1"] u assms(3) n by simp
  then have "sint (?c + 1) mod 1000 = int (n mod 1000)"
    by (simp add: zmod_int)
  then have "sint (?c + 1) mod 1000 = 0 \<longleftrightarrow> (unat ?c + 1) mod 1000 = 0"
    unfolding u [symmetric] n [symmetric] by simp
  moreover obtain rest where "v = LStr ''sql'' # rest"
    using assms(1,2) by (cases v) auto
  ultimately show "GormLog_Print v pkg =
    (if (unat ?c + 1) mod 1000 = 0 then GSqlError else GSqlDebug, pkg\<lparr>mysqlLogCount := ?c + 1\<rparr>)"
    using assms(2) by (simp add: GormLog_Print_def Let_def)
qed

lemma gorm_run_sql:
  assumes "\<forall>v \<in> set vs. hd v = LStr ''sql'' \<and> 6 \<le> length v"
    and "unat (mysqlLogCount pkg) + length vs < 2 ^ 63"
  shows "gorm_run vs pkg =
    map (\<lambda>i. if (unat (mysqlLogCount pkg) + i + 1) mod 1000 = 0 then GSqlError else GSqlDebug) [0..<length vs]"
  using assms
proof (induction vs arbitrary: pkg)
  case Nil
  then show ?case by simp
next
  case (Cons v vs)
  let ?c = "mysqlLogCount pkg"
  let ?pkg = "pkg\<lparr>mysqlLogCount := ?c + 1\<rparr>"
  have lt: "unat ?c + 1 < 2 ^ 63" using Cons.prems(2) by simp
  note p = gorm_print_sql [OF _ _ lt, of v]
  have v: "hd v = LStr ''sql''" "6 \<le> length v" using Cons.prems(1) by auto
  have "gorm_run vs ?pkg = map (\<lambda>i. if (unat (mysqlLogCount ?pkg) + i + 1) mod 1000 = 0
      then GSqlError else GSqlDebug) [0..<length vs]"
    by (rule Cons.IH) (use Cons.prems p(2) [OF v] in simp_all)
  then show ?case
    using p [OF v] by (simp add: upt_conv_Cons map_Suc_upt [symmetric] del: upt_Suc)
qed

section \<open>Properties\<close>

text \<open>After the package's own initialisation, and until a database or workers adapter has
  been created, \<open>logFunc\<close> is empty: every function \<open>Debug\<close> \<dots> \<open>Fatal\<close> writes its message
  with the logger's debug method. In particular \<open>Panic\<close> does not panic and \<open>Fatal\<close> does
  not exit; \<open>DPanic\<close> ends the process with status 1 exactly if the core enables debug.\<close>

theorem outByLog_before_adapters:
  "outByLog newZap level msg (log_init newZap env) =
     (let l = newZap (StrLevel2zAPlEVEL (GetEnv env ''LOG_LEVEL'' ''DEBUG'')) in
      bindP (sugarf l DebugLevel msg) (\<lambda>_.
        if level = DPanicLevel \<and> core_enabled l DebugLevel then exitP 1
        else returnP (log_init newZap env)))"
  by (simp add: outByLog_init Let_def)

text \<open>Creating the database adapter after the package's initialisation repairs this: from
  then on each function writes with the logger's method of its own level.\<close>

theorem outByLog_after_NewGormLog:
  "bindP (NewGormLog newZap (log_init newZap env)) (outByLog newZap level msg) =
   bindP (NewGormLog newZap (log_init newZap env)) (\<lambda>pkg.
     (let l = newZap (StrLevel2zAPlEVEL (GetEnv env ''LOG_LEVEL'' ''DEBUG'')) in
      bindP (sugarf l level msg) (\<lambda>_.
        if level = DPanicLevel \<and> core_enabled l DebugLevel then exitP 1 else returnP pkg)))"
  by (simp add: NewGormLog_def ensure_log_def initOutFunc_def outByLog_init map_of_all_levels Let_def)

text \<open>The level parser: \<open>info\<close> and \<open>error\<close> in any spelling are recognised, every other
  string, \<open>warn\<close> included, selects the debug level, so the warn level is never chosen.\<close>

theorem StrLevel2zAPlEVEL_spec:
  "StrLevel2zAPlEVEL level =
     (if EqualFold level ''info'' then InfoLevel
      else if EqualFold level ''error'' then ErrorLevel
      else DebugLevel) \<and> StrLevel2zAPlEVEL level \<noteq> WarnLevel"
proof -
  have "ToLower ''info'' = ''info''" "ToLower ''error'' = ''error''"
    by code_simp+
  moreover have "StrLevel2zAPlEVEL level \<noteq> WarnLevel" by (rule StrLevel_not_Warn)
  ultimately show ?thesis
    by (auto simp: StrLevel2zAPlEVEL_def EqualFold_def Let_def split: if_splits)
qed

text \<open>Of a sequence of complete SQL records printed through the database adapter since the
  start, each thousandth one is written at error level and all others at debug level.\<close>

theorem gorm_sampling:
  assumes "\<forall>v \<in> set vs. hd v = LStr ''sql'' \<and> 6 \<le> length v" and "length vs < 2 ^ 63"
  shows "gorm_run vs zero_pkg =
    map (\<lambda>i. if (i + 1) mod 1000 = 0 then GSqlError else GSqlDebug) [0..<length vs]"
  using gorm_run_sql [of vs zero_pkg] assms by (simp add: zero_pkg_def)

theorem gorm_sampling_witness:
  "let v = [LStr ''sql'', LOther, LOther, LStr ''select 1'', LOther, LOther] in
     (\<forall>x \<in> set [v, v]. hd x = LStr ''sql'' \<and> 6 \<le> length x) \<and> length [v, v] < 2 ^ 63 \<and>
     gorm_run [v, v] zero_pkg = [GSqlDebug, GSqlDebug]"
proof -
  define v where "v = [LStr ''sql'', LOther, LOther, LStr ''select 1'', LOther, LOther]"
  have all: "\<forall>x \<in> set [v, v]. hd x = LStr ''sql'' \<and> 6 \<le> length x" by (simp add: v_def)
  have len: "length [v, v] < 2 ^ 63" by simp
  have "gorm_run [v, v] zero_pkg = [GSqlDebug, GSqlDebug]"
    using gorm_sampling [OF all len] by (simp del: gorm_run.simps)
  with all len show ?thesis unfolding Let_def v_def [symmetric] by blast
qed

end
