(* ===== verification/Metrics_Pkg.thy ===== *)
theory Metrics_Pkg
  imports Logging
begin

text \<open>
  The package \<open>metrics\<close> (src/metrics): the interface \<open>Metrics\<close> with its two
  implementations and the package initialisation, in which the main goroutine and the
  goroutine of the metrics server both assign the package variable \<open>metrics\<close>.
  Prometheus is a parameter: \<open>add name network v\<close> adds \<open>v\<close> to the counter \<open>name\<close> with that
  network label. The values that occur are whole numbers, so float64 is \<open>int\<close> here.
\<close>

section \<open>The interface and its implementations\<close>

record 'w Metrics =
  ScanTxTotal :: "string \<Rightarrow> int list \<Rightarrow> ('w, unit) prog"
  ScanCallbackTotal :: "string \<Rightarrow> int list \<Rightarrow> ('w, unit) prog"

definition FakeMetrics :: "'w Metrics" where
  "FakeMetrics = \<lparr>ScanTxTotal = (\<lambda>_ _. returnP ()), ScanCallbackTotal = (\<lambda>_ _. returnP ())\<rparr>"

definition metric_value :: "int list \<Rightarrow> int" where
  "metric_value value = (if length value > 0 then value ! 0 else 1)"

definition Prometheus_ScanTxTotal ::
    "(string \<Rightarrow> string \<Rightarrow> int \<Rightarrow> ('w, unit) prog) \<Rightarrow> string \<Rightarrow> int list \<Rightarrow> ('w, unit) prog" where
  "Prometheus_ScanTxTotal add network value = add ''scan_tx_total'' network (metric_value value)"

definition Prometheus_ScanCallbackTotal ::
    "(string \<Rightarrow> string \<Rightarrow> int \<Rightarrow> ('w, unit) prog) \<Rightarrow> string \<Rightarrow> int list \<Rightarrow> ('w, unit) prog" where
  "Prometheus_ScanCallbackTotal add network value = add ''scan_callback_total'' network (metric_value value)"

definition newPrometheusMetrics :: "(string \<Rightarrow> string \<Rightarrow> int \<Rightarrow> ('w, unit) prog) \<Rightarrow> 'w Metrics" where
  "newPrometheusMetrics add =
     \<lparr>ScanTxTotal = Prometheus_ScanTxTotal add, ScanCallbackTotal = Prometheus_ScanCallbackTotal add\<rparr>"

text \<open>
  What the callers of the interface rely on: an omitted value counts as 1 and only the
  first value counts. \<open>Polling\<close> omits the value and \<open>Subscribe\<close> passes 1.
\<close>

locale metrics_sink =
  fixes m :: "'w Metrics"
  assumes tx_default: "ScanTxTotal m n [] = ScanTxTotal m n [1]"
    and tx_first: "ScanTxTotal m n (v # vs) = ScanTxTotal m n [v]"
    and cb_default: "ScanCallbackTotal m n [] = ScanCallbackTotal m n [1]"
    and cb_first: "ScanCallbackTotal m n (v # vs) = ScanCallbackTotal m n [v]"
begin

lemma tx_value: "ScanTxTotal m n vs = ScanTxTotal m n [metric_value vs]"
  using tx_default tx_first by (cases vs) (auto simp: metric_value_def)

lemma cb_value: "ScanCallbackTotal m n vs = ScanCallbackTotal m n [metric_value vs]"
  using cb_default cb_first by (cases vs) (auto simp: metric_value_def)

end

interpretation fake: metrics_sink FakeMetrics
  by unfold_locales (simp_all add: FakeMetrics_def)

interpretation prom: metrics_sink "newPrometheusMetrics add" for add
  by unfold_locales (simp_all add: newPrometheusMetrics_def Prometheus_ScanTxTotal_def
      Prometheus_ScanCallbackTotal_def metric_value_def)

section \<open>Package initialisation\<close>

datatype metrics_impl = Fake | Prometheus

datatype server_goroutine = NotStarted | Spawned | Serving | Crashed

record metrics_pkg =
  init_done :: bool
  server :: server_goroutine
  metrics_var :: "metrics_impl option"

definition metrics_pkg0 :: metrics_pkg where
  "metrics_pkg0 = \<lparr>init_done = False, server = NotStarted, metrics_var = None\<rparr>"

text \<open>
  The steps of \<open>init\<close> for a given value of \<open>enableMetrics\<close>: the main goroutine starts the
  server goroutine once, then assigns the fake metrics; the server goroutine, once started,
  assigns the Prometheus metrics at any time and then serves, and panics (ending the
  process) if the server cannot listen.
\<close>

inductive init_step :: "bool \<Rightarrow> metrics_pkg \<Rightarrow> metrics_pkg \<Rightarrow> bool" for enableMetrics where
  spawn: "enableMetrics \<Longrightarrow> \<not> init_done s \<Longrightarrow> server s = NotStarted \<Longrightarrow>
     init_step enableMetrics s (s\<lparr>server := Spawned\<rparr>)"
| assign_fake: "(enableMetrics \<longrightarrow> server s \<noteq> NotStarted) \<Longrightarrow> \<not> init_done s \<Longrightarrow>
     init_step enableMetrics s (s\<lparr>metrics_var := Some Fake, init_done := True\<rparr>)"
| assign_prometheus: "server s = Spawned \<Longrightarrow>
     init_step enableMetrics s (s\<lparr>metrics_var := Some Prometheus, server := Serving\<rparr>)"
| listen_fails: "server s = Serving \<Longrightarrow>
     init_step enableMetrics s (s\<lparr>server := Crashed\<rparr>)"

inductive_cases init_stepE: "init_step e s t"

definition NewMetrics :: "metrics_pkg \<Rightarrow> metrics_impl option" where
  "NewMetrics s = metrics_var s"

definition metrics_inv :: "bool \<Rightarrow> metrics_pkg \<Rightarrow> bool" where
  "metrics_inv enableMetrics s \<longleftrightarrow>
     (init_done s \<longrightarrow> metrics_var s \<noteq> None) \<and>
     (\<not> enableMetrics \<longrightarrow> server s = NotStarted \<and> metrics_var s \<noteq> Some Prometheus)"

lemma metrics_inv_init: "metrics_inv e metrics_pkg0"
  by (simp add: metrics_inv_def metrics_pkg0_def)

lemma metrics_inv_step: "metrics_inv e s \<Longrightarrow> init_step e s t \<Longrightarrow> metrics_inv e t"
  by (auto simp: metrics_inv_def elim!: init_stepE)

interpretation metrics_sys: step_system "\<lambda>s. s = metrics_pkg0" "init_step e" "metrics_inv e" for e
  by unfold_locales (auto intro: metrics_inv_init metrics_inv_step)

section \<open>Properties\<close>

text \<open>Both implementations of the interface treat a call without a value as a call with
  value 1 and ignore all values but the first, so the polling scanner (which omits the value)
  and the subscription scanner (which passes 1) count one transaction each.\<close>

theorem metrics_count_one:
  "ScanTxTotal (newPrometheusMetrics add) n [] = add ''scan_tx_total'' n 1 \<and>
   ScanTxTotal (newPrometheusMetrics add) n [1] = add ''scan_tx_total'' n 1 \<and>
   ScanCallbackTotal (newPrometheusMetrics add) n vs = ScanCallbackTotal (newPrometheusMetrics add) n [metric_value vs] \<and>
   ScanTxTotal FakeMetrics n vs = ScanTxTotal FakeMetrics n [1]"
proof (intro conjI)
  show "ScanTxTotal (newPrometheusMetrics add) n [1] = add ''scan_tx_total'' n 1"
    by (simp add: newPrometheusMetrics_def Prometheus_ScanTxTotal_def metric_value_def)
  then show "ScanTxTotal (newPrometheusMetrics add) n [] = add ''scan_tx_total'' n 1"
    by (simp add: prom.tx_default)
  show "ScanCallbackTotal (newPrometheusMetrics add) n vs = ScanCallbackTotal (newPrometheusMetrics add) n [metric_value vs]"
    by (rule prom.cb_value)
  show "ScanTxTotal FakeMetrics n vs = ScanTxTotal FakeMetrics n [1]"
    by (simp add: FakeMetrics_def)
qed

text \<open>After the package initialisation has returned, \<open>NewMetrics\<close> never gives nil, and it
  gives the fake metrics whenever metrics are not enabled, whatever the interleaving.\<close>

theorem NewMetrics_safe:
  assumes "(init_step e)\<^sup>*\<^sup>* metrics_pkg0 s" and "init_done s"
  shows "NewMetrics s \<noteq> None \<and> (\<not> e \<longrightarrow> NewMetrics s = Some Fake)"
proof -
  have "metrics_inv e s" using metrics_sys.inv_reachable [OF refl assms(1)] .
  with assms(2) show ?thesis
    unfolding metrics_inv_def NewMetrics_def by (metis metrics_impl.exhaust option.exhaust)
qed

theorem NewMetrics_safe_witness:
  "let s = metrics_pkg0\<lparr>metrics_var := Some Fake, init_done := True\<rparr> in
     (init_step False)\<^sup>*\<^sup>* metrics_pkg0 s \<and> init_done s \<and> NewMetrics s = Some Fake"
proof -
  let ?s = "metrics_pkg0\<lparr>metrics_var := Some Fake, init_done := True\<rparr>"
  have "init_step False metrics_pkg0 ?s"
    by (rule assign_fake) (simp_all add: metrics_pkg0_def)
  then have r: "(init_step False)\<^sup>*\<^sup>* metrics_pkg0 ?s" by blast
  show ?thesis unfolding Let_def using r NewMetrics_safe [OF r] by simp
qed

text \<open>With metrics enabled the result of the initialisation depends on the schedule: there
  is a run after which both goroutines are done and the Prometheus metrics are in use, and
  one after which they are lost for good and the fake metrics are in use.\<close>

theorem metrics_init_race:
  "\<exists>s t. (init_step True)\<^sup>*\<^sup>* metrics_pkg0 s \<and> (init_step True)\<^sup>*\<^sup>* metrics_pkg0 t \<and>
     init_done s \<and> init_done t \<and> server s = Serving \<and> server t = Serving \<and>
     NewMetrics s = Some Prometheus \<and> NewMetrics t = Some Fake"
proof -
  let ?a = "metrics_pkg0\<lparr>server := Spawned\<rparr>"
  have a: "init_step True metrics_pkg0 ?a"
    by (rule spawn) (simp_all add: metrics_pkg0_def)
  let ?b = "?a\<lparr>metrics_var := Some Fake, init_done := True\<rparr>"
  have b: "init_step True ?a ?b"
    by (rule assign_fake) (simp_all add: metrics_pkg0_def)
  let ?s = "?b\<lparr>metrics_var := Some Prometheus, server := Serving\<rparr>"
  have s: "init_step True ?b ?s"
    by (rule assign_prometheus) simp
  let ?c = "?a\<lparr>metrics_var := Some Prometheus, server := Serving\<rparr>"
  have c: "init_step True ?a ?c"
    by (rule assign_prometheus) simp
  let ?t = "?c\<lparr>metrics_var := Some Fake, init_done := True\<rparr>"
  have t: "init_step True ?c ?t"
    by (rule assign_fake) (simp_all add: metrics_pkg0_def)
  have "(init_step True)\<^sup>*\<^sup>* metrics_pkg0 ?s" by (rule three_steps [of "init_step True", OF a b s])
  moreover have "(init_step True)\<^sup>*\<^sup>* metrics_pkg0 ?t" by (rule three_steps [of "init_step True", OF a c t])
  ultimately show ?thesis by (intro exI [of _ ?s] exI [of _ ?t]) (simp add: NewMetrics_def)
qed

end
