(* ===== verification/Services.thy ===== *)
theory Services
  imports Metrics_Pkg
begin

text \<open>
  The package \<open>services\<close> (src/services/scan.go): receipts and logs, the \<open>ChainIo\<close> interface
  to the chain, the scan options with their \<open>Check\<close>, and \<open>FilterBlock\<close>, which hands one
  receipt to a callback or to the worker queue.

  The functions an application supplies (the chain interface, callbacks, middleware, the
  start-block accessors) are programs over the outside world \<open>'w\<close>; a nil function or
  interface is \<open>None\<close>. A pointer to a receipt that is never nil where it is read is the
  receipt itself. The libraries \<open>go-workers\<close>, \<open>uuid\<close>, \<open>cast\<close> and zap are the fields of
  \<open>env\<close>. Go maps are association lists with distinct keys; where the source ranges over a
  map, the list order stands for the order the runtime picks.
\<close>

section \<open>Data\<close>

record Log =
  Topics :: "string list"
  Data :: string
  Address :: string

record Receipts =
  r_BlockNumber :: string
  Logs :: "Log list"
  Status :: string
  ChainSource :: string
  GasUsed :: string
  LogsBloom :: string
  Solidity :: bool
  TransactionIndex :: string
  BlockHash :: string

record Tnx =
  Tx :: string
  BlockTimestamp :: u64
  Contract :: string

record BlockHeader =
  BlockTimeStamp :: u64
  Hash :: string

text \<open>
  \<open>ReceiptLog\<close> gives a receipt that may be nil and an error that may be nil;
  \<open>FilterTrans\<close> gives transactions, their contracts, the timestamp and the receivers.
\<close>

record 'w ChainIo =
  ReceiptLog :: "string \<Rightarrow> ('w, Receipts option \<times> error option) prog"
  BlockNumber :: "('w, u64) prog"
  FilterTrans :: "u64 \<Rightarrow> string list \<Rightarrow> ('w, string list \<times> string list \<times> u64 \<times> string list) prog"
  BlockHeaderOf :: "u64 \<Rightarrow> ('w, BlockHeader option) prog"
  GetTransactionStatus :: "string \<Rightarrow> ('w, string) prog"

text \<open>
  A callback object is known by the methods of its dynamic type; calling one gives its
  result values. Only nil, errors and other values are told apart.
\<close>

datatype cb_val = CbNil | CbErr error | CbOther

type_synonym 'w cb_object = "string \<Rightarrow> ('w, cb_val list) prog option"

record 'w ScanEventsOptions =
  ChainIo :: "'w ChainIo option"
  Chain :: string
  ContractsName :: "(string \<times> string) list"
  SleepTime :: duration
  GetCallbackFunc :: "(string \<Rightarrow> u64 \<Rightarrow> Receipts \<Rightarrow> ('w, 'w cb_object option) prog) option"
  CallbackMethodPrefix :: "string list"
  InitBlock :: u64
  RunForever :: bool
  BeforePushMiddleware :: "(string \<Rightarrow> u64 \<Rightarrow> Receipts \<Rightarrow> ('w, bool) prog) option list"
  GetStartBlock :: "('w, u64) prog option"
  SetStartBlock :: "(u64 \<Rightarrow> ('w, unit) prog) option"

record 'w FilterBlock =
  fb_ContractName :: string
  fb_Txid :: string
  fb_Receipts :: Receipts
  fb_BlockTimestamp :: u64
  fb_Callback :: "'w cb_object option"

text \<open>The payload handed to \<open>workers.Enqueue\<close>.\<close>

record task =
  t_tx :: string
  t_contract_name :: string
  t_task_id :: string
  t_block_timestamp :: u64
  t_chain :: string
  t_receipts :: Receipts

text \<open>Third-party libraries and the process environment.\<close>

record 'w env =
  Enqueue :: "string \<Rightarrow> string \<Rightarrow> task \<Rightarrow> ('w, string \<times> error option) prog"
  NewUUID :: "('w, string) prog"
  ToUint64 :: "string \<Rightarrow> u64"
  Getenv :: "string \<Rightarrow> string"
  NewZap :: "zlevel \<Rightarrow> 'w zap_logger"
  LogPkg :: "'w log_pkg"

section \<open>Options\<close>

definition Check :: "'w ScanEventsOptions \<Rightarrow> error option \<times> 'w ScanEventsOptions" where
  "Check s =
     (if ChainIo s = None then (Some ''chainIo must be not nil'', s)
      else if GetStartBlock s = None then (Some ''GetStartBlock must be not nil'', s)
      else if SetStartBlock s = None then (Some ''SetStartBlock must be not nil'', s)
      else if Chain s = [] then (Some ''chain must be not nil'', s)
      else if length (ContractsName s) = 0 then (Some ''contractsName must be not nil'', s)
      else if GetCallbackFunc s = None then (Some ''getCallbackFunc must be not nil'', s)
      else if SleepTime s = 0 then (None, s\<lparr>SleepTime := Second * 5\<rparr>)
      else (None, s))"

definition contract_name :: "'w ScanEventsOptions \<Rightarrow> string \<Rightarrow> string" where
  "contract_name s address = (case map_of (ContractsName s) address of None \<Rightarrow> [] | Some n \<Rightarrow> n)"

section \<open>FilterBlock\<close>

text \<open>
  Reflection, as far as \<open>TronSolidityProcess\<close> uses it. The static type of a variable that holds a
  callback object is an interface type, given by its methods, or the concrete type of the object.
  \<open>reflect.ValueOf(&x).Elem()\<close> is the variable \<open>x\<close> with its static type: a value of interface kind
  or the object itself. \<open>MethodByName\<close> on a value of interface kind looks into the methods of the
  interface type only. The variable \<open>ecInstant\<close> has the type of the field \<open>Callback\<close>, \<open>interface{}\<close>.
\<close>

datatype static_type = StaticInterface "string list" | StaticConcrete

definition Callback_type :: static_type where
  "Callback_type = StaticInterface []"

datatype 'w rvalue = RInterface "string list" "'w cb_object" | RConcrete "'w cb_object"

fun MethodByName :: "'w rvalue \<Rightarrow> string \<Rightarrow> ('w, cb_val list) prog option" where
  "MethodByName (RInterface methods ob) name = (if name \<in> set methods then ob name else None)"
| "MethodByName (RConcrete ob) name = ob name"

definition ValueOf_addr_Elem :: "static_type \<Rightarrow> 'w cb_object \<Rightarrow> 'w rvalue" where
  "ValueOf_addr_Elem T ecInstant = (case T of StaticInterface methods \<Rightarrow> RInterface methods ecInstant | StaticConcrete \<Rightarrow> RConcrete ecInstant)"

definition log_DPanic :: "'w env \<Rightarrow> string \<Rightarrow> ('w, unit) prog" where
  "log_DPanic env msg = bindP (outByLog (NewZap env) DPanicLevel msg (LogPkg env)) (\<lambda>_. returnP ())"

text \<open>What is done with the results of the reflected call.\<close>

definition callback_result :: "'w env \<Rightarrow> cb_val list \<Rightarrow> ('w, unit) prog" where
  "callback_result env res = (case res of
     [] \<Rightarrow> panicP ''index out of range''
   | v # _ \<Rightarrow> (case v of
       CbErr e \<Rightarrow> if \<not> EqualFold e ''tx exist'' then log_DPanic env (''Process error. '' @ e) else returnP ()
     | _ \<Rightarrow> returnP ()))"

text \<open>\<open>T\<close> is the static type of \<open>ecInstant\<close>.\<close>

definition TronSolidityProcess :: "static_type \<Rightarrow> 'w env \<Rightarrow> 'w FilterBlock \<Rightarrow> ('w, unit) prog" where
  "TronSolidityProcess T env fb = (case fb_Callback fb of
     None \<Rightarrow> returnP ()
   | Some ecInstant \<Rightarrow>
       (case MethodByName (ValueOf_addr_Elem T ecInstant) (fb_ContractName fb @ ''Callback'') of
          None \<Rightarrow> returnP ()
        | Some methodFunc \<Rightarrow> bindP methodFunc (callback_result env)))"

definition startTask :: "'w FilterBlock \<Rightarrow> string \<Rightarrow> task" where
  "startTask fb taskId = \<lparr>t_tx = fb_Txid fb, t_contract_name = fb_ContractName fb, t_task_id = taskId,
     t_block_timestamp = fb_BlockTimestamp fb, t_chain = ChainSource (fb_Receipts fb), t_receipts = fb_Receipts fb\<rparr>"

definition FilterBlock_Do :: "'w env \<Rightarrow> 'w FilterBlock \<Rightarrow> ('w, error option) prog" where
  "FilterBlock_Do env fb =
     (if \<not> Solidity (fb_Receipts fb) then bindP (TronSolidityProcess Callback_type env fb) (\<lambda>_. returnP None)
      else let queueName = ToLower (ChainSource (fb_Receipts fb)) @ ''Process'' in
        bindP (NewUUID env) (\<lambda>taskId.
        bindP (Enqueue env queueName queueName (startTask fb taskId)) (\<lambda>(_, err). returnP err)))"

text \<open>An environment in which every library call succeeds without effect, for evaluation.\<close>

definition quiet_zap :: "zlevel \<Rightarrow> 'w zap_logger" where
  "quiet_zap level = \<lparr>sugarf = (\<lambda>_ _. returnP ()), core_enabled = (\<lambda>l. level \<le> l)\<rparr>"

definition quiet_env :: "'w env" where
  "quiet_env = \<lparr>Enqueue = (\<lambda>_ _ _. returnP ([], None)), NewUUID = returnP ''id'', ToUint64 = (\<lambda>_. 1),
     Getenv = (\<lambda>_. []), NewZap = quiet_zap, LogPkg = log_init quiet_zap (\<lambda>_. [])\<rparr>"

definition receipt1 :: Receipts where
  "receipt1 = \<lparr>r_BlockNumber = ''1'', Logs = [\<lparr>Topics = [''awD''], Data = ''111'', Address = ''222''\<rparr>],
     Status = ''0x01'', ChainSource = ''Crab'', GasUsed = [], LogsBloom = [], Solidity = False,
     TransactionIndex = [], BlockHash = ''1''\<rparr>"

text \<open>The mock chain and the options of the repository's own test (src/scan_test.go).\<close>

definition MockChainIo :: "'w ChainIo" where
  "MockChainIo =
     \<lparr>ReceiptLog = (\<lambda>_. returnP (Some receipt1, None)),
      BlockNumber = returnP 10,
      FilterTrans = (\<lambda>blockNum _. if blockNum \<ge> 1 then returnP ([''1''], [''222''], 123456789, [''222''])
                                  else returnP ([], [], 0, [])),
      BlockHeaderOf = (\<lambda>_. returnP (Some \<lparr>BlockTimeStamp = 123456789, Hash = ''1''\<rparr>)),
      GetTransactionStatus = (\<lambda>_. returnP ''0x01'')\<rparr>"

definition test_options :: "'w ScanEventsOptions" where
  "test_options =
     \<lparr>ChainIo = Some MockChainIo, Chain = ''Crab'', ContractsName = [(''222'', ''fake'')], SleepTime = 0,
      GetCallbackFunc = Some (\<lambda>_ _ _. returnP (Some (\<lambda>name.
        if name = ''FakeCallback'' then Some (returnP [CbNil]) else None))),
      CallbackMethodPrefix = [''Fake''], InitBlock = 1, RunForever = False, BeforePushMiddleware = [],
      GetStartBlock = Some (returnP 1), SetStartBlock = Some (\<lambda>_. returnP ())\<rparr>"

section \<open>Lemmas\<close>

lemma FilterBlock_Do_nop: "\<not> Solidity (fb_Receipts fb) \<Longrightarrow> FilterBlock_Do env fb = returnP None"
  by (simp add: FilterBlock_Do_def TronSolidityProcess_def ValueOf_addr_Elem_def Callback_type_def split: option.splits)

text \<open>What the process does if the static type of the variable shows the method.\<close>

lemma TronSolidityProcess_visible:
  assumes "fb_Callback fb = Some ob" and "T = StaticConcrete \<or> (\<exists>methods. T = StaticInterface methods \<and> fb_ContractName fb @ ''Callback'' \<in> set methods)"
    and "ob (fb_ContractName fb @ ''Callback'') = Some methodFunc" and "methodFunc w = (Ret (v # vs), w1)"
  shows "TronSolidityProcess T env fb w =
    (if \<exists>e. v = CbErr e \<and> \<not> EqualFold e ''tx exist'' then log_DPanic env (''Process error. '' @ (case v of CbErr e \<Rightarrow> e | _ \<Rightarrow> [])) w1
     else (Ret (), w1))"
  using assms by (auto simp: TronSolidityProcess_def ValueOf_addr_Elem_def callback_result_def run_simps split: cb_val.splits)

section \<open>Properties\<close>

text \<open>\<open>Check\<close> accepts options exactly if the chain interface, both start-block accessors,
  the chain name, a contract and the callback factory are present; accepting changes nothing
  but a zero sleep time, which becomes five seconds, and rejecting changes nothing.\<close>

theorem Check_spec:
  "(fst (Check s) = None \<longleftrightarrow>
      ChainIo s \<noteq> None \<and> GetStartBlock s \<noteq> None \<and> SetStartBlock s \<noteq> None \<and> Chain s \<noteq> [] \<and>
      ContractsName s \<noteq> [] \<and> GetCallbackFunc s \<noteq> None) \<and>
   snd (Check s) = (if fst (Check s) = None \<and> SleepTime s = 0 then s\<lparr>SleepTime := 5000000000\<rparr> else s)"
  by (auto simp: Check_def Second_def)

text \<open>A receipt with \<open>Solidity\<close> set is handed to the queue named after the lower-case chain
  source, once, with a fresh task id, and the queue's error is what \<open>Do\<close> returns.\<close>

theorem FilterBlock_Do_enqueues:
  assumes "Solidity (fb_Receipts fb)" and "NewUUID env w = (Ret uid, w1)"
    and "Enqueue env (ToLower (ChainSource (fb_Receipts fb)) @ ''Process'')
           (ToLower (ChainSource (fb_Receipts fb)) @ ''Process'')
           \<lparr>t_tx = fb_Txid fb, t_contract_name = fb_ContractName fb, t_task_id = uid,
            t_block_timestamp = fb_BlockTimestamp fb, t_chain = ChainSource (fb_Receipts fb),
            t_receipts = fb_Receipts fb\<rparr> w1 = (Ret (jid, err), w2)"
  shows "FilterBlock_Do env fb w = (Ret err, w2)"
  using assms by (simp add: FilterBlock_Do_def startTask_def run_simps Let_def)

theorem FilterBlock_Do_enqueues_witness:
  "let env = quiet_env\<lparr>Enqueue := (\<lambda>q c t ts. (Ret ([], None), ts @ [(q, t)]))\<rparr>;
       r = receipt1\<lparr>Solidity := True\<rparr>;
       fb = \<lparr>fb_ContractName = ''Fake'', fb_Txid = ''1'', fb_Receipts = r, fb_BlockTimestamp = 7,
             fb_Callback = None\<rparr>
   in Solidity (fb_Receipts fb) \<and>
      FilterBlock_Do env fb [] = (Ret None, [(''crabProcess'',
        \<lparr>t_tx = ''1'', t_contract_name = ''Fake'', t_task_id = ''id'', t_block_timestamp = 7,
         t_chain = ''Crab'', t_receipts = r\<rparr>)])"
proof -
  have q: "ToLower ''Crab'' @ ''Process'' = ''crabProcess''" by code_simp
  show ?thesis
    unfolding Let_def
    by (intro conjI FilterBlock_Do_enqueues) (simp_all add: quiet_env_def receipt1_def returnP_def q)
qed

end
