(* ===== verification/Polling_Scan.thy ===== *)
theory Polling_Scan
  imports Services
begin

text \<open>
  The polling scanner (src/scan/scan.go): middleware, the distribution of a receipt's logs to
  callbacks, and \<open>WipeBlock\<close> with its two goroutines, the producer that walks the blocks and
  the consumer that handles transactions, joined by the package's channel \<open>newTxn\<close> of
  capacity 1000. The two goroutines are a step relation with one rule per atomic action; log
  messages other than DPanic are left out, as they change no state of the scanner.
\<close>

section \<open>Distribution of a receipt\<close>

record 'w Polling =
  Opt :: "'w ScanEventsOptions"
  metrics :: "'w Metrics option"

definition SetMetrics :: "'w Metrics option \<Rightarrow> 'w Polling \<Rightarrow> 'w Polling" where
  "SetMetrics m p = p\<lparr>metrics := m\<rparr>"

fun run_middleware :: "(string \<Rightarrow> u64 \<Rightarrow> Receipts \<Rightarrow> ('w, bool) prog) option list \<Rightarrow>
    string \<Rightarrow> u64 \<Rightarrow> Receipts \<Rightarrow> ('w, bool) prog" where
  "run_middleware [] tx ts receipt = returnP True"
| "run_middleware (None # vs) tx ts receipt = run_middleware vs tx ts receipt"
| "run_middleware (Some v # vs) tx ts receipt =
     bindP (v tx ts receipt) (\<lambda>ok. if \<not> ok then returnP False else run_middleware vs tx ts receipt)"

definition RunBeforePushMiddleware :: "'w Polling \<Rightarrow> string \<Rightarrow> u64 \<Rightarrow> Receipts \<Rightarrow> ('w, bool) prog" where
  "RunBeforePushMiddleware p = run_middleware (BeforePushMiddleware (Opt p))"

definition log_key :: "Log \<Rightarrow> string" where
  "log_key v = ToLower (Address v) @ ''_'' @ Data v @ ''_'' @ concat (Topics v)"

text \<open>The first loop of \<open>ReceiptDistribution\<close>: the logs kept and the keys seen.\<close>

fun unique_logs :: "string set \<Rightarrow> Log list \<Rightarrow> Log list \<times> string set" where
  "unique_logs exist [] = ([], exist)"
| "unique_logs exist (v # vs) =
     (let key = log_key v in
      if key \<in> exist then unique_logs exist vs
      else let (logs, exist') = unique_logs (insert key exist) vs in (v # logs, exist'))"

text \<open>The innermost loop: the first prefix equal to the contract name up to case, and its call.\<close>

definition dispatch :: "'w env \<Rightarrow> 'w Polling \<Rightarrow> 'w FilterBlock \<Rightarrow> string \<Rightarrow> ('w, unit) prog" where
  "dispatch env p fb v =
     callP (metrics p) (\<lambda>m.
     bindP (ScanCallbackTotal m v []) (\<lambda>_.
     bindP (FilterBlock_Do env (fb\<lparr>fb_ContractName := v\<rparr>)) (\<lambda>_. returnP ())))"

definition matching_prefix :: "'w ScanEventsOptions \<Rightarrow> string \<Rightarrow> string option" where
  "matching_prefix opt eventAddress =
     (if contract_name opt eventAddress \<noteq> []
      then let contractName = ToLower (contract_name opt eventAddress)
           in find (\<lambda>v. EqualFold v contractName) (CallbackMethodPrefix opt)
      else None)"

text \<open>The second loop; \<open>exist\<close> is the map the first loop has filled with log keys.\<close>

fun distribute :: "'w env \<Rightarrow> 'w Polling \<Rightarrow> 'w FilterBlock \<Rightarrow> string set \<Rightarrow> Log list \<Rightarrow> ('w, unit) prog" where
  "distribute env p fb exist [] = returnP ()"
| "distribute env p fb exist (l # ls) =
     (let eventAddress = ToLower (Address l) in
      if eventAddress \<in> exist then distribute env p fb exist ls
      else bindP (case matching_prefix (Opt p) eventAddress of
              None \<Rightarrow> returnP ()
            | Some v \<Rightarrow> dispatch env p fb v)
          (\<lambda>_. distribute env p fb (insert eventAddress exist) ls))"

text \<open>The result is the receipt, which the source updates through its pointer; the error is nil.\<close>

definition ReceiptDistribution :: "'w env \<Rightarrow> 'w Polling \<Rightarrow> string \<Rightarrow> u64 \<Rightarrow> Receipts \<Rightarrow> ('w, Receipts) prog" where
  "ReceiptDistribution env p tx ts receipt =
     (let (logs, exist) = unique_logs {} (Logs receipt) in
      if length (Logs receipt) < 1 then returnP receipt
      else let receipt' = receipt\<lparr>Logs := logs\<rparr> in
        callP (GetCallbackFunc (Opt p)) (\<lambda>getCallback.
        bindP (getCallback tx ts receipt') (\<lambda>callback.
        let fb = \<lparr>fb_ContractName = [], fb_Txid = tx, fb_Receipts = receipt', fb_BlockTimestamp = ts,
                  fb_Callback = callback\<rparr>
        in bindP (distribute env p fb exist logs) (\<lambda>_. returnP receipt'))))"

text \<open>\<open>Init\<close> stores the options it is given and checks its own copy.\<close>

definition Polling_Init :: "'w ScanEventsOptions \<Rightarrow> 'w Polling \<Rightarrow> error option \<times> 'w Polling" where
  "Polling_Init opt p = (fst (Check opt), p\<lparr>Opt := opt\<rparr>)"

section \<open>The consumer\<close>

datatype txn_result = Failed | Requeue | Rejected | Distributed

text \<open>One round of the consumer's loop body for a received transaction.\<close>

definition handle_txn :: "'w env \<Rightarrow> 'w Polling \<Rightarrow> Tnx \<Rightarrow> ('w, txn_result) prog" where
  "handle_txn env p txn =
     callP (ChainIo (Opt p)) (\<lambda>io.
     bindP (GetTransactionStatus io (Tx txn)) (\<lambda>status.
     if status = ''Fail'' then returnP Failed
     else bindP (ReceiptLog io (Tx txn)) (\<lambda>(receipt, _).
       case receipt of
         None \<Rightarrow> returnP Requeue
       | Some r \<Rightarrow>
           if length (Logs r) = 0 then returnP Requeue
           else callP (metrics p) (\<lambda>m.
             bindP (ScanTxTotal m (Chain (Opt p)) []) (\<lambda>_.
             bindP (RunBeforePushMiddleware p (Tx txn) (BlockTimestamp txn) r) (\<lambda>ok.
             if ok then
               bindP (ReceiptDistribution env p (Tx txn) (BlockTimestamp txn) r) (\<lambda>r'.
               callP (SetStartBlock (Opt p)) (\<lambda>set_start.
               bindP (set_start (ToUint64 env (r_BlockNumber r'))) (\<lambda>_. returnP Distributed)))
             else returnP Rejected))))))"

section \<open>Distribution: specification and lemmas\<close>

text \<open>
  The names under which the callbacks of a receipt are dispatched, as a function of its
  logs: one per distinct event address, in the order of their first log, that is a key of
  the contract table and whose contract name equals a callback prefix up to case.
\<close>

definition dispatched :: "'w ScanEventsOptions \<Rightarrow> Log list \<Rightarrow> string list" where
  "dispatched opt logs =
     List.map_filter (\<lambda>l. matching_prefix opt (ToLower (Address l)))
       (keep_first (\<lambda>l. ToLower (Address l)) {} logs)"

text \<open>What separates the fields of a log key: no underscore in address or data, 32-byte topics.\<close>

definition wf_log :: "Log \<Rightarrow> bool" where
  "wf_log l \<longleftrightarrow> CHR ''_'' \<notin> set (Address l) \<and> CHR ''_'' \<notin> set (Data l) \<and> (\<forall>t \<in> set (Topics l). length t = 66)"

lemma unique_logs_eq: "unique_logs exist ls = (keep_first log_key exist ls, exist \<union> log_key ` set ls)"
  by (induction ls arbitrary: exist) (auto simp: Let_def)

lemma underscore_log_key: "CHR ''_'' \<in> set (log_key l)"
  by (simp add: log_key_def)

lemma log_key_inj:
  assumes "wf_log l" "wf_log l'" "log_key l = log_key l'"
  shows "ToLower (Address l) = ToLower (Address l') \<and> Data l = Data l' \<and> Topics l = Topics l'"
proof -
  have a: "ToLower (Address l) = ToLower (Address l')"
    and r: "Data l @ CHR ''_'' # concat (Topics l) = Data l' @ CHR ''_'' # concat (Topics l')"
    using separator_split [of "CHR ''_''" "ToLower (Address l)" "ToLower (Address l')"] assms
    by (auto simp: log_key_def wf_log_def)
  have "Data l = Data l'" and "concat (Topics l) = concat (Topics l')"
    using separator_split [OF _ _ r] assms(1,2) by (auto simp: wf_log_def)
  moreover have "Topics l = Topics l'"
    using concat_blocks_inj [of "Topics l" 66 "Topics l'"] assms(1,2) calculation(2)
    by (simp add: wf_log_def)
  ultimately show ?thesis using a by simp
qed

lemma log_key_address:
  assumes "CHR ''_'' \<notin> set (Address l)" "CHR ''_'' \<notin> set (Address l')" "log_key l = log_key l'"
  shows "ToLower (Address l) = ToLower (Address l')"
  using separator_split [of "CHR ''_''" "ToLower (Address l)" "ToLower (Address l')"] assms
  by (auto simp: log_key_def)

lemma distribute_eq:
  "distribute env p fb exist ls =
     seqP (map (dispatch env p fb) (List.map_filter (\<lambda>l. matching_prefix (Opt p) (ToLower (Address l)))
       (keep_first (\<lambda>l. ToLower (Address l)) exist ls)))"
proof (induction ls arbitrary: exist)
  case Nil
  then show ?case by (simp add: map_filter_simps)
next
  case (Cons l ls)
  then show ?case by (auto simp: Let_def map_filter_simps split: option.splits)
qed

lemma distribute_dispatched:
  assumes "\<forall>l \<in> set ls. CHR ''_'' \<notin> set (Address l)"
  shows "distribute env p fb (log_key ` set ls) (keep_first log_key {} ls) =
         seqP (map (dispatch env p fb) (dispatched (Opt p) ls))"
proof -
  let ?a = "\<lambda>l. ToLower (Address l)"
  have "keep_first ?a (log_key ` set ls) (keep_first log_key {} ls) = keep_first ?a {} (keep_first log_key {} ls)"
  proof (rule keep_first_seen_cong, rule ballI)
    fix x assume "x \<in> set (keep_first log_key {} ls)"
    then have "x \<in> set ls" by (meson keep_first_subset subsetD)
    then have "CHR ''_'' \<notin> set (?a x)" using assms by simp
    then have "?a x \<notin> log_key ` set ls" using underscore_log_key by (metis imageE)
    then show "(?a x \<in> log_key ` set ls) = (?a x \<in> {})" by simp
  qed
  also have "\<dots> = keep_first ?a {} ls"
    by (rule keep_first_keep_first) (use assms log_key_address in blast)+
  finally show ?thesis by (simp add: distribute_eq dispatched_def)
qed

lemma ReceiptDistribution_eq:
  assumes "Logs r \<noteq> []" and "GetCallbackFunc (Opt p) = Some g"
    and "\<forall>l \<in> set (Logs r). CHR ''_'' \<notin> set (Address l)"
  shows "ReceiptDistribution env p tx ts r =
    (let r' = r\<lparr>Logs := keep_first log_key {} (Logs r)\<rparr> in
     bindP (g tx ts r') (\<lambda>cb.
     bindP (seqP (map (dispatch env p \<lparr>fb_ContractName = [], fb_Txid = tx, fb_Receipts = r',
                         fb_BlockTimestamp = ts, fb_Callback = cb\<rparr>) (dispatched (Opt p) (Logs r))))
       (\<lambda>_. returnP r')))"
  using assms
  by (simp add: ReceiptDistribution_def unique_logs_eq Let_def distribute_dispatched [OF assms(3)])

lemma run_middleware_all:
  "\<forall>v \<in> set vs. v = None \<or> (\<exists>f. v = Some f \<and> f tx ts r = returnP True) \<Longrightarrow>
   run_middleware vs tx ts r = returnP True"
  by (induction vs) auto

lemma run_middleware_append:
  "run_middleware (us @ vs) tx ts r =
   bindP (run_middleware us tx ts r) (\<lambda>ok. if \<not> ok then returnP False else run_middleware vs tx ts r)"
proof (induction us)
  case Nil
  then show ?case by simp
next
  case (Cons u us)
  show ?case
  proof (cases u)
    case None
    with Cons show ?thesis by simp
  next
    case (Some f)
    have "(\<lambda>ok. if \<not> ok then returnP False
             else bindP (run_middleware us tx ts r) (\<lambda>ok. if \<not> ok then returnP False else run_middleware vs tx ts r)) =
          (\<lambda>ok. bindP (if \<not> ok then returnP False else run_middleware us tx ts r)
             (\<lambda>ok. if \<not> ok then returnP False else run_middleware vs tx ts r))"
      by (rule ext) simp
    with Cons Some show ?thesis by (simp add: bindP_assoc cong: if_cong)
  qed
qed

section \<open>Properties of the distribution\<close>

text \<open>C3. \<open>ReceiptDistribution\<close> of a receipt with logs implements its specification: the logs are
  reduced to the first log of each key, the callback object is made once for the reduced
  receipt, and then exactly the callbacks named by \<open>dispatched\<close> run, once per distinct
  contract address and in the order of first occurrence. Addresses contain no underscore.\<close>

theorem ReceiptDistribution_refines:
  assumes "Logs r \<noteq> []" and "GetCallbackFunc (Opt p) = Some g"
    and "\<forall>l \<in> set (Logs r). CHR ''_'' \<notin> set (Address l)"
  shows "ReceiptDistribution env p tx ts r =
    (let r' = r\<lparr>Logs := keep_first log_key {} (Logs r)\<rparr> in
     bindP (g tx ts r') (\<lambda>cb.
     bindP (seqP (map (dispatch env p \<lparr>fb_ContractName = [], fb_Txid = tx, fb_Receipts = r',
                         fb_BlockTimestamp = ts, fb_Callback = cb\<rparr>) (dispatched (Opt p) (Logs r))))
       (\<lambda>_. returnP r')))"
  by (rule ReceiptDistribution_eq [OF assms])

theorem ReceiptDistribution_refines_witness:
  "let p = \<lparr>Opt = test_options, metrics = Some (FakeMetrics :: nat Metrics)\<rparr> in
     Logs receipt1 \<noteq> [] \<and> (\<exists>g. GetCallbackFunc (Opt p) = Some g) \<and>
     (\<forall>l \<in> set (Logs receipt1). CHR ''_'' \<notin> set (Address l)) \<and>
     dispatched (Opt p) (Logs receipt1) = [''Fake''] \<and>
     ReceiptDistribution quiet_env p ''1'' 7 receipt1 3 = (Ret receipt1, 3)"
proof -
  let ?p = "\<lparr>Opt = test_options, metrics = Some (FakeMetrics :: nat Metrics)\<rparr>"
  have l: "Logs receipt1 \<noteq> []" "\<forall>l \<in> set (Logs receipt1). CHR ''_'' \<notin> set (Address l)"
    by (simp_all add: receipt1_def)
  define g where "g = the (GetCallbackFunc (Opt ?p))"
  then have g: "GetCallbackFunc (Opt ?p) = Some g" by (simp add: test_options_def)
  have g1: "g a b c = returnP (Some (\<lambda>name. if name = ''FakeCallback'' then Some (returnP [CbNil]) else None))" for a b c
    by (simp add: g_def test_options_def)
  have low: "ToLower ''222'' = ''222''" "EqualFold ''Fake'' (ToLower ''fake'')" by code_simp+
  have d: "dispatched (Opt ?p) (Logs receipt1) = [''Fake'']"
    using low by (simp add: dispatched_def receipt1_def test_options_def matching_prefix_def
        contract_name_def map_filter_simps)
  have k: "receipt1\<lparr>Logs := keep_first log_key {} (Logs receipt1)\<rparr> = receipt1"
    by (simp add: receipt1_def)
  have "ReceiptDistribution quiet_env ?p ''1'' 7 receipt1 3 = (Ret receipt1, 3)"
    unfolding ReceiptDistribution_refines [OF l(1) g l(2)] d Let_def k g1
    by (simp add: dispatch_def FakeMetrics_def FilterBlock_Do_nop
        receipt1_def run_simps)
  with l g d show ?thesis by (auto simp: Let_def)
qed

text \<open>C33. For a receipt with \<open>Solidity\<close> unset the callback object of the application is never used:
  \<open>ReceiptDistribution\<close> behaves, with all its effects on the world, as if \<open>GetCallbackFunc\<close> had given
  nil. The reason is the static type \<open>interface{}\<close> of the reflected variable: were its type one that shows
  the method \<open><contract>Callback\<close>, the same code would call this method of the object, and log an error it
  gives unless it is "tx exist".\<close>

theorem callback_never_invoked:
  assumes "\<not> Solidity r" and "GetCallbackFunc (Opt p) = Some g"
  shows "ReceiptDistribution env p tx ts r =
      ReceiptDistribution env (p\<lparr>Opt := (Opt p)\<lparr>GetCallbackFunc := Some (\<lambda>tx ts r. bindP (g tx ts r) (\<lambda>_. returnP None))\<rparr>\<rparr>) tx ts r \<and>
    (\<forall>fb ob methods call w v vs w1. fb_Callback fb = Some ob \<longrightarrow> fb_ContractName fb @ ''Callback'' \<in> set methods \<longrightarrow>
       ob (fb_ContractName fb @ ''Callback'') = Some call \<longrightarrow> call w = (Ret (v # vs), w1) \<longrightarrow>
       TronSolidityProcess (StaticInterface methods) env fb w =
         (if \<exists>e. v = CbErr e \<and> \<not> EqualFold e ''tx exist'' then log_DPanic env (''Process error. '' @ (case v of CbErr e \<Rightarrow> e | _ \<Rightarrow> [])) w1
          else (Ret (), w1)))"
proof (intro conjI allI impI)
  let ?p = "p\<lparr>Opt := (Opt p)\<lparr>GetCallbackFunc := Some (\<lambda>tx ts r. bindP (g tx ts r) (\<lambda>_. returnP None))\<rparr>\<rparr>"
  have d: "dispatch env p fb = dispatch env ?p (fb\<lparr>fb_Callback := None\<rparr>)" if "\<not> Solidity (fb_Receipts fb)" for fb
    using that by (simp add: dispatch_def FilterBlock_Do_nop fun_eq_iff)
  have "matching_prefix (Opt ?p) = matching_prefix (Opt p)" by (simp add: matching_prefix_def contract_name_def fun_eq_iff)
  then have "distribute env p fb exist ls = distribute env ?p (fb\<lparr>fb_Callback := None\<rparr>) exist ls" if "\<not> Solidity (fb_Receipts fb)" for fb exist ls
    unfolding distribute_eq d [OF that] by simp
  with assms show "ReceiptDistribution env p tx ts r = ReceiptDistribution env ?p tx ts r"
    by (simp add: ReceiptDistribution_def Let_def bindP_assoc split: prod.splits)
qed (rule TronSolidityProcess_visible, assumption, blast, assumption, assumption)

theorem callback_never_invoked_witness:
  "let g = (\<lambda>_ _ _. returnP (Some (\<lambda>name. if name = ''FakeCallback'' then Some (\<lambda>n::nat. (Ret [CbNil], Suc n)) else None)));
       p = \<lparr>Opt = test_options\<lparr>GetCallbackFunc := Some g\<rparr>, metrics = Some FakeMetrics\<rparr> in
   \<not> Solidity receipt1 \<and> dispatched (Opt p) (Logs receipt1) = [''Fake''] \<and> snd (ReceiptDistribution quiet_env p ''1'' 7 receipt1 3) = 3"
proof -
  let ?g = "\<lambda>_ _ _. returnP (Some (\<lambda>name. if name = ''FakeCallback'' then Some (\<lambda>n::nat. (Ret [CbNil], Suc n)) else None))"
  let ?p = "\<lparr>Opt = test_options\<lparr>GetCallbackFunc := Some ?g\<rparr>, metrics = Some FakeMetrics\<rparr>"
  let ?q = "?p\<lparr>Opt := (Opt ?p)\<lparr>GetCallbackFunc := Some (\<lambda>tx ts r. bindP (?g tx ts r) (\<lambda>_. returnP None))\<rparr>\<rparr>"
  have s: "\<not> Solidity receipt1" by (simp add: receipt1_def)
  have d: "dispatched (Opt ?p) (Logs receipt1) = [''Fake'']" by code_simp
  have "snd (ReceiptDistribution quiet_env ?q ''1'' 7 receipt1 3) = 3" by code_simp
  then show ?thesis using callback_never_invoked [of receipt1 ?p ?g quiet_env "''1''" 7] s d by (simp add: Let_def)
qed

text \<open>Deduplication is exact: for logs whose address and data contain no underscore and whose
  topics are 32-byte hex strings, the logs kept are pairwise different in address (up to
  case), data or topics, every original log agrees with a kept one in all three, and every
  kept log is an original one.\<close>

theorem log_deduplication:
  assumes "\<forall>l \<in> set ls. wf_log l"
  shows "let kept = fst (unique_logs {} ls); view = (\<lambda>l. (ToLower (Address l), Data l, Topics l)) in
    set kept \<subseteq> set ls \<and> distinct (map view kept) \<and> view ` set kept = view ` set ls"
proof -
  let ?kept = "keep_first log_key {} ls"
  let ?view = "\<lambda>l. (ToLower (Address l), Data l, Topics l)"
  have sub: "set ?kept \<subseteq> set ls" by (rule keep_first_subset)
  have d: "distinct (map log_key ?kept)" by (rule keep_first_distinct)
  have key: "log_key l = log_key l'" if "?view l = ?view l'" for l l'
    using that by (simp add: log_key_def)
  have ik: "inj_on log_key (set ?kept)" and "distinct ?kept" using d by (simp_all add: distinct_map)
  have "inj_on ?view (set ?kept)"
  proof (rule inj_onI)
    fix x y assume xy: "x \<in> set ?kept" "y \<in> set ?kept" and "?view x = ?view y"
    then have "log_key x = log_key y" by (intro key)
    then show "x = y" by (rule inj_onD [OF ik _ xy])
  qed
  with \<open>distinct ?kept\<close> have dv: "distinct (map ?view ?kept)" by (simp add: distinct_map)
  have "?view l \<in> ?view ` set ?kept" if "l \<in> set ls" for l
  proof -
    have "log_key l \<in> log_key ` set ?kept" using that keep_first_keys [of log_key "{}" ls] by auto
    then obtain l' where l': "l' \<in> set ?kept" "log_key l = log_key l'" by blast
    then have "wf_log l" "wf_log l'" using assms that sub by blast+
    then have "?view l = ?view l'" using log_key_inj [of l l'] l'(2) by simp
    with l'(1) show ?thesis by (rule rev_image_eqI)
  qed
  then have "?view ` set ls = ?view ` set ?kept" using sub by blast
  with sub dv show ?thesis by (simp add: unique_logs_eq Let_def)
qed

theorem log_deduplication_witness:
  "let t = replicate 66 (CHR ''0''); a = \<lparr>Topics = [t], Data = ''0x1'', Address = ''0xAB''\<rparr>;
       b = \<lparr>Topics = [t], Data = ''0x1'', Address = ''0xab''\<rparr>; c = \<lparr>Topics = [], Data = ''0x1'', Address = ''0xab''\<rparr>;
       kept = fst (unique_logs {} [a, b, c])
   in (\<forall>l \<in> set [a, b, c]. wf_log l) \<and> kept = [a, c] \<and>
      (\<lambda>l. (ToLower (Address l), Data l, Topics l)) ` set kept =
      (\<lambda>l. (ToLower (Address l), Data l, Topics l)) ` set [a, b, c]"
proof -
  let ?t = "replicate 66 (CHR ''0'')"
  let ?a = "\<lparr>Topics = [?t], Data = ''0x1'', Address = ''0xAB''\<rparr>"
  let ?b = "\<lparr>Topics = [?t], Data = ''0x1'', Address = ''0xab''\<rparr>"
  let ?c = "\<lparr>Topics = [], Data = ''0x1'', Address = ''0xab''\<rparr>"
  have w: "\<forall>l \<in> set [?a, ?b, ?c]. wf_log l" by (simp add: wf_log_def)
  have low: "ToLower ''0xAB'' = ''0xab''" "ToLower ''0xab'' = ''0xab''" by code_simp+
  have k: "fst (unique_logs {} [?a, ?b, ?c]) = [?a, ?c]"
    by (simp add: log_key_def low Let_def numeral_eq_Suc)
  show ?thesis unfolding Let_def using w k log_deduplication [OF w] unfolding Let_def by blast
qed

text \<open>A contract table whose addresses are written with capital letters (as in the mixed-case
  checksum form) dispatches nothing: logs are looked up under their lower-case address only.\<close>

theorem mixed_case_table_dispatches_nothing:
  assumes "\<forall>(a, n) \<in> set (ContractsName opt). ToLower a \<noteq> a"
  shows "dispatched opt logs = []"
proof -
  have "contract_name opt (ToLower a) = []" for a
  proof (cases "map_of (ContractsName opt) (ToLower a)")
    case (Some n)
    then have "(ToLower a, n) \<in> set (ContractsName opt)" by (rule map_of_SomeD)
    with assms have False by fastforce
    then show ?thesis ..
  qed (simp add: contract_name_def)
  then show ?thesis by (simp add: dispatched_def matching_prefix_def List.map_filter_def)
qed

theorem mixed_case_table_dispatches_nothing_witness:
  "let opt = test_options\<lparr>ContractsName := [(''0x7cD4'', ''fake'')]\<rparr> in
     (\<forall>(a, n) \<in> set (ContractsName opt). ToLower a \<noteq> a) \<and>
     dispatched opt [\<lparr>Topics = [], Data = [], Address = ''0x7cD4''\<rparr>] = []"
proof -
  have "ToLower ''0x7cD4'' \<noteq> ''0x7cD4''" by code_simp
  then have h: "\<forall>(a, n) \<in> set (ContractsName (test_options\<lparr>ContractsName := [(''0x7cD4'', ''fake'')]\<rparr>)). ToLower a \<noteq> a"
    by simp
  show ?thesis unfolding Let_def using h mixed_case_table_dispatches_nothing [OF h] by blast
qed

text \<open>The middleware is a short-circuit conjunction: nil entries are skipped, the others run in
  order, the first one that answers false ends the run with false and none after it is
  called, and the answer is true if all accept.\<close>

theorem middleware_short_circuit:
  "run_middleware (us @ Some f # vs) tx ts r w =
     (case run_middleware us tx ts r w of
        (Ret True, w1) \<Rightarrow> (case f tx ts r w1 of
            (Ret True, w2) \<Rightarrow> run_middleware vs tx ts r w2
          | other \<Rightarrow> other)
      | other \<Rightarrow> other) \<and>
   run_middleware (us @ None # vs) tx ts r = run_middleware (us @ vs) tx ts r \<and>
   run_middleware [] tx ts r = returnP True"
  by (auto simp: run_middleware_append bindP_def run_simps cong: if_cong split: prod.splits outcome.splits bool.splits)

end
