(* ===== verification/Polling_Wipe.thy ===== *)
theory Polling_Wipe
  imports Polling_Scan
begin

text \<open>
  \<open>Polling.WipeBlock\<close> (src/scan/scan.go) as a step relation. The producer is the method's own
  goroutine, the consumer the one it starts; they share the channel \<open>newTxn\<close>. The control
  points are the places where a goroutine can be suspended: the top of the producer's loop,
  the head of its block loop, each send; the consumer's select and its own send. Calls into
  the chain interface and the application run to completion within a step, on the world. A
  panic in the consumer ends the process (it has no recover), one in the producer unwinds
  into the caller. The field \<open>history\<close> records what the goroutines have done; no step reads it.
\<close>

section \<open>State and steps\<close>

definition newTxn_cap :: nat where
  "newTxn_cap = 1000"

datatype consumer_pc = CSelect | CResend Tnx | CStopped

text \<open>
  \<open>PBlock i n\<close> is the head of the loop over the blocks up to \<open>n\<close>; \<open>PSend ts i n\<close> has the
  transactions of block \<open>i\<close> left to send, \<open>None\<close> standing for an index beyond \<open>contracts\<close>.
\<close>

datatype producer_pc = PTop | PBlock u64 u64 | PSend "Tnx option list" u64 u64 | PReturned | PUnwinding string

datatype scan_event = Filtered u64 | Sent Tnx | Finished Tnx txn_result | Requeued Tnx

record 'w scan_state =
  newTxn :: "Tnx list"
  consumer :: consumer_pc
  producer :: producer_pc
  currentBlockNum :: u64
  ctxDone :: bool
  alive :: bool
  world :: 'w
  history :: "scan_event list"

definition scan_init :: "'w \<Rightarrow> 'w scan_state" where
  "scan_init w = \<lparr>newTxn = [], consumer = CSelect, producer = PTop, currentBlockNum = 0, ctxDone = False,
     alive = True, world = w, history = []\<rparr>"

definition filterContracts :: "'w Polling \<Rightarrow> string list" where
  "filterContracts p = map fst (ContractsName (Opt p))"

text \<open>
  The head of the loop: \<open>None\<close> when the chain's height is 0, else the block to continue from
  and the height.
\<close>

definition poll :: "'w Polling \<Rightarrow> u64 \<Rightarrow> ('w, (u64 \<times> u64) option) prog" where
  "poll p current =
     callP (ChainIo (Opt p)) (\<lambda>io.
     bindP (BlockNumber io) (\<lambda>chainCurrentBlockNum.
     if chainCurrentBlockNum = 0 then returnP None
     else bindP (if current \<le> 0 then callP (GetStartBlock (Opt p)) (\<lambda>get. get) else returnP current) (\<lambda>current1.
       returnP (Some (if current1 \<le> 0 then InitBlock (Opt p) else current1, chainCurrentBlockNum)))))"

definition filter_block :: "'w Polling \<Rightarrow> u64 \<Rightarrow> ('w, string list \<times> string list \<times> u64 \<times> string list) prog" where
  "filter_block p i = callP (ChainIo (Opt p)) (\<lambda>io. FilterTrans io i (filterContracts p))"

definition block_sends :: "string list \<Rightarrow> string list \<Rightarrow> u64 \<Rightarrow> Tnx option list" where
  "block_sends txIDs contracts ts =
     map (\<lambda>(index, txID). if index < length contracts
            then Some \<lparr>Tx = txID, BlockTimestamp = ts, Contract = contracts ! index\<rparr> else None)
       (enumerate 0 txIDs)"

inductive scan_step :: "'w env \<Rightarrow> 'w Polling \<Rightarrow> 'w scan_state \<Rightarrow> 'w scan_state \<Rightarrow> bool" for env p where
  p_done: "alive s \<Longrightarrow> producer s = PTop \<Longrightarrow> ctxDone s \<Longrightarrow>
     scan_step env p s (s\<lparr>producer := PReturned\<rparr>)"
| p_wait: "alive s \<Longrightarrow> producer s = PTop \<Longrightarrow> \<not> ctxDone s \<Longrightarrow>
     poll p (currentBlockNum s) (world s) = (Ret None, w) \<Longrightarrow>
     scan_step env p s (s\<lparr>world := w\<rparr>)"
| p_idle: "alive s \<Longrightarrow> producer s = PTop \<Longrightarrow> \<not> ctxDone s \<Longrightarrow>
     poll p (currentBlockNum s) (world s) = (Ret (Some (c, n)), w) \<Longrightarrow> \<not> c < n \<Longrightarrow>
     scan_step env p s (s\<lparr>world := w, currentBlockNum := c\<rparr>)"
| p_scan: "alive s \<Longrightarrow> producer s = PTop \<Longrightarrow> \<not> ctxDone s \<Longrightarrow>
     poll p (currentBlockNum s) (world s) = (Ret (Some (c, n)), w) \<Longrightarrow> c < n \<Longrightarrow>
     scan_step env p s (s\<lparr>world := w, currentBlockNum := c, producer := PBlock (c + 1) n\<rparr>)"
| p_poll_panic: "alive s \<Longrightarrow> producer s = PTop \<Longrightarrow> \<not> ctxDone s \<Longrightarrow>
     poll p (currentBlockNum s) (world s) = (Panicked e, w) \<Longrightarrow>
     scan_step env p s (s\<lparr>world := w, producer := PUnwinding e\<rparr>)"
| p_poll_exit: "alive s \<Longrightarrow> producer s = PTop \<Longrightarrow> \<not> ctxDone s \<Longrightarrow>
     poll p (currentBlockNum s) (world s) = (Exited x, w) \<Longrightarrow>
     scan_step env p s (s\<lparr>world := w, alive := False\<rparr>)"
| p_filter: "alive s \<Longrightarrow> producer s = PBlock i n \<Longrightarrow> i \<le> n \<Longrightarrow>
     filter_block p i (world s) = (Ret (txIDs, contracts, ts, transactionTo), w) \<Longrightarrow>
     scan_step env p s (s\<lparr>world := w, producer := PSend (block_sends txIDs contracts ts) i n,
       history := history s @ [Filtered i]\<rparr>)"
| p_filter_panic: "alive s \<Longrightarrow> producer s = PBlock i n \<Longrightarrow> i \<le> n \<Longrightarrow>
     filter_block p i (world s) = (Panicked e, w) \<Longrightarrow>
     scan_step env p s (s\<lparr>world := w, producer := PUnwinding e\<rparr>)"
| p_filter_exit: "alive s \<Longrightarrow> producer s = PBlock i n \<Longrightarrow> i \<le> n \<Longrightarrow>
     filter_block p i (world s) = (Exited x, w) \<Longrightarrow>
     scan_step env p s (s\<lparr>world := w, alive := False\<rparr>)"
| p_blocks_end: "alive s \<Longrightarrow> producer s = PBlock i n \<Longrightarrow> \<not> i \<le> n \<Longrightarrow>
     scan_step env p s (s\<lparr>currentBlockNum := n, producer := PTop\<rparr>)"
| p_send: "alive s \<Longrightarrow> producer s = PSend (Some t # ts) i n \<Longrightarrow> length (newTxn s) < newTxn_cap \<Longrightarrow>
     scan_step env p s (s\<lparr>newTxn := newTxn s @ [t], producer := PSend ts i n,
       history := history s @ [Sent t]\<rparr>)"
| p_send_index: "alive s \<Longrightarrow> producer s = PSend (None # ts) i n \<Longrightarrow>
     scan_step env p s (s\<lparr>producer := PUnwinding ''index out of range''\<rparr>)"
| p_block_end: "alive s \<Longrightarrow> producer s = PSend [] i n \<Longrightarrow>
     scan_step env p s (s\<lparr>producer := PBlock (i + 1) n\<rparr>)"
| c_stop: "alive s \<Longrightarrow> consumer s = CSelect \<Longrightarrow> ctxDone s \<Longrightarrow>
     scan_step env p s (s\<lparr>consumer := CStopped\<rparr>)"
| c_finish: "alive s \<Longrightarrow> consumer s = CSelect \<Longrightarrow> newTxn s = t # ts \<Longrightarrow>
     handle_txn env p t (world s) = (Ret r, w) \<Longrightarrow> r \<noteq> Requeue \<Longrightarrow>
     scan_step env p s (s\<lparr>newTxn := ts, world := w, history := history s @ [Finished t r]\<rparr>)"
| c_requeue: "alive s \<Longrightarrow> consumer s = CSelect \<Longrightarrow> newTxn s = t # ts \<Longrightarrow>
     handle_txn env p t (world s) = (Ret Requeue, w) \<Longrightarrow>
     scan_step env p s (s\<lparr>newTxn := ts, world := w, consumer := CResend t\<rparr>)"
| c_crash: "alive s \<Longrightarrow> consumer s = CSelect \<Longrightarrow> newTxn s = t # ts \<Longrightarrow>
     handle_txn env p t (world s) = (out, w) \<Longrightarrow> (\<nexists>r. out = Ret r) \<Longrightarrow>
     scan_step env p s (s\<lparr>newTxn := ts, world := w, alive := False\<rparr>)"
| c_resend: "alive s \<Longrightarrow> consumer s = CResend t \<Longrightarrow> length (newTxn s) < newTxn_cap \<Longrightarrow>
     scan_step env p s (s\<lparr>newTxn := newTxn s @ [t], consumer := CSelect,
       history := history s @ [Requeued t]\<rparr>)"
| cancel: "scan_step env p s (s\<lparr>ctxDone := True\<rparr>)"

inductive_cases scan_stepE: "scan_step env p s t"

section \<open>Accounting\<close>

definition sent :: "scan_event list \<Rightarrow> Tnx list" where
  "sent h = List.map_filter (\<lambda>e. case e of Sent t \<Rightarrow> Some t | _ \<Rightarrow> None) h"

definition finished :: "scan_event list \<Rightarrow> Tnx list" where
  "finished h = List.map_filter (\<lambda>e. case e of Finished t _ \<Rightarrow> Some t | _ \<Rightarrow> None) h"

definition filtered :: "scan_event list \<Rightarrow> nat list" where
  "filtered h = List.map_filter (\<lambda>e. case e of Filtered i \<Rightarrow> Some (unat i) | _ \<Rightarrow> None) h"

fun in_hand :: "consumer_pc \<Rightarrow> Tnx list" where
  "in_hand (CResend t) = [t]"
| "in_hand _ = []"

definition channel_inv :: "'w scan_state \<Rightarrow> bool" where
  "channel_inv s \<longleftrightarrow> length (newTxn s) \<le> newTxn_cap \<and>
     (alive s \<longrightarrow> mset (sent (history s)) =
        mset (newTxn s) + mset (in_hand (consumer s)) + mset (finished (history s)))"

lemma history_simps [simp]:
  "sent [] = []" "finished [] = []" "filtered [] = []"
  "sent (h @ [e]) = sent h @ (case e of Sent t \<Rightarrow> [t] | _ \<Rightarrow> [])"
  "finished (h @ [e]) = finished h @ (case e of Finished t _ \<Rightarrow> [t] | _ \<Rightarrow> [])"
  "filtered (h @ [e]) = filtered h @ (case e of Filtered i \<Rightarrow> [unat i] | _ \<Rightarrow> [])"
  by (auto simp: sent_def finished_def filtered_def List.map_filter_def split: scan_event.splits)

lemma channel_inv_init: "channel_inv (scan_init w)"
  by (simp add: channel_inv_def scan_init_def)

lemma channel_inv_step: "channel_inv s \<Longrightarrow> scan_step env p s t \<Longrightarrow> channel_inv t"
  by (erule scan_stepE) (auto simp: channel_inv_def)

interpretation channel_sys: step_system "\<lambda>s. s = scan_init w" "scan_step env p" channel_inv for w env p
  by unfold_locales (auto intro: channel_inv_init channel_inv_step)

section \<open>Block order\<close>

text \<open>
  The next block to be scanned is one more than the last one scanned, at every control
  point. The chain's height stays below the largest uint64, for which the block loop's
  counter would wrap around.
\<close>

definition height_bounded :: "'w Polling \<Rightarrow> bool" where
  "height_bounded p \<longleftrightarrow> (\<forall>io w n w'. ChainIo (Opt p) = Some io \<longrightarrow> BlockNumber io w = (Ret n, w') \<longrightarrow> n \<noteq> - 1)"

definition upto_block :: "nat list \<Rightarrow> nat \<Rightarrow> bool" where
  "upto_block bs e \<longleftrightarrow> (\<exists>b \<le> e. bs = [b..<e])"

definition blocks_inv :: "'w scan_state \<Rightarrow> bool" where
  "blocks_inv s \<longleftrightarrow> (case producer s of
     PTop \<Rightarrow> upto_block (filtered (history s)) (Suc (unat (currentBlockNum s))) \<and>
            (currentBlockNum s = 0 \<longrightarrow> filtered (history s) = [])
   | PBlock i n \<Rightarrow> upto_block (filtered (history s)) (unat i) \<and> unat i \<le> Suc (unat n) \<and> n \<noteq> 0 \<and> n \<noteq> - 1
   | PSend ts i n \<Rightarrow> upto_block (filtered (history s)) (Suc (unat i)) \<and> i \<le> n \<and> n \<noteq> 0 \<and> n \<noteq> - 1
   | _ \<Rightarrow> \<exists>e. upto_block (filtered (history s)) e)"

lemma upto_block_snoc: "upto_block bs e \<Longrightarrow> upto_block (bs @ [e]) (Suc e)"
  unfolding upto_block_def by (metis le_SucI upt_Suc_append)

lemma upto_block_Nil [simp]: "upto_block [] e"
  unfolding upto_block_def by (intro exI [of _ e]) simp

lemma unat_succ: "(x::u64) \<noteq> - 1 \<Longrightarrow> unat (x + 1) = Suc (unat x)"
  using unatSuc [of x] by (simp add: add.commute eq_neg_iff_add_eq_0)

lemma poll_cases:
  assumes "poll p current w = (Ret (Some (c, n)), w')"
  shows "current \<noteq> 0 \<Longrightarrow> c = current" and "n \<noteq> 0"
    and "height_bounded p \<Longrightarrow> n \<noteq> - 1"
  using assms
  by (auto simp: poll_def callP_def bindP_def run_simps height_bounded_def
      split: option.splits prod.splits outcome.splits if_splits)

lemma blocks_inv_init: "blocks_inv (scan_init w)"
  by (simp add: blocks_inv_def scan_init_def)

lemma blocks_inv_frame:
  "blocks_inv s \<Longrightarrow> producer t = producer s \<Longrightarrow> currentBlockNum t = currentBlockNum s \<Longrightarrow>
   filtered (history t) = filtered (history s) \<Longrightarrow> blocks_inv t"
  unfolding blocks_inv_def by (cases "producer s") simp_all

lemma blocks_inv_any: "blocks_inv s \<Longrightarrow> \<exists>e. upto_block (filtered (history s)) e"
  by (auto simp: blocks_inv_def split: producer_pc.splits)

lemma blocks_inv_current:
  assumes "blocks_inv s" "producer s = PTop" "poll p (currentBlockNum s) w = (Ret (Some (c, n)), w')"
  shows "upto_block (filtered (history s)) (Suc (unat c)) \<and> (c = 0 \<longrightarrow> filtered (history s) = [])"
  using assms poll_cases(1) [OF assms(3)] by (cases "currentBlockNum s = 0") (auto simp: blocks_inv_def)

lemma blocks_inv_step:
  assumes "height_bounded p" "blocks_inv s" "scan_step env p s t"
  shows "blocks_inv t"
  using assms(3)
proof cases
  case (p_idle c n w)
  then show ?thesis using blocks_inv_current [OF assms(2) p_idle(3) p_idle(5)] by (simp add: blocks_inv_def)
next
  case (p_scan c n w)
  have "c \<noteq> - 1" using p_scan(6) by auto
  then have u: "unat (c + 1) = Suc (unat c)" by (rule unat_succ)
  have "unat c < unat n" using p_scan(6) by (simp add: word_less_nat_alt)
  with p_scan u show ?thesis
    using blocks_inv_current [OF assms(2) p_scan(3) p_scan(5)] poll_cases(2,3) [OF p_scan(5)] assms(1)
    by (simp add: blocks_inv_def)
next
  case (p_filter i n txIDs contracts ts transactionTo w)
  then show ?thesis using assms(2) by (simp add: blocks_inv_def upto_block_snoc)
next
  case (p_blocks_end i n)
  then have "unat n < unat i" by (simp add: word_le_nat_alt)
  with p_blocks_end assms(2) have "unat i = Suc (unat n)" by (simp add: blocks_inv_def)
  with p_blocks_end assms(2) show ?thesis by (simp add: blocks_inv_def)
next
  case (p_block_end i n)
  with assms(2) have le: "i \<le> n" and "n \<noteq> - 1" by (simp_all add: blocks_inv_def)
  then have "i \<noteq> - 1" by (metis order.antisym word_n1_ge)
  moreover have "unat i \<le> unat n" using le by (simp add: word_le_nat_alt)
  ultimately show ?thesis using p_block_end assms(2) by (simp add: blocks_inv_def unat_succ)
next
  case (p_send t ts i n)
  with assms(2) show ?thesis by (simp add: blocks_inv_def)
next
  case (p_done)
  with blocks_inv_any [OF assms(2)] show ?thesis by (simp add: blocks_inv_def)
next
  case (p_poll_panic e w)
  with blocks_inv_any [OF assms(2)] show ?thesis by (simp add: blocks_inv_def)
next
  case (p_filter_panic i n e w)
  with blocks_inv_any [OF assms(2)] show ?thesis by (simp add: blocks_inv_def)
next
  case (p_send_index ts i n)
  with blocks_inv_any [OF assms(2)] show ?thesis by (simp add: blocks_inv_def)
qed (auto intro!: blocks_inv_frame [OF assms(2)])

text \<open>Under the bound on the chain's height, the order of blocks is an invariant of the system.\<close>

interpretation blocks_sys: step_system "\<lambda>s. s = scan_init w \<and> height_bounded p" "scan_step env p"
    "\<lambda>s. height_bounded p \<longrightarrow> blocks_inv s" for w env p
  by unfold_locales (auto intro: blocks_inv_init blocks_inv_step)

section \<open>Deadlock\<close>

text \<open>
  Both goroutines wait to send on the full channel; neither receives. Only the context can
  still change, which neither of them is looking at.
\<close>

definition deadlocked :: "'w scan_state \<Rightarrow> bool" where
  "deadlocked s \<longleftrightarrow> length (newTxn s) = newTxn_cap \<and>
     (\<exists>t. consumer s = CResend t) \<and> (\<exists>t ts i n. producer s = PSend (Some t # ts) i n)"

lemma deadlocked_step:
  assumes "deadlocked s" "scan_step env p s t"
  shows "t = s\<lparr>ctxDone := True\<rparr>"
  using assms(2,1) by cases (auto simp: deadlocked_def)

lemma deadlocked_run:
  "(scan_step env p)\<^sup>*\<^sup>* s t \<Longrightarrow> deadlocked s \<Longrightarrow> t = s \<or> t = s\<lparr>ctxDone := True\<rparr>"
proof (induction rule: rtranclp_induct)
  case base
  then show ?case by simp
next
  case (step t u)
  then have "deadlocked t" by (auto simp: deadlocked_def)
  then have "u = t\<lparr>ctxDone := True\<rparr>" using step.hyps(2) by (rule deadlocked_step)
  with step show ?case by auto
qed

lemma send_run:
  "alive s \<Longrightarrow> producer s = PSend (map Some xs @ ys) i n \<Longrightarrow> length (newTxn s) + length xs \<le> newTxn_cap \<Longrightarrow>
   (scan_step env p)\<^sup>*\<^sup>* s (s\<lparr>newTxn := newTxn s @ xs, producer := PSend ys i n, history := history s @ map Sent xs\<rparr>)"
proof (induction xs arbitrary: s)
  case Nil
  then have "s\<lparr>newTxn := newTxn s @ [], producer := PSend ys i n, history := history s @ map Sent []\<rparr> = s" by simp
  then show ?case by (metis rtranclp.rtrancl_refl)
next
  case (Cons x xs)
  let ?t = "s\<lparr>newTxn := newTxn s @ [x], producer := PSend (map Some xs @ ys) i n, history := history s @ [Sent x]\<rparr>"
  have "scan_step env p s ?t" using Cons.prems by (intro scan_step.p_send) auto
  moreover have "(scan_step env p)\<^sup>*\<^sup>* ?t (?t\<lparr>newTxn := newTxn ?t @ xs, producer := PSend ys i n,
      history := history ?t @ map Sent xs\<rparr>)"
    using Cons.prems by (intro Cons.IH) auto
  ultimately show ?case by simp
qed

section \<open>Two concrete runs\<close>

text \<open>The first steps of the repository's test: block 2 is filtered and its transaction sent.\<close>

definition test_polling :: "unit Polling" where
  "test_polling = \<lparr>Opt = test_options, metrics = Some FakeMetrics\<rparr>"

definition test_txn :: Tnx where
  "test_txn = \<lparr>Tx = ''1'', BlockTimestamp = 123456789, Contract = ''222''\<rparr>"

definition test_state :: "unit scan_state" where
  "test_state = (scan_init ())\<lparr>newTxn := [test_txn], producer := PSend [] 2 10, currentBlockNum := 1,
     history := [Filtered 2, Sent test_txn]\<rparr>"

lemma test_run: "(scan_step quiet_env test_polling)\<^sup>*\<^sup>* (scan_init ()) test_state"
proof -
  let ?a = "(scan_init ())\<lparr>world := (), currentBlockNum := 1, producer := PBlock (1 + 1) 10\<rparr>"
  let ?b = "?a\<lparr>world := (), producer := PSend (block_sends [''1''] [''222''] 123456789) (1 + 1) 10,
    history := history ?a @ [Filtered (1 + 1)]\<rparr>"
  have poll: "poll test_polling 0 () = (Ret (Some (1, 10)), ())"
    by (simp add: poll_def test_polling_def test_options_def MockChainIo_def run_simps)
  have filt: "filter_block test_polling 2 () = (Ret ([''1''], [''222''], 123456789, [''222'']), ())"
    by (simp add: filter_block_def test_polling_def test_options_def MockChainIo_def run_simps)
  have a: "scan_step quiet_env test_polling (scan_init ()) ?a"
    by (rule scan_step.p_scan) (simp_all add: scan_init_def poll)
  have b: "scan_step quiet_env test_polling ?a ?b"
    by (rule scan_step.p_filter) (simp_all add: scan_init_def filt)
  have c: "scan_step quiet_env test_polling ?b (?b\<lparr>newTxn := newTxn ?b @ [test_txn], producer := PSend [] (1 + 1) 10,
      history := history ?b @ [Sent test_txn]\<rparr>)"
    by (rule scan_step.p_send) (simp_all add: scan_init_def block_sends_def test_txn_def newTxn_cap_def)
  then have c: "scan_step quiet_env test_polling ?b test_state"
    by (simp add: test_state_def scan_init_def)
  show ?thesis by (rule three_steps [of "scan_step quiet_env test_polling", OF a b c])
qed

lemma test_height: "height_bounded test_polling"
  by (simp add: height_bounded_def test_polling_def test_options_def MockChainIo_def run_simps)

text \<open>A chain whose block 1 has 1002 transactions without a receipt yet.\<close>

definition slow_io :: "unit ChainIo" where
  "slow_io = MockChainIo\<lparr>BlockNumber := returnP 1, ReceiptLog := (\<lambda>_. returnP (None, None)),
     FilterTrans := (\<lambda>_ _. returnP (replicate 1002 ''1'', replicate 1002 ''222'', 123456789, []))\<rparr>"

definition slow_polling :: "unit Polling" where
  "slow_polling = \<lparr>Opt = test_options\<lparr>ChainIo := Some slow_io, GetStartBlock := Some (returnP 0), InitBlock := 0\<rparr>,
     metrics = Some FakeMetrics\<rparr>"

lemma block_sends_replicate:
  "k \<le> m \<Longrightarrow> block_sends (replicate k x) (replicate m c) ts = map Some (replicate k \<lparr>Tx = x, BlockTimestamp = ts, Contract = c\<rparr>)"
  by (auto simp: block_sends_def enumerate_eq_zip intro!: nth_equalityI)

text \<open>The channel is full, the block's last two transactions are still to be sent.\<close>

definition slow_full :: "unit scan_state" where
  "slow_full = (scan_init ())\<lparr>newTxn := replicate 1000 test_txn, producer := PSend [Some test_txn, Some test_txn] 1 1,
     history := Filtered 1 # map Sent (replicate 1000 test_txn)\<rparr>"

lemma slow_full_run: "(scan_step quiet_env slow_polling)\<^sup>*\<^sup>* (scan_init ()) slow_full"
proof -
  let ?r = "scan_step quiet_env slow_polling"
  let ?ts = "replicate 1000 test_txn"
  let ?a = "(scan_init ())\<lparr>world := (), currentBlockNum := 0, producer := PBlock (0 + 1) 1\<rparr>"
  let ?b = "?a\<lparr>world := (), producer := PSend (block_sends (replicate 1002 ''1'') (replicate 1002 ''222'') 123456789) (0 + 1) 1,
    history := history ?a @ [Filtered (0 + 1)]\<rparr>"
  have poll: "poll slow_polling 0 () = (Ret (Some (0, 1)), ())"
    by (simp add: poll_def slow_polling_def slow_io_def run_simps)
  have filt: "filter_block slow_polling i () = (Ret (replicate 1002 ''1'', replicate 1002 ''222'', 123456789, []), ())" for i
    by (simp add: filter_block_def slow_polling_def slow_io_def run_simps)
  have a: "?r (scan_init ()) ?a" by (rule scan_step.p_scan) (simp_all add: scan_init_def poll)
  have b: "?r ?a ?b" by (rule scan_step.p_filter) (simp_all add: scan_init_def filt)
  have "block_sends (replicate 1002 ''1'') (replicate 1002 ''222'') 123456789 = map Some (replicate (1000 + 2) test_txn)"
    by (simp add: block_sends_replicate test_txn_def)
  moreover have "map Some (replicate (1000 + 2) test_txn) = map Some ?ts @ [Some test_txn, Some test_txn]"
    unfolding replicate_add by (simp add: numeral_2_eq_2)
  ultimately have pb: "producer ?b = PSend (map Some ?ts @ [Some test_txn, Some test_txn]) 1 1" by simp
  have "?r\<^sup>*\<^sup>* ?b (?b\<lparr>newTxn := newTxn ?b @ ?ts, producer := PSend [Some test_txn, Some test_txn] 1 1,
    history := history ?b @ map Sent ?ts\<rparr>)" (is "?r\<^sup>*\<^sup>* ?b ?c")
    by (rule send_run) (use pb in \<open>simp_all add: scan_init_def newTxn_cap_def\<close>)
  moreover have "?c = slow_full" by (simp add: slow_full_def scan_init_def)
  ultimately have "?r\<^sup>*\<^sup>* ?b slow_full" by simp
  with a b show ?thesis by (meson converse_rtranclp_into_rtranclp)
qed

lemma slow_deadlock: "\<exists>s. (scan_step quiet_env slow_polling)\<^sup>*\<^sup>* (scan_init ()) s \<and> deadlocked s \<and> alive s"
proof -
  let ?r = "scan_step quiet_env slow_polling"
  have handle: "handle_txn quiet_env slow_polling t () = (Ret Requeue, ())" for t
    by (simp add: handle_txn_def slow_polling_def slow_io_def MockChainIo_def run_simps)
  let ?d = "slow_full\<lparr>newTxn := replicate 999 test_txn, world := (), consumer := CResend test_txn\<rparr>"
  have "newTxn slow_full = test_txn # replicate 999 test_txn"
    by (simp add: slow_full_def scan_init_def flip: replicate_Suc)
  then have d: "?r slow_full ?d" by (intro scan_step.c_requeue) (simp_all add: slow_full_def scan_init_def handle)
  let ?e = "?d\<lparr>newTxn := newTxn ?d @ [test_txn], producer := PSend [Some test_txn] 1 1,
    history := history ?d @ [Sent test_txn]\<rparr>"
  have e: "?r ?d ?e" by (rule scan_step.p_send) (simp_all add: slow_full_def scan_init_def newTxn_cap_def)
  have "?r\<^sup>*\<^sup>* (scan_init ()) ?e" using slow_full_run d e by (meson rtranclp.rtrancl_into_rtrancl)
  moreover have "deadlocked ?e \<and> alive ?e" by (simp add: deadlocked_def newTxn_cap_def slow_full_def scan_init_def)
  ultimately show ?thesis by blast
qed

section \<open>Properties\<close>

text \<open>No transaction is lost or duplicated between the goroutines, and the channel never holds
  more than its capacity: in every reachable state of a running process, the transactions
  sent by the producer are, as a multiset, those in the channel, the one the consumer holds
  for re-sending, and those it has finished with.\<close>

theorem no_transaction_lost:
  assumes "(scan_step env p)\<^sup>*\<^sup>* (scan_init w) s"
  shows "length (newTxn s) \<le> newTxn_cap \<and>
    (alive s \<longrightarrow> mset (sent (history s)) =
       mset (newTxn s) + mset (in_hand (consumer s)) + mset (finished (history s)))"
  using channel_sys.inv_reachable [OF refl assms] by (simp add: channel_inv_def)

theorem no_transaction_lost_witness:
  "(scan_step quiet_env test_polling)\<^sup>*\<^sup>* (scan_init ()) test_state \<and> alive test_state \<and>
   sent (history test_state) = [test_txn] \<and>
   mset (sent (history test_state)) =
     mset (newTxn test_state) + mset (in_hand (consumer test_state)) + mset (finished (history test_state))"
proof -
  have a: "alive test_state" by (simp add: test_state_def scan_init_def)
  have "sent (history test_state) = [test_txn]"
    by (simp add: test_state_def sent_def List.map_filter_def)
  with a test_run no_transaction_lost [OF test_run] show ?thesis by blast
qed

text \<open>C2. The producer passes every block to \<open>FilterTrans\<close> exactly once and in ascending order:
  in every reachable state the block numbers filtered so far are an interval without gaps or
  repetitions, as long as the chain's height stays below the largest uint64.\<close>

theorem blocks_in_order:
  assumes "height_bounded p" and "(scan_step env p)\<^sup>*\<^sup>* (scan_init w) s"
  shows "\<exists>b e. filtered (history s) = [b..<e]"
proof -
  have "blocks_inv s" using blocks_sys.inv_reachable [OF conjI [OF refl assms(1)] assms(2)] assms(1) by blast
  then show ?thesis using blocks_inv_any unfolding upto_block_def by blast
qed

theorem blocks_in_order_witness:
  "height_bounded test_polling \<and> (scan_step quiet_env test_polling)\<^sup>*\<^sup>* (scan_init ()) test_state \<and>
   filtered (history test_state) = [2] \<and> (\<exists>b e. filtered (history test_state) = [b..<e])"
proof -
  have "filtered (history test_state) = [2]"
    by (simp add: test_state_def filtered_def List.map_filter_def)
  with test_height test_run blocks_in_order [OF test_height test_run] show ?thesis by blast
qed

text \<open>The two goroutines can deadlock. There is a chain on which they reach a state where the
  consumer waits to re-send a transaction and the producer waits to send the next one, the
  channel being full; from such a state no step but the cancellation of the context is
  possible, and that changes nothing either, so \<open>WipeBlock\<close> never returns.\<close>

theorem polling_deadlock:
  "\<exists>(p :: unit Polling) s. (scan_step quiet_env p)\<^sup>*\<^sup>* (scan_init ()) s \<and> deadlocked s \<and>
     {t. (scan_step quiet_env p)\<^sup>*\<^sup>* s t} = {s, s\<lparr>ctxDone := True\<rparr>}"
proof -
  obtain s where s: "(scan_step quiet_env slow_polling)\<^sup>*\<^sup>* (scan_init ()) s" "deadlocked s"
    using slow_deadlock by blast
  have "(scan_step quiet_env slow_polling)\<^sup>*\<^sup>* s (s\<lparr>ctxDone := True\<rparr>)"
    by (rule r_into_rtranclp) (rule scan_step.cancel)
  then have "{t. (scan_step quiet_env slow_polling)\<^sup>*\<^sup>* s t} = {s, s\<lparr>ctxDone := True\<rparr>}"
    using deadlocked_run [OF _ s(2)] by blast
  with s show ?thesis by blast
qed

text \<open>Where scanning starts: the producer continues from its own position; only when that is 0
  it asks \<open>GetStartBlock\<close>, and only when that answers 0 too it uses \<open>InitBlock\<close>. A height of
  0 makes no progress.\<close>

theorem poll_start:
  assumes "ChainIo (Opt p) = Some io" and "GetStartBlock (Opt p) = Some get"
    and "BlockNumber io w = (Ret n, w1)" and "get w1 = (Ret start, w2)"
  shows "poll p current w =
    (if n = 0 then (Ret None, w1)
     else if current \<noteq> 0 then (Ret (Some (current, n)), w1)
     else (Ret (Some (if start \<noteq> 0 then start else InitBlock (Opt p), n)), w2))"
  using assms by (simp add: poll_def run_simps)

theorem poll_start_witness:
  "let p = \<lparr>Opt = test_options, metrics = Some (FakeMetrics :: unit Metrics)\<rparr> in
     (\<exists>io get. ChainIo (Opt p) = Some io \<and> GetStartBlock (Opt p) = Some get \<and>
        BlockNumber io () = (Ret 10, ()) \<and> get () = (Ret 1, ())) \<and>
     poll p 0 () = (Ret (Some (1, 10)), ()) \<and> poll p 5 () = (Ret (Some (5, 10)), ())"
proof -
  let ?p = "\<lparr>Opt = test_options, metrics = Some (FakeMetrics :: unit Metrics)\<rparr>"
  have h: "ChainIo (Opt ?p) = Some MockChainIo" "GetStartBlock (Opt ?p) = Some (returnP 1)"
    "BlockNumber MockChainIo () = (Ret 10, ())" "returnP 1 () = (Ret 1, ())"
    by (simp_all add: test_options_def MockChainIo_def run_simps)
  show ?thesis
    unfolding Let_def using h poll_start [OF h, of 0] poll_start [OF h, of 5] by auto
qed

end
