(* ===== verification/Subscribe_Scan.thy ===== *)
theory Subscribe_Scan
  imports Polling_Wipe "HOL-Library.Sublist"
begin

text \<open>
  The subscription scanner (src/subscribe/subscribe.go): \<open>Init\<close>, the catch-up \<open>filterLogs\<close> and
  \<open>WipeBlock\<close>. It embeds a \<open>Polling\<close> for the middleware and the distribution, with a field
  \<open>metrics\<close> of its own. The Ethereum client is a parameter, a record of programs over the
  world. The map \<open>data\<close> of pending transactions is an association list; its order stands for
  the iteration order of the runtime. Loops that depend on the network take fuel and give
  \<open>None\<close> when it is used up.
\<close>

section \<open>State\<close>

record rawlog =
  l_TxHash :: string
  l_BlockNumber :: u64

text \<open>
  A client call gives its value and an error. \<open>FilterLogs\<close> gets the addresses and the block
  range as int64, \<open>BlockByNumber\<close> gives the block's time.
\<close>

record 'w EthClient =
  eth_BlockNumber :: "('w, u64 \<times> error option) prog"
  eth_FilterLogs :: "string list \<Rightarrow> int \<Rightarrow> int \<Rightarrow> ('w, rawlog list \<times> error option) prog"
  eth_BlockByNumber :: "int \<Rightarrow> ('w, u64 \<times> error option) prog"
  eth_SubscribeFilterLogs :: "string list \<Rightarrow> ('w, error option) prog"
  eth_Unsubscribe :: "('w, unit) prog"

record pending =
  pd_Receipts :: "Receipts option"
  pd_Tx :: string
  pd_Timestamp :: u64
  pd_BlockNumber :: u64

type_synonym data = "(string \<times> pending) list"

record 'w Subscribe =
  sub_Polling :: "'w Polling option"
  sub_metrics :: "'w Metrics option"
  wss :: string

definition new_Subscribe :: "'w Subscribe" where
  "new_Subscribe = \<lparr>sub_Polling = None, sub_metrics = None, wss = []\<rparr>"

definition zero_options :: "'w ScanEventsOptions" where
  "zero_options = \<lparr>ChainIo = None, Chain = [], ContractsName = [], SleepTime = 0, GetCallbackFunc = None,
     CallbackMethodPrefix = [], InitBlock = 0, RunForever = False, BeforePushMiddleware = [],
     GetStartBlock = None, SetStartBlock = None\<rparr>"

definition new_Polling :: "'w Polling" where
  "new_Polling = \<lparr>Opt = zero_options, metrics = None\<rparr>"

definition Subscribe_SetMetrics :: "'w Metrics option \<Rightarrow> 'w Subscribe \<Rightarrow> 'w Subscribe" where
  "Subscribe_SetMetrics m p = p\<lparr>sub_metrics := m\<rparr>"

definition Subscribe_Init :: "'w env \<Rightarrow> 'w ScanEventsOptions \<Rightarrow> 'w Subscribe \<Rightarrow> error option \<times> 'w Subscribe" where
  "Subscribe_Init env opt p0 =
     (let pol = (case sub_Polling p0 of None \<Rightarrow> new_Polling | Some pol \<Rightarrow> pol);
          p = p0\<lparr>sub_Polling := Some pol\<rparr>;
          w = Getenv env (ToUpper (Chain opt) @ ''_WSS_RPC'') in
      if \<not> HasPrefix w ''ws'' \<or> w = []
      then (Some (''check if '' @ ToUpper (Chain opt) @ ''_WSS_RPC is a valid websocket connection''), p)
      else let (err, pol') = Polling_Init opt pol in (err, p\<lparr>wss := w, sub_Polling := Some pol'\<rparr>))"

text \<open>\<open>query.Addresses\<close>; \<open>common.HexToAddress\<close> is the parameter \<open>hexToAddress\<close>.\<close>

definition query_addresses :: "(string \<Rightarrow> string) \<Rightarrow> 'w Polling \<Rightarrow> string list" where
  "query_addresses hexToAddress pol = map (\<lambda>(k, _). hexToAddress (ToLower k)) (ContractsName (Opt pol))"

section \<open>Pushing pending transactions\<close>

text \<open>The receipt of a transaction with up to ten tries; a final error panics.\<close>

definition fetch_receipt :: "'w Polling \<Rightarrow> string \<Rightarrow> ('w, Receipts option) prog" where
  "fetch_receipt pol tx =
     callP (ChainIo (Opt pol)) (\<lambda>io.
     bindP (TryReturn (bindP (ReceiptLog io tx) (\<lambda>(resp, err).
              case err of Some e \<Rightarrow> returnP (None, Some e) | None \<Rightarrow> returnP (resp, None))) [10])
       (\<lambda>(result, err). bindP (Panic err) (\<lambda>_.
          case result of None \<Rightarrow> panicP ''interface conversion'' | Some r \<Rightarrow> returnP r)))"

text \<open>One entry of the map: \<open>None\<close> if it is deleted, else the entry as it stays.\<close>

definition push_entry :: "'w env \<Rightarrow> 'w Polling \<Rightarrow> pending \<Rightarrow> ('w, pending option) prog" where
  "push_entry env pol v =
     bindP (fetch_receipt pol (pd_Tx v)) (\<lambda>result.
     case result of
       None \<Rightarrow> returnP (Some (v\<lparr>pd_Receipts := None\<rparr>))
     | Some r \<Rightarrow>
         if length (Logs r) = 0 then returnP (Some (v\<lparr>pd_Receipts := Some r\<rparr>))
         else bindP (RunBeforePushMiddleware pol (pd_Tx v) (pd_Timestamp v) r) (\<lambda>ok.
           if ok then
             bindP (ReceiptDistribution env pol (pd_Tx v) (pd_Timestamp v) r) (\<lambda>r'.
             callP (SetStartBlock (Opt pol)) (\<lambda>set_start.
             bindP (set_start (ToUint64 env (r_BlockNumber r'))) (\<lambda>_. returnP None)))
           else returnP None))"

text \<open>
  The closure \<open>push\<close>: entries for which \<open>ready\<close> fails are skipped; in \<open>filterLogs\<close> every
  entry is ready, in \<open>WipeBlock\<close> those older than the delay.
\<close>

fun push :: "'w env \<Rightarrow> 'w Polling \<Rightarrow> (pending \<Rightarrow> bool) \<Rightarrow> data \<Rightarrow> ('w, data) prog" where
  "push env pol ready [] = returnP []"
| "push env pol ready ((key, v) # es) =
     (if \<not> ready v then bindP (push env pol ready es) (\<lambda>rest. returnP ((key, v) # rest))
      else bindP (push_entry env pol v) (\<lambda>kept.
           bindP (push env pol ready es) (\<lambda>rest.
           returnP (case kept of None \<Rightarrow> rest | Some v' \<Rightarrow> (key, v') # rest))))"

section \<open>Catching up\<close>

definition block_time :: "'w EthClient \<Rightarrow> u64 \<Rightarrow> ('w, u64 option \<times> error option) prog" where
  "block_time client n = TryReturn (eth_BlockByNumber client (sint n)) [10]"

text \<open>The loop over the raw logs of one range, with its cache of block times.\<close>

fun collect :: "'w EthClient \<Rightarrow> 'w Subscribe \<Rightarrow> string \<Rightarrow> (u64 \<times> u64) list \<Rightarrow> data \<Rightarrow> rawlog list \<Rightarrow> ('w, data) prog" where
  "collect client p chain blockNumber data [] = returnP data"
| "collect client p chain blockNumber data (v # vs) =
     bindP (case map_of blockNumber (l_BlockNumber v) of
        Some t \<Rightarrow> returnP (Some blockNumber)
      | None \<Rightarrow> bindP (block_time client (l_BlockNumber v)) (\<lambda>(result, err).
          case (err, result) of
            (Some _, _) \<Rightarrow> returnP None
          | (None, None) \<Rightarrow> panicP ''interface conversion''
          | (None, Some t) \<Rightarrow> returnP (Some ((l_BlockNumber v, t) # blockNumber))))
     (\<lambda>cache. case cache of
        None \<Rightarrow> collect client p chain blockNumber data vs
      | Some bn \<Rightarrow>
          let tx = l_TxHash v in
          if map_of data tx \<noteq> None then collect client p chain bn data vs
          else bindP (callP (sub_metrics p) (\<lambda>m. ScanTxTotal m chain [])) (\<lambda>_.
            collect client p chain bn
              (data @ [(tx, \<lparr>pd_Receipts = None, pd_Tx = tx,
                  pd_Timestamp = (case map_of bn (l_BlockNumber v) of Some t \<Rightarrow> t | None \<Rightarrow> 0),
                  pd_BlockNumber = l_BlockNumber v\<rparr>)]) vs))"

definition window_end :: "u64 \<Rightarrow> u64 \<Rightarrow> u64" where
  "window_end startBlock endBlock = (if endBlock - startBlock \<ge> 500 then startBlock + 500 else endBlock)"

text \<open>The final loop \<open>for len(data) > 0\<close>.\<close>

fun drain :: "nat \<Rightarrow> 'w env \<Rightarrow> 'w Polling \<Rightarrow> data \<Rightarrow> ('w, unit option) prog" where
  "drain fuel env pol [] = returnP (Some ())"
| "drain 0 env pol (e # es) = returnP None"
| "drain (Suc fuel) env pol (e # es) =
     bindP (push env pol (\<lambda>_. True) (e # es)) (\<lambda>data. drain fuel env pol data)"

fun filterLogs :: "nat \<Rightarrow> 'w env \<Rightarrow> 'w EthClient \<Rightarrow> (string \<Rightarrow> string) \<Rightarrow> 'w Subscribe \<Rightarrow> 'w Polling \<Rightarrow>
    u64 \<Rightarrow> data \<Rightarrow> ('w, unit option) prog" where
  "filterLogs 0 env client hexToAddress p pol startBlock data = returnP None"
| "filterLogs (Suc fuel) env client hexToAddress p pol startBlock data =
     bindP (eth_BlockNumber client) (\<lambda>(endBlock0, _).
     if endBlock0 = 0 then filterLogs fuel env client hexToAddress p pol startBlock data
     else if endBlock0 \<le> startBlock then drain fuel env pol data
     else let endBlock = window_end startBlock endBlock0 in
       bindP (eth_FilterLogs client (query_addresses hexToAddress pol) (sint startBlock) (sint endBlock)) (\<lambda>(rawLogs, err).
       case err of
         Some _ \<Rightarrow> filterLogs fuel env client hexToAddress p pol startBlock data
       | None \<Rightarrow>
           bindP (collect client p (Chain (Opt pol)) [] data rawLogs) (\<lambda>data1.
           bindP (push env pol (\<lambda>_. True) data1) (\<lambda>data2.
           filterLogs fuel env client hexToAddress p pol endBlock data2))))"

section \<open>Following the chain\<close>

text \<open>
  What the select statement of \<open>WipeBlock\<close> can receive: the end of the subscription, the end
  of the context, a log, a tick of the timer. Events after which \<open>push\<close> runs carry the Unix
  time it reads, an int64.
\<close>

datatype sub_event = SubErr "error option" "64 word" | CtxDone "64 word" | LogArrived rawlog | Tick "64 word"

text \<open>\<open>int64(waitTime.Seconds())\<close>: the whole seconds of a duration, rounded towards zero.\<close>

definition wait_seconds :: "duration \<Rightarrow> int" where
  "wait_seconds d = (if sint d \<ge> 0 then sint d div 1000000000 else - (- sint d div 1000000000))"

definition due :: "duration \<Rightarrow> 64 word \<Rightarrow> pending \<Rightarrow> bool" where
  "due waitTime now v \<longleftrightarrow> \<not> sint (now - pd_Timestamp v) < wait_seconds waitTime"

text \<open>One round of the select: \<open>Inl err\<close> when the method returns, else the pending data.\<close>

fun wipe_event :: "'w env \<Rightarrow> 'w EthClient \<Rightarrow> 'w Subscribe \<Rightarrow> 'w Polling \<Rightarrow> duration \<Rightarrow> data \<Rightarrow> sub_event \<Rightarrow>
    ('w, error option + data) prog" where
  "wipe_event env client p pol waitTime data (SubErr err now) =
     bindP (push env pol (due waitTime now) data) (\<lambda>_. returnP (Inl err))"
| "wipe_event env client p pol waitTime data (CtxDone now) =
     bindP (eth_Unsubscribe client) (\<lambda>_.
     bindP (push env pol (due waitTime now) data) (\<lambda>_. returnP (Inl None)))"
| "wipe_event env client p pol waitTime data (LogArrived vLog) =
     (let tx = l_TxHash vLog in
      if map_of data tx \<noteq> None then returnP (Inr data)
      else bindP (block_time client (l_BlockNumber vLog)) (\<lambda>(result, err).
        case (err, result) of
          (Some _, _) \<Rightarrow> returnP (Inr data)
        | (None, None) \<Rightarrow> panicP ''interface conversion''
        | (None, Some t) \<Rightarrow>
            bindP (callP (sub_metrics p) (\<lambda>m. ScanTxTotal m (Chain (Opt pol)) [1])) (\<lambda>_.
            returnP (Inr (data @ [(tx, \<lparr>pd_Receipts = None, pd_Tx = tx, pd_Timestamp = t, pd_BlockNumber = 0\<rparr>)])))))"
| "wipe_event env client p pol waitTime data (Tick now) =
     (if length data \<le> 0 then returnP (Inr data)
      else bindP (push env pol (due waitTime now) data) (\<lambda>data'. returnP (Inr data')))"

text \<open>The loop over the events received so far; \<open>None\<close> while it waits for the next one.\<close>

fun wipe_loop :: "'w env \<Rightarrow> 'w EthClient \<Rightarrow> 'w Subscribe \<Rightarrow> 'w Polling \<Rightarrow> duration \<Rightarrow> data \<Rightarrow> sub_event list \<Rightarrow>
    ('w, error option option) prog" where
  "wipe_loop env client p pol waitTime data [] = returnP None"
| "wipe_loop env client p pol waitTime data (ev # evs) =
     bindP (wipe_event env client p pol waitTime data ev) (\<lambda>res. case res of
       Inl err \<Rightarrow> returnP (Some err)
     | Inr data' \<Rightarrow> wipe_loop env client p pol waitTime data' evs)"

text \<open>
  The whole method; \<open>dial\<close> is \<open>ethclient.DialContext\<close>. \<open>time.NewTicker\<close> panics for a
  duration that is not positive.
\<close>

definition Subscribe_WipeBlock :: "nat \<Rightarrow> 'w env \<Rightarrow> (string \<Rightarrow> ('w, error + 'w EthClient) prog) \<Rightarrow> (string \<Rightarrow> string) \<Rightarrow>
    'w Subscribe \<Rightarrow> sub_event list \<Rightarrow> ('w, error option option) prog" where
  "Subscribe_WipeBlock fuel env dial hexToAddress p events =
     callP (sub_Polling p) (\<lambda>pol.
     bindP (dial (wss p)) (\<lambda>dialled. case dialled of
       Inl err \<Rightarrow> returnP (Some (Some err))
     | Inr client \<Rightarrow>
         bindP (callP (GetStartBlock (Opt pol)) (\<lambda>get. get)) (\<lambda>start.
         let currentBlockNum = (if start = 0 then InitBlock (Opt pol) else start) in
         bindP (filterLogs fuel env client hexToAddress p pol currentBlockNum []) (\<lambda>caughtUp. case caughtUp of
           None \<Rightarrow> returnP None
         | Some _ \<Rightarrow>
             bindP (eth_SubscribeFilterLogs client (query_addresses hexToAddress pol)) (\<lambda>err. case err of
               Some e \<Rightarrow> returnP (Some (Some e))
             | None \<Rightarrow>
                 if sint (GetSleepTime (ToUint64 env) (Getenv env)) \<le> 0
                 then panicP ''non-positive interval for NewTicker''
                 else wipe_loop env client p pol (GetDelayTime (ToUint64 env) (Getenv env)) [] events)))))"

section \<open>Lemmas\<close>

lemma Subscribe_Init_metrics:
  assumes "Subscribe_Init env opt (Subscribe_SetMetrics m new_Subscribe) = (None, p)"
  shows "\<exists>pol. sub_Polling p = Some pol \<and> metrics pol = None \<and> Opt pol = opt \<and> sub_metrics p = m"
  using assms
  by (auto simp: Subscribe_Init_def Subscribe_SetMetrics_def new_Subscribe_def new_Polling_def
      Polling_Init_def Let_def split: if_splits)

lemma seq_dispatch_nil_metrics:
  "metrics pol = None \<Longrightarrow> vs \<noteq> [] \<Longrightarrow> seqP (map (dispatch env pol fb) vs) = panicP nil_deref"
  by (cases vs) (simp_all add: dispatch_def)

lemma distribution_nil_metrics:
  assumes "metrics pol = None" "dispatched (Opt pol) (Logs r) \<noteq> []"
    and "\<forall>l \<in> set (Logs r). CHR ''_'' \<notin> set (Address l)"
    and "GetCallbackFunc (Opt pol) = Some g" "g tx ts (r\<lparr>Logs := keep_first log_key {} (Logs r)\<rparr>) w = (Ret cb, w')"
  shows "ReceiptDistribution env pol tx ts r w = (Panicked nil_deref, w')"
proof -
  have "Logs r \<noteq> []" using assms(2) by (auto simp: dispatched_def map_filter_simps)
  from ReceiptDistribution_eq [OF this assms(4,3)] show ?thesis
    using assms by (simp add: Let_def seq_dispatch_nil_metrics run_simps)
qed

lemma fetch_receipt_ok:
  assumes "ChainIo (Opt pol) = Some io" "ReceiptLog io tx w = (Ret (Some r, None), w')"
  shows "fetch_receipt pol tx w = (Ret (Some r), w')"
proof -
  let ?f = "bindP (ReceiptLog io tx) (\<lambda>(resp, err).
              case err of Some e \<Rightarrow> returnP (None, Some e) | None \<Rightarrow> returnP (resp, None))"
  have "?f w = (Ret (Some r, None), w')" using assms(2) by (simp add: run_simps)
  then have "TryReturn ?f [10] w = (Ret (Some (Some r), None), w')" by (rule TryReturn_immediate)
  with assms(1) show ?thesis by (simp add: fetch_receipt_def run_simps)
qed

lemma push_keys:
  "push env pol ready d w = (Ret d', w') \<Longrightarrow>
   subseq (map fst d') (map fst d) \<and> (\<forall>e \<in> set d. \<not> ready (snd e) \<longrightarrow> e \<in> set d')"
proof (induction d arbitrary: w d' w')
  case Nil
  then show ?case by (simp add: run_simps)
next
  case (Cons e d)
  obtain key v where e: "e = (key, v)" by (cases e)
  show ?case
  proof (cases "ready v")
    case False
    with Cons.prems e obtain rest w1 where "push env pol ready d w = (Ret rest, w1)" "d' = (key, v) # rest"
      by (auto simp: bindP_def run_simps split: prod.splits outcome.splits)
    with Cons.IH [of w rest w1] e show ?thesis by auto
  next
    case True
    with Cons.prems e obtain kept w1 rest w2 where "push env pol ready d w1 = (Ret rest, w2)"
      "d' = (case kept of None \<Rightarrow> rest | Some v' \<Rightarrow> (key, v') # rest)"
      by (auto simp: bindP_def run_simps split: prod.splits outcome.splits)
    with Cons.IH [of w1 rest w2] e True show ?thesis by (auto split: option.splits)
  qed
qed

lemma collect_keys:
  "collect client p chain bn d vs w = (Ret d', w') \<Longrightarrow> distinct (map fst d) \<Longrightarrow>
   (\<exists>new. d' = d @ new \<and> distinct (map fst d') \<and> fst ` set new \<subseteq> l_TxHash ` set vs \<and>
      (\<forall>(k, v) \<in> set new. pd_Tx v = k))"
proof (induction vs arbitrary: bn d w)
  case Nil
  then show ?case by (simp add: run_simps)
next
  case (Cons v vs)
  let ?new = "\<lambda>t. (l_TxHash v, \<lparr>pd_Receipts = None, pd_Tx = l_TxHash v,
      pd_Timestamp = t, pd_BlockNumber = l_BlockNumber v\<rparr>)"
  from Cons.prems(1) obtain bn' t w1 where
    "collect client p chain bn' d vs w1 = (Ret d', w') \<or>
     (map_of d (l_TxHash v) = None \<and> collect client p chain bn' (d @ [?new t]) vs w1 = (Ret d', w'))"
    by (auto simp: bindP_def run_simps Let_def split: prod.splits outcome.splits option.splits if_splits)
  then show ?case
  proof
    assume "collect client p chain bn' d vs w1 = (Ret d', w')"
    from Cons.IH [OF this Cons.prems(2)] show ?case by auto
  next
    assume new: "map_of d (l_TxHash v) = None \<and> collect client p chain bn' (d @ [?new t]) vs w1 = (Ret d', w')"
    then have "distinct (map fst (d @ [?new t]))"
      using Cons.prems(2) by (auto simp: map_of_eq_None_iff)
    from Cons.IH [OF conjunct2 [OF new] this] obtain rest where rest:
      "d' = d @ [?new t] @ rest" "distinct (map fst d')" "fst ` set rest \<subseteq> l_TxHash ` set vs"
      "\<forall>(k, v) \<in> set rest. pd_Tx v = k" by auto
    then show ?case by (intro exI [of _ "?new t # rest"]) auto
  qed
qed

lemma subseq_keys: "subseq (map fst xs) (map fst ys) \<Longrightarrow> e \<in> set xs \<Longrightarrow> fst e \<in> fst ` set ys"
  using list_emb_set [of "(=)" "map fst xs" "map fst ys" "fst e"] by (auto simp: image_iff)

lemma subseq_distinct: "subseq xs ys \<Longrightarrow> distinct ys \<Longrightarrow> distinct xs"
  by (induction rule: list_emb.induct) (auto dest: list_emb_set)

text \<open>
  Programs that return in every world. What a run has done is seen through two observations of the world: the
  block ranges that the node has answered, and a number that bounds the failures still to come. A calm program
  returns, asks for no range and does not add to the failures.
\<close>

definition keeps :: "('w \<Rightarrow> 'o) \<Rightarrow> ('w \<Rightarrow> nat) \<Rightarrow> 'w \<Rightarrow> 'w \<Rightarrow> bool" where
  "keeps asked trouble w w' \<longleftrightarrow> asked w' = asked w \<and> trouble w' \<le> trouble w"

definition calm :: "('w \<Rightarrow> 'o) \<Rightarrow> ('w \<Rightarrow> nat) \<Rightarrow> ('w, 'a) prog \<Rightarrow> bool" where
  "calm asked trouble m \<longleftrightarrow> (\<forall>w. \<exists>x w'. m w = (Ret x, w') \<and> keeps asked trouble w w')"

lemma keeps_refl [simp]: "keeps asked trouble w w"
  by (simp add: keeps_def)

lemma keeps_trans: "keeps asked trouble u v \<Longrightarrow> keeps asked trouble v w \<Longrightarrow> keeps asked trouble u w"
  by (auto simp: keeps_def)

lemma calmE:
  assumes "calm asked trouble m"
  obtains x w' where "m w = (Ret x, w')" "keeps asked trouble w w'"
  using assms unfolding calm_def by blast

lemma calm_return [intro, simp]: "calm asked trouble (returnP x)"
  by (simp add: calm_def run_simps)

lemma calm_bind [intro]:
  assumes "calm asked trouble m" and "\<And>x. calm asked trouble (f x)"
  shows "calm asked trouble (bindP m f)"
  unfolding calm_def
proof
  fix w
  obtain x v where x: "m w = (Ret x, v)" "keeps asked trouble w v" using assms(1) by (rule calmE)
  obtain y u where "f x v = (Ret y, u)" "keeps asked trouble v u" using assms(2) by (rule calmE)
  with x show "\<exists>y u. bindP m f w = (Ret y, u) \<and> keeps asked trouble w u" by (auto intro: keeps_trans)
qed

lemma calm_try_loop:
  assumes "calm asked trouble f"
  shows "n > 0 \<or> err \<noteq> None \<Longrightarrow>
    \<exists>r w'. try_loop n f err w = (Ret r, w') \<and> keeps asked trouble w w' \<and> (\<exists>x e. r = (Some x, None) \<or> r = (None, Some e))"
proof (induction n arbitrary: err w)
  case (Suc n)
  obtain r w1 where r: "f w = (Ret r, w1)" "keeps asked trouble w w1" using assms by (rule calmE)
  show ?case
  proof (cases "snd r")
    case None
    with r show ?thesis by (cases r) (simp add: run_simps)
  next
    case (Some e)
    from Suc.IH [of "Some e" w1] r Some show ?thesis by (cases r) (auto intro: keeps_trans)
  qed
qed (auto simp: run_simps)

lemma calm_TryReturn:
  assumes "calm asked trouble f" and "max_try tc > 0"
  obtains x e r w' where "TryReturn f tc w = (Ret r, w')" "keeps asked trouble w w'" "r = (Some x, None) \<or> r = (None, Some e)"
  using calm_try_loop [OF assms(1), of "max_try tc" None w] assms(2) unfolding TryReturn_def by blast

text \<open>What the scanner relies on: the node and the functions of the options return.\<close>

definition node_ok :: "('w \<Rightarrow> (int \<times> int) list) \<Rightarrow> ('w \<Rightarrow> nat) \<Rightarrow> nat \<Rightarrow> nat \<Rightarrow> 'w EthClient \<Rightarrow> string list \<Rightarrow> bool" where
  "node_ok asked trouble lo hi client addresses \<longleftrightarrow>
     (\<forall>w. \<exists>n e w'. eth_BlockNumber client w = (Ret (n, e), w') \<and> keeps asked trouble w w' \<and>
        (if n = 0 then trouble w' < trouble w else lo \<le> unat n \<and> unat n \<le> hi)) \<and>
     (\<forall>f t w. \<exists>logs e w'. eth_FilterLogs client addresses f t w = (Ret (logs, e), w') \<and> trouble w' \<le> trouble w \<and>
        (case e of None \<Rightarrow> asked w' = asked w @ [(f, t)] | Some _ \<Rightarrow> asked w' = asked w \<and> trouble w' < trouble w)) \<and>
     (\<forall>n. calm asked trouble (eth_BlockByNumber client n))"

definition receipts_ok :: "('w \<Rightarrow> 'o) \<Rightarrow> ('w \<Rightarrow> nat) \<Rightarrow> 'w Polling \<Rightarrow> bool" where
  "receipts_ok asked trouble pol \<longleftrightarrow> (\<exists>io. ChainIo (Opt pol) = Some io \<and>
     (\<forall>tx w. \<exists>r w'. ReceiptLog io tx w = (Ret (r, None), w') \<and> keeps asked trouble w w' \<and>
        ((case r of None \<Rightarrow> True | Some r \<Rightarrow> Logs r = []) \<longrightarrow> trouble w' < trouble w)))"

definition options_ok :: "('w \<Rightarrow> 'o) \<Rightarrow> ('w \<Rightarrow> nat) \<Rightarrow> 'w env \<Rightarrow> 'w Subscribe \<Rightarrow> 'w Polling \<Rightarrow> bool" where
  "options_ok asked trouble env p pol \<longleftrightarrow>
     (\<exists>m. sub_metrics p = Some m \<and> calm asked trouble (ScanTxTotal m (Chain (Opt pol)) [])) \<and>
     (\<forall>f tx ts r. Some f \<in> set (BeforePushMiddleware (Opt pol)) \<longrightarrow> calm asked trouble (f tx ts r)) \<and>
     (\<exists>g. GetCallbackFunc (Opt pol) = Some g \<and> (\<forall>tx ts r. calm asked trouble (g tx ts r))) \<and>
     (\<exists>set. SetStartBlock (Opt pol) = Some set \<and> (\<forall>n. calm asked trouble (set n))) \<and>
     (\<forall>a v. matching_prefix (Opt pol) a = Some v \<longrightarrow> (\<exists>m. metrics pol = Some m \<and> calm asked trouble (ScanCallbackTotal m v []))) \<and>
     calm asked trouble (NewUUID env) \<and> (\<forall>q c t. calm asked trouble (Enqueue env q c t))"

lemma calm_middleware:
  "\<forall>f tx ts r. Some f \<in> set vs \<longrightarrow> calm asked trouble (f tx ts r) \<Longrightarrow> calm asked trouble (run_middleware vs tx ts r)"
  by (induction vs tx ts r rule: run_middleware.induct) auto

lemma calm_Do: "calm asked trouble (NewUUID env) \<Longrightarrow> (\<And>q c t. calm asked trouble (Enqueue env q c t)) \<Longrightarrow> calm asked trouble (FilterBlock_Do env fb)"
  by (cases "Solidity (fb_Receipts fb)") (auto simp: FilterBlock_Do_nop, auto simp: FilterBlock_Do_def Let_def intro!: calm_bind split: prod.split)

lemma calm_distribute:
  assumes "options_ok asked trouble env p pol"
  shows "calm asked trouble (distribute env pol fb exist ls)"
proof (induction ls arbitrary: exist)
  case (Cons l ls)
  have "calm asked trouble (dispatch env pol fb v)" if "matching_prefix (Opt pol) a = Some v" for a v
  proof -
    from assms that obtain m where m: "metrics pol = Some m" "calm asked trouble (ScanCallbackTotal m v [])"
      unfolding options_ok_def by blast
    have "calm asked trouble (FilterBlock_Do env (fb\<lparr>fb_ContractName := v\<rparr>))"
      by (rule calm_Do) (use assms in \<open>auto simp: options_ok_def\<close>)
    with m show ?thesis by (auto simp: dispatch_def intro!: calm_bind)
  qed
  with Cons show ?case by (auto simp: Let_def intro!: calm_bind split: option.splits)
qed simp

lemma calm_distribution:
  assumes "options_ok asked trouble env p pol"
  shows "calm asked trouble (ReceiptDistribution env pol tx ts r)"
proof -
  from assms obtain g where "GetCallbackFunc (Opt pol) = Some g" "\<And>tx ts r. calm asked trouble (g tx ts r)"
    unfolding options_ok_def by blast
  then show ?thesis using calm_distribute [OF assms] by (auto simp: ReceiptDistribution_def Let_def intro!: calm_bind split: prod.splits)
qed

lemma push_entry_total:
  assumes "options_ok asked trouble env p pol" and "receipts_ok asked trouble pol"
  shows "\<exists>kept w'. push_entry env pol v w = (Ret kept, w') \<and> keeps asked trouble w w' \<and> (kept \<noteq> None \<longrightarrow> trouble w' < trouble w)"
proof -
  let ?Q = "keeps asked trouble"
  from assms(2) obtain io r w1 where io: "ChainIo (Opt pol) = Some io" and r: "ReceiptLog io (pd_Tx v) w = (Ret (r, None), w1)" "?Q w w1"
    "(case r of None \<Rightarrow> True | Some r \<Rightarrow> Logs r = []) \<longrightarrow> trouble w1 < trouble w" unfolding receipts_ok_def by blast
  have f: "fetch_receipt pol (pd_Tx v) w = (Ret r, w1)"
  proof -
    let ?f = "bindP (ReceiptLog io (pd_Tx v)) (\<lambda>(resp, err). case err of Some e \<Rightarrow> returnP (None, Some e) | None \<Rightarrow> returnP (resp, None))"
    have "?f w = (Ret (r, None), w1)" using r(1) by (simp add: run_simps)
    then have "TryReturn ?f [10] w = (Ret (Some r, None), w1)" by (rule TryReturn_immediate)
    with io show ?thesis by (simp add: fetch_receipt_def run_simps)
  qed
  show ?thesis
  proof (cases "case r of None \<Rightarrow> True | Some r \<Rightarrow> Logs r = []")
    case True
    with f r show ?thesis by (cases r) (simp_all add: push_entry_def run_simps)
  next
    case False
    then obtain rc where rc: "r = Some rc" "Logs rc \<noteq> []" by (cases r) auto
    from assms(1) obtain set_start where st: "SetStartBlock (Opt pol) = Some set_start" "\<And>n. calm asked trouble (set_start n)"
      unfolding options_ok_def by blast
    have mw: "calm asked trouble (RunBeforePushMiddleware pol (pd_Tx v) (pd_Timestamp v) rc)"
      unfolding RunBeforePushMiddleware_def by (rule calm_middleware) (use assms(1) in \<open>auto simp: options_ok_def\<close>)
    obtain ok w2 where ok: "RunBeforePushMiddleware pol (pd_Tx v) (pd_Timestamp v) rc w1 = (Ret ok, w2)" "?Q w1 w2" using mw by (rule calmE)
    obtain r' w3 where r': "ReceiptDistribution env pol (pd_Tx v) (pd_Timestamp v) rc w2 = (Ret r', w3)" "?Q w2 w3"
      using calm_distribution [OF assms(1)] by (rule calmE)
    obtain u w4 where "set_start (ToUint64 env (r_BlockNumber r')) w3 = (Ret u, w4)" "?Q w3 w4" using st(2) by (rule calmE)
    with f rc ok r' st(1) r(2) show ?thesis by (cases ok) (auto simp: push_entry_def run_simps intro: keeps_trans)
  qed
qed

text \<open>A push returns, and if it leaves anything in the map, a receipt was missing.\<close>

lemma push_total:
  assumes "options_ok asked trouble env p pol" and "receipts_ok asked trouble pol"
  shows "\<exists>d' w'. push env pol (\<lambda>_. True) d w = (Ret d', w') \<and> keeps asked trouble w w' \<and> (d' \<noteq> [] \<longrightarrow> trouble w' < trouble w)"
proof (induction d arbitrary: w)
  case (Cons e d)
  obtain key v where e: "e = (key, v)" by (cases e)
  from push_entry_total [OF assms] obtain kept w1 where k: "push_entry env pol v w = (Ret kept, w1)" "keeps asked trouble w w1"
    "kept \<noteq> None \<longrightarrow> trouble w1 < trouble w" by blast
  from Cons.IH [of w1] obtain d' w2 where d': "push env pol (\<lambda>_. True) d w1 = (Ret d', w2)" "keeps asked trouble w1 w2"
    "d' \<noteq> [] \<longrightarrow> trouble w2 < trouble w1" by blast
  have "trouble w1 \<le> trouble w" "trouble w2 \<le> trouble w1" using k(2) d'(2) by (simp_all add: keeps_def)
  with k d' e show ?case by (cases kept) (auto simp: run_simps intro: keeps_trans)
qed (simp add: run_simps)

lemma drain_total:
  assumes "options_ok asked trouble env p pol" and "receipts_ok asked trouble pol"
  shows "trouble w < fuel \<Longrightarrow> \<exists>w'. drain fuel env pol d w = (Ret (Some ()), w') \<and> keeps asked trouble w w'"
proof (induction fuel arbitrary: d w)
  case (Suc fuel)
  show ?case
  proof (cases d)
    case (Cons e es)
    from push_total [OF assms] obtain d' w1 where d': "push env pol (\<lambda>_. True) d w = (Ret d', w1)" "keeps asked trouble w w1"
      "d' \<noteq> [] \<longrightarrow> trouble w1 < trouble w" by blast
    have "\<exists>w'. drain fuel env pol d' w1 = (Ret (Some ()), w') \<and> keeps asked trouble w1 w'"
    proof (cases d')
      case (Cons e' es')
      with Suc d' show ?thesis by (intro Suc.IH) simp
    qed (simp add: run_simps)
    with d' Cons show ?thesis by (auto intro: keeps_trans)
  qed (simp add: run_simps)
qed simp

lemma calm_collect:
  assumes "\<And>n. calm asked trouble (eth_BlockByNumber client n)" and "sub_metrics p = Some m" and "calm asked trouble (ScanTxTotal m chain [])"
  shows "calm asked trouble (collect client p chain bn d vs)"
proof (induction vs arbitrary: bn d)
  case (Cons v vs)
  have bt: "calm asked trouble (bindP (block_time client n) (\<lambda>(result, err). case (err, result) of
      (Some _, _) \<Rightarrow> returnP None | (None, None) \<Rightarrow> panicP ''interface conversion'' | (None, Some t) \<Rightarrow> returnP (Some ((n, t) # bn))))" for n
    unfolding calm_def
  proof
    fix w
    have "max_try [10] > 0" by (simp add: max_try_def)
    with assms(1) obtain x e r w' where "TryReturn (eth_BlockByNumber client (sint n)) [10] w = (Ret r, w')"
      "keeps asked trouble w w'" "r = (Some x, None) \<or> r = (None, Some e)" by (rule calm_TryReturn)
    then show "\<exists>x w'. bindP (block_time client n) (\<lambda>(result, err). case (err, result) of
      (Some _, _) \<Rightarrow> returnP None | (None, None) \<Rightarrow> panicP ''interface conversion'' | (None, Some t) \<Rightarrow> returnP (Some ((n, t) # bn))) w = (Ret x, w') \<and>
        keeps asked trouble w w'" by (auto simp: block_time_def run_simps)
  qed
  show ?case unfolding collect.simps
  proof (rule calm_bind, goal_cases)
    case 1
    show ?case using bt by (cases "map_of bn (l_BlockNumber v)") (simp_all only: option.case calm_return)
  next
    case (2 cache)
    show ?case using Cons assms(2,3) by (cases cache) (auto simp: Let_def intro!: calm_bind)
  qed
qed simp

text \<open>Ranges that follow each other from \<open>s\<close> to \<open>e\<close>, each beginning where the one before ended.\<close>

fun chained :: "nat \<Rightarrow> (int \<times> int) list \<Rightarrow> nat \<Rightarrow> bool" where
  "chained s [] e \<longleftrightarrow> s = e"
| "chained s ((f, t) # rs) e \<longleftrightarrow> f = int s \<and> f < t \<and> t \<le> f + 500 \<and> chained (nat t) rs e"

lemma chained_Cons: "s < m \<Longrightarrow> m \<le> s + 500 \<Longrightarrow> chained m rs e \<Longrightarrow> chained s ((int s, int m) # rs) e"
  by simp

lemma chained_span: "chained s rs e \<Longrightarrow> list_all (\<lambda>(f, t). t - f \<le> 500) rs"
  by (induction s rs e rule: chained.induct) auto

lemma chained_cover: "chained s rs e \<Longrightarrow> s \<le> b \<Longrightarrow> b \<le> e \<Longrightarrow> s < e \<Longrightarrow> \<exists>(f, t) \<in> set rs. f \<le> int b \<and> int b \<le> t"
proof (induction s rs e rule: chained.induct)
  case (2 s f t rs e)
  show ?case
  proof (cases "int b \<le> t")
    case False
    then have "\<exists>(f, t) \<in> set rs. f \<le> int b \<and> int b \<le> t" using "2.prems" by (intro "2.IH") auto
    then show ?thesis by auto
  qed (use "2.prems" in auto)
qed simp

lemma window_end_unat:
  fixes s e :: u64
  assumes "s < e"
  shows "unat (window_end s e) = min (unat s + 500) (unat e)"
proof -
  have le: "unat s \<le> unat e" using assms by (simp add: word_less_nat_alt)
  then have d: "unat (e - s) = unat e - unat s" by (simp add: unat_sub word_le_nat_alt)
  have 500: "unat (500 :: u64) = 500" by simp
  show ?thesis
  proof (cases "500 \<le> e - s")
    case True
    then have "unat s + 500 \<le> unat e" using d 500 le by (simp add: word_le_nat_alt)
    moreover have "unat e < 2 ^ 64" using unsigned_less [of e] by simp
    moreover have "unat (s + 500) = unat s + 500"
      using calculation by (simp add: unat_word_ariths)
    ultimately show ?thesis using True by (simp add: window_end_def)
  next
    case False
    then have "\<not> unat s + 500 \<le> unat e" using d 500 le by (simp add: word_le_nat_alt)
    with False show ?thesis by (simp add: window_end_def)
  qed
qed

lemma filterLogs_total:
  assumes node: "node_ok asked trouble lo hi client (query_addresses h pol)" and hi: "hi < 2 ^ 63"
    and opts: "options_ok asked trouble env p pol" "receipts_ok asked trouble pol"
  shows "hi - unat start + trouble w + 2 \<le> fuel \<Longrightarrow> \<exists>rs e w'. filterLogs fuel env client h p pol start d w = (Ret (Some ()), w') \<and>
    asked w' = asked w @ rs \<and> chained (unat start) rs e \<and> lo \<le> e \<and> e \<le> max (unat start) hi"
proof (induction fuel arbitrary: start d w)
  case (Suc fuel)
  let ?run = "filterLogs (Suc fuel) env client h p pol start d w"
  from node obtain n err w1 where n: "eth_BlockNumber client w = (Ret (n, err), w1)" "keeps asked trouble w w1"
    "if n = 0 then trouble w1 < trouble w else lo \<le> unat n \<and> unat n \<le> hi" unfolding node_ok_def by blast
  then have n': "asked w1 = asked w" "trouble w1 \<le> trouble w" by (simp_all add: keeps_def)
  consider (zero) "n = 0" | (reached) "n \<noteq> 0" "n \<le> start" | (more) "start < n" by fastforce
  then show ?case
  proof cases
    case zero
    with n n' Suc.prems Suc.IH [of start w1 d] show ?thesis by auto
  next
    case reached
    have "trouble w1 < fuel" using Suc.prems n' by simp
    from drain_total [OF opts this] obtain w' where "drain fuel env pol d w1 = (Ret (Some ()), w')" "keeps asked trouble w1 w'" by blast
    with reached n n' show ?thesis by (intro exI [of _ "[]"] exI [of _ "unat start"]) (auto simp: word_le_nat_alt keeps_def)
  next
    case more
    let ?e = "window_end start n"
    have e: "unat ?e = min (unat start + 500) (unat n)" using more by (rule window_end_unat)
    have nz: "n \<noteq> 0" "\<not> n \<le> start" using more by auto
    have lt: "unat start < unat ?e" "unat ?e \<le> hi" using more e n(3) nz(1) by (auto simp: word_less_nat_alt)
    then have "unat start < 2 ^ 63" "unat ?e < 2 ^ 63" using hi by simp_all
    then have si: "sint start = int (unat start)" "sint ?e = int (unat ?e)" by (simp_all only: sint_small)
    from node obtain logs er w2 where l: "eth_FilterLogs client (query_addresses h pol) (sint start) (sint ?e) w1 = (Ret (logs, er), w2)"
      "trouble w2 \<le> trouble w1" "case er of None \<Rightarrow> asked w2 = asked w1 @ [(sint start, sint ?e)] | Some _ \<Rightarrow> asked w2 = asked w1 \<and> trouble w2 < trouble w1"
      unfolding node_ok_def by blast
    show ?thesis
    proof (cases er)
      case (Some x)
      with l n n' nz have "?run = filterLogs fuel env client h p pol start d w2" by (simp add: Let_def)
      with Suc.IH [of start w2 d] Suc.prems Some l n' show ?thesis by auto
    next
      case None
      from opts(1) obtain m where m: "sub_metrics p = Some m" "calm asked trouble (ScanTxTotal m (Chain (Opt pol)) [])"
        unfolding options_ok_def by blast
      have "calm asked trouble (collect client p (Chain (Opt pol)) [] d logs)"
        by (rule calm_collect [OF _ m]) (use node in \<open>simp add: node_ok_def\<close>)
      then obtain d1 w3 where d1: "collect client p (Chain (Opt pol)) [] d logs w2 = (Ret d1, w3)" "keeps asked trouble w2 w3" by (rule calmE)
      from push_total [OF opts] obtain d2 w4 where d2: "push env pol (\<lambda>_. True) d1 w3 = (Ret d2, w4)" "keeps asked trouble w3 w4" by blast
      have "?run = filterLogs fuel env client h p pol ?e d2 w4" using None l n nz d1 d2 by (simp add: Let_def)
      moreover have w4: "asked w4 = asked w @ [(int (unat start), int (unat ?e))]" "trouble w4 \<le> trouble w"
        using None l n' d1(2) d2(2) si by (auto simp: keeps_def)
      have "hi - unat ?e + trouble w4 + 2 \<le> fuel" using Suc.prems w4(2) lt by simp
      from Suc.IH [OF this] obtain rs e' w' where "filterLogs fuel env client h p pol ?e d2 w4 = (Ret (Some ()), w')" "asked w' = asked w4 @ rs"
        "chained (unat ?e) rs e'" "lo \<le> e'" "e' \<le> max (unat ?e) hi" by blast
      moreover have "chained (unat start) ((int (unat start), int (unat ?e)) # rs) e'"
        by (rule chained_Cons [OF lt(1) _ \<open>chained (unat ?e) rs e'\<close>]) (simp add: e)
      moreover have "e' \<le> max (unat start) hi" using \<open>e' \<le> max (unat ?e) hi\<close> lt(2) by simp
      ultimately show ?thesis unfolding w4(1) by (metis append.assoc append_Cons append_Nil)
    qed
  qed
qed simp

section \<open>Properties\<close>

text \<open>C10. The catch-up of the subscription scanner terminates and misses no block. The node may answer with any
  logs, report any heights from \<open>lo\<close> to \<open>hi\<close> (below 2^63), growing or not, and fail: it may give no height, an error
  instead of logs, no receipt yet for a transaction, or no time for a block. \<open>trouble\<close> bounds how often the first three
  can still happen; every receipt that is asked for is read without an error, the functions of the options return, and
  the metrics of the embedded \<open>Polling\<close> are set if any callback prefix matches. Then with fuel for the blocks
  up to \<open>hi\<close> and the failures to come \<open>filterLogs\<close> returns, with no transaction left pending; the ranges it has got from the node
  follow each other from the start without a gap, each spanning at most 500 blocks, up to a height of at least
  \<open>lo\<close>, so that every block from the start to \<open>lo\<close> is in one of them. (Neighbouring ranges share their
  boundary block.)\<close>

theorem filterLogs_covers:
  assumes "node_ok asked trouble lo hi client (query_addresses h pol)" and "hi < 2 ^ 63"
    and "options_ok asked trouble env p pol" and "receipts_ok asked trouble pol"
    and "hi - unat start + trouble w + 2 \<le> fuel"
  shows "\<exists>rs e w'. filterLogs fuel env client h p pol start d w = (Ret (Some ()), w') \<and> asked w' = asked w @ rs \<and>
    chained (unat start) rs e \<and> lo \<le> e \<and> e \<le> max (unat start) hi \<and> list_all (\<lambda>(f, t). t - f \<le> 500) rs \<and>
    (\<forall>b. unat start < lo \<and> unat start \<le> b \<and> b \<le> lo \<longrightarrow> (\<exists>(f, t) \<in> set rs. f \<le> int b \<and> int b \<le> t))"
proof -
  from filterLogs_total [OF assms] obtain rs e w' where *: "filterLogs fuel env client h p pol start d w = (Ret (Some ()), w')"
    "asked w' = asked w @ rs" "chained (unat start) rs e" "lo \<le> e" "e \<le> max (unat start) hi" by blast
  have "list_all (\<lambda>(f, t). t - f \<le> 500) rs" using chained_span [OF *(3)] .
  moreover have "\<exists>(f, t) \<in> set rs. f \<le> int b \<and> int b \<le> t" if "unat start < lo" "unat start \<le> b" "b \<le> lo" for b
    using chained_cover [OF *(3), of b] that *(4) by simp
  ultimately show ?thesis using * by blast
qed

definition idle_client :: "u64 \<Rightarrow> (int \<times> int) list EthClient" where
  "idle_client head = \<lparr>eth_BlockNumber = returnP (head, None),
     eth_FilterLogs = (\<lambda>_ f t w. (Ret ([], None), w @ [(f, t)])), eth_BlockByNumber = (\<lambda>_. returnP (0, None)),
     eth_SubscribeFilterLogs = (\<lambda>_. returnP None), eth_Unsubscribe = returnP ()\<rparr>"

text \<open>
  A node that first fails with a height of zero, then with an error, and then answers every range with a log of the
  test transaction; the world is the ranges it has answered and the failures to come.
\<close>

definition shaky_client :: "((int \<times> int) list \<times> nat) EthClient" where
  "shaky_client = \<lparr>eth_BlockNumber = (\<lambda>(rs, k). (Ret (if k = 2 then 0 else 1001, None), (rs, if k = 2 then 1 else k))),
     eth_FilterLogs = (\<lambda>_ f t (rs, k). if k = 0 then (Ret ([\<lparr>l_TxHash = ''1'', l_BlockNumber = 7\<rparr>], None), (rs @ [(f, t)], 0))
       else (Ret ([], Some ''timeout''), (rs, k - 1))),
     eth_BlockByNumber = (\<lambda>_. returnP (0, None)), eth_SubscribeFilterLogs = (\<lambda>_. returnP None), eth_Unsubscribe = returnP ()\<rparr>"

theorem filterLogs_covers_witness:
  "let pol = \<lparr>Opt = test_options, metrics = Some FakeMetrics\<rparr>; p = \<lparr>sub_Polling = Some pol, sub_metrics = Some FakeMetrics, wss = []\<rparr> in
   \<exists>rs w'. filterLogs 1005 quiet_env shaky_client id p pol 0 [] ([], 2) = (Ret (Some ()), w') \<and> fst w' = rs \<and>
     chained 0 rs 1001 \<and> (\<exists>(f, t) \<in> set rs. f \<le> 600 \<and> 600 \<le> t)"
proof -
  let ?pol = "\<lparr>Opt = test_options, metrics = Some FakeMetrics\<rparr> :: ((int \<times> int) list \<times> nat) Polling"
  let ?p = "\<lparr>sub_Polling = Some ?pol, sub_metrics = Some FakeMetrics, wss = []\<rparr>"
  have n: "node_ok fst snd 1001 1001 shaky_client (query_addresses id ?pol)"
    by (auto simp: node_ok_def shaky_client_def keeps_def)
  have o: "options_ok fst snd quiet_env ?p ?pol" by (auto simp: options_ok_def test_options_def FakeMetrics_def quiet_env_def)
  have r: "receipts_ok fst snd ?pol" by (auto simp: receipts_ok_def test_options_def MockChainIo_def receipt1_def run_simps)
  from filterLogs_covers [OF n _ o r, of 0 "([], 2)" 1005 "[]"] obtain rs e w' where
    *: "filterLogs 1005 quiet_env shaky_client id ?p ?pol 0 [] ([], 2) = (Ret (Some ()), w')" "fst w' = rs" "chained 0 rs e" "1001 \<le> e" "e \<le> 1001"
    "\<forall>b. b \<le> 1001 \<longrightarrow> (\<exists>(f, t) \<in> set rs. f \<le> int b \<and> int b \<le> t)" by auto
  have "\<exists>(f, t) \<in> set rs. f \<le> 600 \<and> 600 \<le> t" using *(6) [rule_format, of 600] by simp
  moreover have "e = 1001" using *(4,5) by simp
  ultimately show ?thesis using *(1-3) unfolding Let_def by blast
qed

text \<open>C30. The subscription scanner panics at its first callback. \<open>SetMetrics\<close> on a \<open>Subscribe\<close> sets
  only its own field; the embedded \<open>Polling\<close> created by \<open>Init\<close> keeps nil metrics, so as soon
  as a receipt names a registered contract with a matching callback prefix, pushing it
  dereferences nil.\<close>

theorem subscribe_panics_on_dispatch:
  assumes "Subscribe_Init env opt (Subscribe_SetMetrics m new_Subscribe) = (None, p)"
    and "sub_Polling p = Some pol" and "ChainIo opt = Some io" and "GetCallbackFunc opt = Some g"
    and "ReceiptLog io (pd_Tx v) w = (Ret (Some r, None), w1)"
    and "RunBeforePushMiddleware pol (pd_Tx v) (pd_Timestamp v) r w1 = (Ret True, w2)"
    and "g (pd_Tx v) (pd_Timestamp v) (r\<lparr>Logs := keep_first log_key {} (Logs r)\<rparr>) w2 = (Ret cb, w3)"
    and "\<forall>l \<in> set (Logs r). CHR ''_'' \<notin> set (Address l)" and "dispatched opt (Logs r) \<noteq> []"
  shows "push_entry env pol v w = (Panicked nil_deref, w3)"
proof -
  have pol: "metrics pol = None" "Opt pol = opt"
    using Subscribe_Init_metrics [OF assms(1)] assms(2) by auto
  have "Logs r \<noteq> []" using assms(9) by (auto simp: dispatched_def map_filter_simps)
  moreover have "fetch_receipt pol (pd_Tx v) w = (Ret (Some r), w1)"
    using pol assms(3,5) by (intro fetch_receipt_ok) auto
  moreover have "ReceiptDistribution env pol (pd_Tx v) (pd_Timestamp v) r w2 = (Panicked nil_deref, w3)"
    using pol assms(4,7,8,9) by (intro distribution_nil_metrics [of pol r g _ _ w2 cb w3]) simp_all
  ultimately show ?thesis using assms(6) by (simp add: push_entry_def)
qed

theorem subscribe_panics_on_dispatch_witness:
  "let env = (quiet_env :: unit env)\<lparr>Getenv := (\<lambda>_. ''wss://node'')\<rparr>;
       p = Subscribe_SetMetrics (Some FakeMetrics) new_Subscribe;
       pol = \<lparr>Opt = test_options, metrics = None\<rparr>;
       v = \<lparr>pd_Receipts = None, pd_Tx = ''1'', pd_Timestamp = 7, pd_BlockNumber = 1\<rparr>
   in fst (Subscribe_Init env test_options p) = None \<and>
      sub_Polling (snd (Subscribe_Init env test_options p)) = Some pol \<and>
      dispatched (Opt pol) (Logs receipt1) = [''Fake''] \<and>
      push_entry env pol v () = (Panicked nil_deref, ())"
proof -
  let ?env = "(quiet_env :: unit env)\<lparr>Getenv := (\<lambda>_. ''wss://node'')\<rparr>"
  let ?p = "Subscribe_SetMetrics (Some FakeMetrics) new_Subscribe :: unit Subscribe"
  let ?pol = "\<lparr>Opt = test_options, metrics = None\<rparr> :: unit Polling"
  let ?v = "\<lparr>pd_Receipts = None, pd_Tx = ''1'', pd_Timestamp = 7, pd_BlockNumber = 1\<rparr>"
  let ?q = "?p\<lparr>wss := ''wss://node'', sub_Polling := Some ?pol\<rparr>"
  have low: "ToLower ''222'' = ''222''" "EqualFold ''Fake'' (ToLower ''fake'')" by code_simp+
  have d: "dispatched test_options (Logs receipt1) = [''Fake'']"
    using low by (simp add: dispatched_def receipt1_def test_options_def matching_prefix_def
        contract_name_def map_filter_simps)
  have i: "Subscribe_Init ?env test_options ?p = (None, ?q)"
    by (simp add: Subscribe_Init_def Subscribe_SetMetrics_def new_Subscribe_def new_Polling_def
        Polling_Init_def Let_def HasPrefix_def Check_def test_options_def)
  have u: "CHR ''_'' \<notin> set (Address l)" if "l \<in> set (Logs receipt1)" for l
    using that by (simp add: receipt1_def)
  have k: "receipt1\<lparr>Logs := keep_first log_key {} (Logs receipt1)\<rparr> = receipt1" by (simp add: receipt1_def)
  define g where "g = the (GetCallbackFunc (test_options :: unit ScanEventsOptions))"
  have g: "GetCallbackFunc test_options = Some g" by (simp add: g_def test_options_def)
  have "push_entry ?env ?pol ?v () = (Panicked nil_deref, ())"
  proof (rule subscribe_panics_on_dispatch [OF i _ _ g])
    show "ReceiptLog MockChainIo (pd_Tx ?v) () = (Ret (Some receipt1, None), ())"
      by (simp add: MockChainIo_def run_simps)
    show "RunBeforePushMiddleware ?pol (pd_Tx ?v) (pd_Timestamp ?v) receipt1 () = (Ret True, ())"
      by (simp add: RunBeforePushMiddleware_def test_options_def run_simps)
    show "g (pd_Tx ?v) (pd_Timestamp ?v) (receipt1\<lparr>Logs := keep_first log_key {} (Logs receipt1)\<rparr>) () =
        (Ret (Some (\<lambda>name. if name = ''FakeCallback'' then Some (returnP [CbNil]) else None)), ())"
      by (simp add: g_def test_options_def returnP_apply)
    show "\<forall>l \<in> set (Logs receipt1). CHR ''_'' \<notin> set (Address l)" using u by blast
    show "dispatched test_options (Logs receipt1) \<noteq> []" by (simp add: d)
  qed (simp_all add: test_options_def)
  with i d show ?thesis by (simp add: Let_def)
qed

text \<open>C23. The map of pending transactions stays a map, and nothing leaves it early: whatever the
  select statement receives without returning, its keys stay distinct, only the
  transaction of an arriving log can be added, and an entry leaves only in a tick at which
  it is older than the configured delay.\<close>

theorem pending_transactions_kept:
  assumes "distinct (map fst d)" and "wipe_event env client p pol waitTime d ev w = (Ret (Inr d'), w')"
  shows "distinct (map fst d') \<and>
    fst ` set d' \<subseteq> fst ` set d \<union> (case ev of LogArrived l \<Rightarrow> {l_TxHash l} | _ \<Rightarrow> {}) \<and>
    (\<forall>e \<in> set d. e \<in> set d' \<or> (\<exists>now. ev = Tick now \<and> due waitTime now (snd e)))"
proof (cases ev)
  case (Tick now)
  show ?thesis
  proof (cases "d = []")
    case True
    with Tick assms(2) show ?thesis by (simp add: run_simps)
  next
    case False
    with Tick assms(2) have "push env pol (due waitTime now) d w = (Ret d', w')"
      by (auto simp: bindP_def run_simps split: prod.splits outcome.splits)
    then have keys: "subseq (map fst d') (map fst d)" "\<forall>e \<in> set d. \<not> due waitTime now (snd e) \<longrightarrow> e \<in> set d'"
      by (simp_all add: push_keys)
    have "fst ` set d' \<subseteq> fst ` set d"
      using subseq_keys [OF keys(1)] by auto
    with keys assms(1) Tick show ?thesis by (auto intro: subseq_distinct)
  qed
qed (use assms in \<open>auto simp: bindP_def run_simps Let_def map_of_eq_None_iff
      split: prod.splits outcome.splits option.splits if_splits\<close>)

definition young :: "string \<times> pending" where
  "young = (''0xa'', \<lparr>pd_Receipts = None, pd_Tx = ''0xa'', pd_Timestamp = 95, pd_BlockNumber = 0\<rparr>)"

theorem pending_transactions_kept_witness:
  "\<not> due 60000000000 100 (snd young) \<and>
   wipe_event quiet_env (idle_client 9) new_Subscribe new_Polling 60000000000 [young] (Tick 100) [] = (Ret (Inr [young]), []) \<and>
   distinct (map fst [young]) \<and> fst ` set [young] = {''0xa''}"
proof -
  have n: "\<not> due 60000000000 100 (snd young)" by code_simp
  then have r: "wipe_event quiet_env (idle_client 9) new_Subscribe new_Polling 60000000000 [young] (Tick 100) [] =
      (Ret (Inr [young]), [])"
    by (simp add: run_simps young_def)
  have "distinct (map fst [young])" by simp
  from pending_transactions_kept [OF this r] n r show ?thesis by (simp add: young_def)
qed

end
