(* ===== verification/Start_Scan.thy ===== *)
theory Start_Scan
  imports Subscribe_Scan
begin

text \<open>
  \<open>StartScanChainEvents\<close> (src/scan.go): the choice of a scanner, its initialisation, and the
  restart after a failure when \<open>RunForever\<close> is set. A scanner is one of the two
  implementations of the interface \<open>services.Scan\<close>. As \<open>WipeBlock\<close> may run forever, its
  possible results form a relation, and so do those of \<open>StartScanChainEvents\<close>: an execution
  that never returns has no result. Each start has its own transaction channel here; that restarts
  share one is the subject of \<open>Polling_Restart\<close>.
\<close>

section \<open>The scanners\<close>

datatype 'w scan_instance = InstPolling "'w Polling" | InstSubscribe "'w Subscribe"

definition SUBSCRIBE :: string where
  "SUBSCRIBE = ''subscribe''"

definition POLLING :: string where
  "POLLING = ''polling''"

definition new_instance :: "string \<Rightarrow> 'w scan_instance option" where
  "new_instance scanType =
     (if scanType = SUBSCRIBE then Some (InstSubscribe new_Subscribe)
      else if scanType = POLLING then Some (InstPolling new_Polling)
      else None)"

fun instance_SetMetrics :: "'w Metrics option \<Rightarrow> 'w scan_instance \<Rightarrow> 'w scan_instance" where
  "instance_SetMetrics m (InstPolling p) = InstPolling (SetMetrics m p)"
| "instance_SetMetrics m (InstSubscribe p) = InstSubscribe (Subscribe_SetMetrics m p)"

fun instance_Init :: "'w env \<Rightarrow> 'w ScanEventsOptions \<Rightarrow> 'w scan_instance \<Rightarrow> error option \<times> 'w scan_instance" where
  "instance_Init env opt (InstPolling p) = (let (err, p') = Polling_Init opt p in (err, InstPolling p'))"
| "instance_Init env opt (InstSubscribe p) = (let (err, p') = Subscribe_Init env opt p in (err, InstSubscribe p'))"

text \<open>
  The results of \<open>WipeBlock\<close>. The polling scanner returns when its producer does, panics when
  it unwinds, and the process ends when the consumer panics. For the subscription scanner
  any fuel and any sequence of events may lead to a result.
\<close>

inductive instance_WipeBlock :: "'w env \<Rightarrow> (string \<Rightarrow> ('w, error + 'w EthClient) prog) \<Rightarrow> (string \<Rightarrow> string) \<Rightarrow>
    'w scan_instance \<Rightarrow> 'w \<Rightarrow> error option outcome \<Rightarrow> 'w \<Rightarrow> bool" for env dial hexToAddress where
  polling_return: "(scan_step env p)\<^sup>*\<^sup>* (scan_init w) s \<Longrightarrow> alive s \<Longrightarrow> producer s = PReturned \<Longrightarrow>
     instance_WipeBlock env dial hexToAddress (InstPolling p) w (Ret None) (world s)"
| polling_unwind: "(scan_step env p)\<^sup>*\<^sup>* (scan_init w) s \<Longrightarrow> alive s \<Longrightarrow> producer s = PUnwinding e \<Longrightarrow>
     instance_WipeBlock env dial hexToAddress (InstPolling p) w (Panicked e) (world s)"
| polling_exit: "(scan_step env p)\<^sup>*\<^sup>* (scan_init w) s \<Longrightarrow> \<not> alive s \<Longrightarrow>
     instance_WipeBlock env dial hexToAddress (InstPolling p) w (Exited x) (world s)"
| subscribe_return: "Subscribe_WipeBlock fuel env dial hexToAddress p events w = (Ret (Some err), w') \<Longrightarrow>
     instance_WipeBlock env dial hexToAddress (InstSubscribe p) w (Ret err) w'"
| subscribe_panic: "Subscribe_WipeBlock fuel env dial hexToAddress p events w = (Panicked e, w') \<Longrightarrow>
     instance_WipeBlock env dial hexToAddress (InstSubscribe p) w (Panicked e) w'"
| subscribe_exit: "Subscribe_WipeBlock fuel env dial hexToAddress p events w = (Exited x, w') \<Longrightarrow>
     instance_WipeBlock env dial hexToAddress (InstSubscribe p) w (Exited x) w'"

section \<open>Starting and restarting\<close>

definition log_start :: "'w env \<Rightarrow> zlevel \<Rightarrow> string \<Rightarrow> ('w, unit) prog" where
  "log_start env level msg = bindP (outByLog (NewZap env) level msg (LogPkg env)) (\<lambda>_. returnP ())"

text \<open>\<open>util.Panic(instance.WipeBlock(ctx))\<close>: an error becomes a panic.\<close>

fun panic_on_error :: "error option outcome \<Rightarrow> error option outcome" where
  "panic_on_error (Ret (Some e)) = Panicked e"
| "panic_on_error out = out"

definition restart_message :: "'w ScanEventsOptions \<Rightarrow> string \<Rightarrow> string" where
  "restart_message opt e = ''run '' @ Chain opt @ '' WipeBlock error: '' @ e @ ''. restarting...''"

definition unknown_message :: "string \<Rightarrow> string" where
  "unknown_message scanType = ''not implement '' @ [CHR 0x27] @ scanType @ [CHR 0x27] @ '' type''"

text \<open>
  The recovering function discards the result of the new start, and the recovered call gives
  the zero error. A scanner type that is not known leaves the interface nil after logging.
\<close>

inductive StartScanChainEvents :: "'w env \<Rightarrow> (string \<Rightarrow> ('w, error + 'w EthClient) prog) \<Rightarrow> (string \<Rightarrow> string) \<Rightarrow>
    'w Metrics option \<Rightarrow> string \<Rightarrow> 'w ScanEventsOptions \<Rightarrow> 'w \<Rightarrow> error option outcome \<Rightarrow> 'w \<Rightarrow> bool"
  for env dial hexToAddress mets scanType where
  unknown_type: "new_instance scanType = (None :: 'w scan_instance option) \<Longrightarrow>
     bindP (log_start env PanicLevel (unknown_message scanType)) (\<lambda>_. panicP nil_deref) w = (out, w') \<Longrightarrow>
     StartScanChainEvents env dial hexToAddress mets scanType opt w out w'"
| check_error: "new_instance scanType = Some (i :: 'w scan_instance) \<Longrightarrow> Check opt = (Some e, opt') \<Longrightarrow>
     StartScanChainEvents env dial hexToAddress mets scanType opt w (Ret (Some e)) w"
| init_error: "new_instance scanType = Some i \<Longrightarrow> Check opt = (None, opt') \<Longrightarrow>
     instance_Init env opt' (instance_SetMetrics mets i) = (Some e, i') \<Longrightarrow>
     StartScanChainEvents env dial hexToAddress mets scanType opt w (Ret (Some e)) w"
| run_once: "new_instance scanType = Some i \<Longrightarrow> Check opt = (None, opt') \<Longrightarrow>
     instance_Init env opt' (instance_SetMetrics mets i) = (None, i') \<Longrightarrow> \<not> RunForever opt' \<Longrightarrow>
     instance_WipeBlock env dial hexToAddress i' w out w' \<Longrightarrow>
     StartScanChainEvents env dial hexToAddress mets scanType opt w out w'"
| run_forever: "new_instance scanType = Some i \<Longrightarrow> Check opt = (None, opt') \<Longrightarrow>
     instance_Init env opt' (instance_SetMetrics mets i) = (None, i') \<Longrightarrow> RunForever opt' \<Longrightarrow>
     instance_WipeBlock env dial hexToAddress i' w out w' \<Longrightarrow> (\<nexists>e. panic_on_error out = Panicked e) \<Longrightarrow>
     StartScanChainEvents env dial hexToAddress mets scanType opt w out w'"
| restart_log: "new_instance scanType = Some i \<Longrightarrow> Check opt = (None, opt') \<Longrightarrow>
     instance_Init env opt' (instance_SetMetrics mets i) = (None, i') \<Longrightarrow> RunForever opt' \<Longrightarrow>
     instance_WipeBlock env dial hexToAddress i' w out w1 \<Longrightarrow> panic_on_error out = Panicked e \<Longrightarrow>
     bindP (log_start env ErrorLevel (restart_message opt' e)) (\<lambda>_. returnP None) w1 = (out', w2) \<Longrightarrow> (\<nexists>r. out' = Ret r) \<Longrightarrow>
     StartScanChainEvents env dial hexToAddress mets scanType opt w out' w2"
| restart: "new_instance scanType = Some i \<Longrightarrow> Check opt = (None, opt') \<Longrightarrow>
     instance_Init env opt' (instance_SetMetrics mets i) = (None, i') \<Longrightarrow> RunForever opt' \<Longrightarrow>
     instance_WipeBlock env dial hexToAddress i' w out w1 \<Longrightarrow> panic_on_error out = Panicked e \<Longrightarrow>
     log_start env ErrorLevel (restart_message opt' e) w1 = (Ret (), w2) \<Longrightarrow>
     StartScanChainEvents env dial hexToAddress mets scanType opt' w2 out' w3 \<Longrightarrow>
     StartScanChainEvents env dial hexToAddress mets scanType opt w
       (case out' of Ret _ \<Rightarrow> Ret None | _ \<Rightarrow> out') w3"

inductive_cases StartScanE: "StartScanChainEvents env dial hexToAddress mets scanType opt w out w'"

section \<open>The interface of a scanner\<close>

text \<open>
  What \<open>StartScanChainEvents\<close> relies on: an \<open>Init\<close> that succeeds has checked the options and
  kept them. The consequence is that \<open>WipeBlock\<close> never runs with a nil accessor.
\<close>

locale scan_backend =
  fixes Init :: "'w ScanEventsOptions \<Rightarrow> 'i \<Rightarrow> error option \<times> 'i"
    and options_of :: "'i \<Rightarrow> 'w ScanEventsOptions option"
  assumes Init_checks: "Init opt i = (None, i') \<Longrightarrow> fst (Check opt) = None"
    and Init_keeps: "Init opt i = (None, i') \<Longrightarrow> options_of i' = Some opt"
begin

lemma Init_complete:
  assumes "Init opt i = (None, i')"
  shows "\<exists>o'. options_of i' = Some o' \<and> ChainIo o' \<noteq> None \<and> GetStartBlock o' \<noteq> None \<and>
    SetStartBlock o' \<noteq> None \<and> GetCallbackFunc o' \<noteq> None \<and> ContractsName o' \<noteq> []"
  using Init_checks [OF assms] Init_keeps [OF assms] by (auto simp: Check_def split: if_splits)

end

fun instance_options :: "'w scan_instance \<Rightarrow> 'w ScanEventsOptions option" where
  "instance_options (InstPolling p) = Some (Opt p)"
| "instance_options (InstSubscribe p) = map_option Opt (sub_Polling p)"

interpretation polling_backend: scan_backend Polling_Init "\<lambda>p. Some (Opt p)"
  by unfold_locales (auto simp: Polling_Init_def)

interpretation subscribe_backend: scan_backend "Subscribe_Init env" "\<lambda>p. map_option Opt (sub_Polling p)" for env
  by unfold_locales (auto simp: Subscribe_Init_def Polling_Init_def Let_def split: if_splits)

interpretation instance_backend: scan_backend "instance_Init env" instance_options for env
proof
  fix opt :: "'a ScanEventsOptions" and i i' :: "'a scan_instance"
  assume "instance_Init env opt i = (None, i')"
  then show "fst (Check opt) = None" "instance_options i' = Some opt"
    using polling_backend.Init_checks polling_backend.Init_keeps
      subscribe_backend.Init_checks [of env] subscribe_backend.Init_keeps [of env]
    by (cases i; fastforce split: prod.splits)+
qed

lemma Check_idem: "Check opt = (None, opt') \<Longrightarrow> Check opt' = (None, opt') \<and> RunForever opt' = RunForever opt"
  by (auto simp: Check_def Second_def split: if_splits)

section \<open>Properties\<close>

text \<open>C40. No scanner runs on incomplete options: whichever scanner is chosen, once its \<open>Init\<close> has
  succeeded the options it holds have a chain interface, both start-block accessors, a
  callback getter and at least one contract.\<close>

theorem initialised_scanner_complete:
  assumes "instance_Init env opt (instance_SetMetrics m i) = (None, i')"
  shows "\<exists>o'. instance_options i' = Some o' \<and> ChainIo o' \<noteq> None \<and> GetStartBlock o' \<noteq> None \<and>
    SetStartBlock o' \<noteq> None \<and> GetCallbackFunc o' \<noteq> None \<and> ContractsName o' \<noteq> []"
  using assms by (rule instance_backend.Init_complete)

theorem initialised_scanner_complete_witness:
  "\<exists>o'. instance_options (InstPolling (\<lparr>Opt = test_options, metrics = None\<rparr> :: unit Polling)) = Some o' \<and>
     ChainIo o' \<noteq> None \<and> GetStartBlock o' \<noteq> None \<and> SetStartBlock o' \<noteq> None \<and> GetCallbackFunc o' \<noteq> None \<and>
     ContractsName o' \<noteq> []"
  by (rule initialised_scanner_complete [of quiet_env test_options None "InstPolling new_Polling"])
     (simp add: SetMetrics_def Polling_Init_def new_Polling_def Check_def test_options_def)

text \<open>C11. With \<open>RunForever\<close> a scan ends only by a regular end: if the options pass and the scanner
  initialises, then however often \<open>WipeBlock\<close> fails or panics in between, the only results of
  \<open>StartScanChainEvents\<close> are nil, given after a run of \<open>WipeBlock\<close> on the same scanner that
  itself returned nil, and the end of the process. The logger is assumed to return.\<close>

theorem run_forever_results:
  assumes "StartScanChainEvents env dial h mets scanType opt w out w'"
    and "new_instance scanType = Some i" and "Check opt = (None, opt')" and "RunForever opt"
    and "instance_Init env opt' (instance_SetMetrics mets i) = (None, i')"
    and "\<And>msg w. \<exists>w'. log_start env ErrorLevel msg w = (Ret (), w')"
  shows "(\<exists>w1. instance_WipeBlock env dial h i' w1 out w') \<and> (out = Ret None \<or> (\<exists>x. out = Exited x))"
  using assms(1-5)
proof (induction rule: StartScanChainEvents.induct)
  case (run_forever j opt opt'' i'' w out w')
  then have "instance_WipeBlock env dial h i' w out w'" by simp
  moreover have "out = Ret None \<or> (\<exists>x. out = Exited x)"
    using run_forever.hyps(6) by (cases out rule: panic_on_error.cases) auto
  ultimately show ?case by blast
next
  case (restart_log j opt opt'' i'' w out w1 e out' w2)
  obtain w3 where "log_start env ErrorLevel (restart_message opt'' e) w1 = (Ret (), w3)"
    using assms(6) by blast
  with restart_log.hyps(7,8) show ?case by (auto simp: run_simps)
next
  case (restart j opt opt'' i'' w out w1 e w2 out' w3)
  then have "Check opt'' = (None, opt'')" "RunForever opt''" using Check_idem by auto
  with restart show ?case by auto
qed (auto dest: Check_idem)

text \<open>A run in which the context is cancelled at once.\<close>

definition forever_options :: "'w ScanEventsOptions" where
  "forever_options = test_options\<lparr>RunForever := True, SleepTime := Second * 5\<rparr>"

lemma cancelled_polling_returns: "instance_WipeBlock env dial h (InstPolling p) w (Ret None) w"
proof -
  let ?s = "(scan_init w)\<lparr>ctxDone := True\<rparr>" and ?t = "(scan_init w)\<lparr>ctxDone := True, producer := PReturned\<rparr>"
  have a: "scan_step env p (scan_init w) ?s" by (rule cancel)
  have b: "scan_step env p ?s ?t"
    using p_done [of ?s env p] by (simp add: scan_init_def)
  have "(scan_step env p)\<^sup>*\<^sup>* (scan_init w) ?t" using a b by (rule converse_rtranclp_into_rtranclp [OF _ r_into_rtranclp])
  then have "instance_WipeBlock env dial h (InstPolling p) w (Ret None) (world ?t)"
    by (rule polling_return) (simp_all add: scan_init_def)
  then show ?thesis by (simp add: scan_init_def)
qed

theorem run_forever_results_witness:
  "\<exists>out w'. StartScanChainEvents quiet_env (\<lambda>_. returnP (Inl [])) id (Some FakeMetrics) POLLING forever_options () out w' \<and>
     (out = Ret None \<or> (\<exists>x. out = Exited x))"
proof -
  let ?p = "\<lparr>Opt = forever_options, metrics = Some FakeMetrics\<rparr> :: unit Polling"
  let ?i = "InstPolling new_Polling :: unit scan_instance"
  have i: "new_instance POLLING = Some ?i" by (simp add: new_instance_def POLLING_def SUBSCRIBE_def)
  have c: "Check forever_options = (None, forever_options :: unit ScanEventsOptions)"
    by (simp add: Check_def forever_options_def test_options_def Second_def)
  have n: "instance_Init quiet_env forever_options (instance_SetMetrics (Some FakeMetrics) ?i) = (None, InstPolling ?p)"
    by (simp add: SetMetrics_def Polling_Init_def new_Polling_def c)
  have f: "RunForever (forever_options :: unit ScanEventsOptions)" by (simp add: forever_options_def)
  have l: "\<exists>w'. log_start quiet_env ErrorLevel msg w = (Ret (), w')" for msg and w :: unit
    by (simp add: log_start_def quiet_env_def outByLog_init log_init_def InitLog_def quiet_zap_def zero_pkg_def run_simps)
  have s: "StartScanChainEvents quiet_env (\<lambda>_. returnP (Inl [])) id (Some FakeMetrics) POLLING forever_options () (Ret None) ()"
    by (rule run_forever [OF i c n f cancelled_polling_returns]) simp
  show ?thesis using run_forever_results [OF s i c f n l] s by blast
qed

text \<open>An unknown scan type never starts and never returns an error: the call logs at panic
  level, which need not panic, and then fails on the nil scanner.\<close>

theorem unknown_scan_type_panics:
  assumes "scanType \<noteq> SUBSCRIBE" and "scanType \<noteq> POLLING"
    and "\<And>msg w. \<exists>w'. log_start env PanicLevel msg w = (Ret (), w')"
    and "StartScanChainEvents env dial h mets scanType opt w out w'"
  shows "out = Panicked nil_deref"
proof -
  obtain w1 where "log_start env PanicLevel (unknown_message scanType) w = (Ret (), w1)"
    using assms(3) by blast
  with assms(4,1,2) show ?thesis
    by (cases rule: StartScanChainEvents.cases) (simp_all add: bindP_def panicP_def new_instance_def)
qed

theorem unknown_scan_type_panics_witness:
  "\<exists>out w'. StartScanChainEvents quiet_env (\<lambda>_. returnP (Inl [])) id None ''push'' (test_options :: unit ScanEventsOptions) () out w' \<and>
     out = Panicked nil_deref"
proof -
  have l: "\<exists>w'. log_start quiet_env PanicLevel msg w = (Ret (), w')" for msg and w :: unit
    by (simp add: log_start_def quiet_env_def outByLog_init log_init_def InitLog_def quiet_zap_def zero_pkg_def run_simps)
  obtain out w' where "bindP (log_start quiet_env PanicLevel (unknown_message ''push''))
      (\<lambda>_. panicP nil_deref) () = (out :: error option outcome, w')" by (rule prod.exhaust)
  then have s: "StartScanChainEvents quiet_env (\<lambda>_. returnP (Inl [])) id None ''push'' (test_options :: unit ScanEventsOptions) () out w'"
    by (rule unknown_type [rotated]) (simp add: new_instance_def SUBSCRIBE_def POLLING_def)
  show ?thesis using unknown_scan_type_panics [OF _ _ l s] s by (auto simp: SUBSCRIBE_def POLLING_def)
qed

end
