(* ===== verification/Polling_Restart.thy ===== *)
theory Polling_Restart
  imports Start_Scan
begin

text \<open>
  The polling scanner across restarts (src/scan.go and src/scan/scan.go). The channel \<open>newTxn\<close> is
  a variable of the package and the context is the caller's, so when a panic of the producer makes
  \<open>StartScanChainEvents\<close> start again, the transactions in the channel are still there, and so is
  the goroutine that the earlier \<open>WipeBlock\<close> has started to consume them. The state is that of
  \<open>Polling_Wipe\<close>, for the current start, with the consumers of the earlier ones; every consumer
  takes its steps as there, a round of its loop being one step on the world and the channel. The restarted scanner has the same options: they passed \<open>Check\<close>
  before, and \<open>Check\<close> changes nothing a second time.
\<close>

section \<open>State and steps\<close>

record 'w scan_process =
  sp_now :: "'w scan_state"
  sp_old :: "consumer_pc list"
  sp_restarts :: nat

definition process_init :: "'w \<Rightarrow> 'w scan_process" where
  "process_init w = \<lparr>sp_now = scan_init w, sp_old = [], sp_restarts = 0\<rparr>"

text \<open>The state as an earlier consumer sees it, and after a step that was taken in this view.\<close>

definition old_view :: "nat \<Rightarrow> 'w scan_process \<Rightarrow> 'w scan_state" where
  "old_view k s = (sp_now s)\<lparr>consumer := sp_old s ! k\<rparr>"

definition old_update :: "nat \<Rightarrow> 'w scan_state \<Rightarrow> 'w scan_process \<Rightarrow> 'w scan_process" where
  "old_update k t s = s\<lparr>sp_now := t\<lparr>consumer := consumer (sp_now s)\<rparr>, sp_old := (sp_old s)[k := consumer t]\<rparr>"

definition restarted :: "'w \<Rightarrow> 'w scan_process \<Rightarrow> 'w scan_process" where
  "restarted w s = s\<lparr>sp_now := (sp_now s)\<lparr>producer := PTop, currentBlockNum := 0, consumer := CSelect, world := w\<rparr>,
     sp_old := sp_old s @ [consumer (sp_now s)], sp_restarts := Suc (sp_restarts s)\<rparr>"

inductive process_step :: "'w env \<Rightarrow> 'w Polling \<Rightarrow> 'w scan_process \<Rightarrow> 'w scan_process \<Rightarrow> bool" for env p where
  now: "scan_step env p (sp_now s) t \<Longrightarrow> process_step env p s (s\<lparr>sp_now := t\<rparr>)"
| old: "k < length (sp_old s) \<Longrightarrow> scan_step env p (old_view k s) t \<Longrightarrow> process_step env p s (old_update k t s)"
| again: "RunForever (Opt p) \<Longrightarrow> alive (sp_now s) \<Longrightarrow> producer (sp_now s) = PUnwinding e \<Longrightarrow>
     log_start env ErrorLevel (restart_message (Opt p) e) (world (sp_now s)) = (Ret (), w) \<Longrightarrow>
     process_step env p s (restarted w s)"

inductive_cases process_stepE: "process_step env p s t"

section \<open>Lemmas\<close>

text \<open>The accounting of \<open>Polling_Wipe\<close> with further transactions \<open>X\<close> in other hands.\<close>

definition account :: "Tnx multiset \<Rightarrow> 'w scan_state \<Rightarrow> bool" where
  "account X s \<longleftrightarrow> length (newTxn s) \<le> newTxn_cap \<and>
     (alive s \<longrightarrow> mset (sent (history s)) =
        mset (newTxn s) + mset (in_hand (consumer s)) + mset (finished (history s)) + X)"

lemma account_step: "account X s \<Longrightarrow> scan_step env p s t \<Longrightarrow> account X t"
  by (erule scan_stepE) (auto simp: account_def)

lemma account_swap:
  "account (X + mset (in_hand a)) (s\<lparr>consumer := b\<rparr>) \<longleftrightarrow> account (X + mset (in_hand b)) (s\<lparr>consumer := a\<rparr>)"
  by (auto simp: account_def ac_simps)

definition held :: "consumer_pc list \<Rightarrow> Tnx multiset" where
  "held cs = mset (concat (map in_hand cs))"

definition process_inv :: "'w scan_process \<Rightarrow> bool" where
  "process_inv s \<longleftrightarrow> account (held (sp_old s)) (sp_now s) \<and> length (sp_old s) = sp_restarts s \<and>
     (\<not> ctxDone (sp_now s) \<longrightarrow> CStopped \<notin> set (consumer (sp_now s) # sp_old s))"

lemma step_not_stopped:
  "scan_step env p s t \<Longrightarrow> (ctxDone s \<longrightarrow> ctxDone t) \<and> (\<not> ctxDone t \<longrightarrow> consumer s \<noteq> CStopped \<longrightarrow> consumer t \<noteq> CStopped)"
  by (erule scan_stepE) auto

lemma held_update: "k < length cs \<Longrightarrow> held (cs[k := c]) = held (cs[k := CSelect]) + mset (in_hand c)"
  using mset_concat_update [of k "cs[k := CSelect]" in_hand c] by (simp add: held_def)

lemma process_inv_old:
  assumes "process_inv s" and "k < length (sp_old s)" and "scan_step env p (old_view k s) t"
  shows "process_inv (old_update k t s)"
proof -
  let ?c = "consumer (sp_now s)" and ?o = "sp_old s"
  define Y where "Y = held (?o[k := CSelect])"
  have now: "(sp_now s)\<lparr>consumer := ?c\<rparr> = sp_now s" "t\<lparr>consumer := consumer t\<rparr> = t" by simp_all
  have "held ?o = Y + mset (in_hand (?o ! k))"
    using held_update [OF assms(2), of "?o ! k"] by (simp only: Y_def list_update_id)
  then have "account (Y + mset (in_hand (?o ! k))) ((sp_now s)\<lparr>consumer := ?c\<rparr>)"
    using assms(1) now(1) unfolding process_inv_def by (simp only:)
  then have "account (Y + mset (in_hand ?c)) (old_view k s)" unfolding old_view_def account_swap [of Y "?o ! k"] .
  from account_step [OF this assms(3)] have "account (Y + mset (in_hand ?c)) (t\<lparr>consumer := consumer t\<rparr>)" using now(2) by simp
  then have "account (Y + mset (in_hand (consumer t))) (t\<lparr>consumer := ?c\<rparr>)" unfolding account_swap [of Y ?c] .
  moreover have "held (?o[k := consumer t]) = Y + mset (in_hand (consumer t))" 
    unfolding Y_def by (rule held_update [OF assms(2)])
  moreover have "CStopped \<notin> set (?c # ?o[k := consumer t])" if "\<not> ctxDone t"
  proof -
    have d: "\<not> ctxDone (sp_now s)" using step_not_stopped [OF assms(3)] that by (auto simp: old_view_def)
    then have "CStopped \<notin> set (?c # ?o)" using assms(1) by (simp add: process_inv_def)
    then have "?o ! k \<noteq> CStopped" using assms(2) by (metis list.set_intros(2) nth_mem)
    then have "consumer t \<noteq> CStopped" using step_not_stopped [OF assms(3)] that by (simp add: old_view_def)
    with \<open>CStopped \<notin> set (?c # ?o)\<close> show ?thesis by (auto dest!: set_update_subset_insert [THEN subsetD])
  qed
  ultimately show ?thesis using assms(1) by (simp add: process_inv_def old_update_def)
qed

lemma process_inv_step:
  assumes "process_inv s" and "process_step env p s t"
  shows "process_inv t"
  using assms(2)
proof cases
  case (now t)
  with assms(1) account_step [OF _ now(2)] step_not_stopped [OF now(2)] show ?thesis by (auto simp: process_inv_def)
next
  case (old k t)
  then show ?thesis using process_inv_old [OF assms(1)] by simp
next
  case (again e w)
  with assms(1) show ?thesis by (auto simp: process_inv_def restarted_def account_def held_def ac_simps)
qed

interpretation process_sys: step_system "\<lambda>s. \<exists>w. s = process_init w" "process_step env p" process_inv for env p
proof unfold_locales
  show "process_inv s" if "\<exists>w. s = process_init w" for s
    using that by (auto simp: process_inv_def process_init_def scan_init_def account_def held_def)
qed (rule process_inv_step)

section \<open>Properties\<close>

text \<open>C4. No transaction is lost or duplicated between the goroutines of the polling scanner however often
  it is restarted: while the process runs, the transactions sent by all producers so far are, as a
  multiset, those in the channel, which the restarts share, those that the consumers of all starts
  hold for re-sending, and those they have finished with. But every restart leaves one more consumer
  behind: there are as many earlier consumers as there were restarts, and none of them ends before
  the context does.\<close>

theorem restarts_keep_transactions:
  assumes "(process_step env p)\<^sup>*\<^sup>* (process_init w) s"
  shows "(alive (sp_now s) \<longrightarrow> mset (sent (history (sp_now s))) =
      mset (newTxn (sp_now s)) + mset (concat (map in_hand (consumer (sp_now s) # sp_old s))) + mset (finished (history (sp_now s)))) \<and>
    length (newTxn (sp_now s)) \<le> newTxn_cap \<and> length (sp_old s) = sp_restarts s \<and>
    (\<not> ctxDone (sp_now s) \<longrightarrow> CStopped \<notin> set (sp_old s))"
proof -
  have "process_inv s" by (rule process_sys.inv_reachable [OF _ assms]) blast
  then show ?thesis by (auto simp: process_inv_def account_def held_def ac_simps)
qed

text \<open>A chain whose height cannot be read: the producer panics at once.\<close>

definition broken_polling :: "unit Polling" where
  "broken_polling = \<lparr>Opt = forever_options\<lparr>ChainIo := Some (MockChainIo\<lparr>BlockNumber := panicP ''no node''\<rparr>)\<rparr>, metrics = Some FakeMetrics\<rparr>"

theorem restarts_keep_transactions_witness:
  "\<exists>s. (process_step quiet_env broken_polling)\<^sup>*\<^sup>* (process_init ()) s \<and> sp_restarts s = 1 \<and> length (sp_old s) = 1 \<and>
     CStopped \<notin> set (sp_old s)"
proof -
  let ?s = "process_init ()"
  let ?t = "?s\<lparr>sp_now := (scan_init ())\<lparr>producer := PUnwinding ''no node''\<rparr>\<rparr>"
  obtain w where w: "log_start quiet_env ErrorLevel (restart_message (Opt broken_polling) ''no node'') () = (Ret (), w)"
    by (simp add: log_start_def quiet_env_def outByLog_init log_init_def InitLog_def quiet_zap_def zero_pkg_def run_simps)
  have "poll broken_polling 0 () = (Panicked ''no node'', ())"
    by (simp add: poll_def broken_polling_def run_simps)
  then have "scan_step quiet_env broken_polling (scan_init ()) ((scan_init ())\<lparr>producer := PUnwinding ''no node''\<rparr>)"
    using p_poll_panic [of "scan_init ()" broken_polling "''no node''" "()" quiet_env] by (simp add: scan_init_def)
  then have a: "process_step quiet_env broken_polling ?s ?t"
    using now [of quiet_env broken_polling ?s] by (simp add: process_init_def)
  have b: "process_step quiet_env broken_polling ?t (restarted w ?t)"
  proof (rule again)
    show "RunForever (Opt broken_polling)" by (simp add: broken_polling_def forever_options_def)
    show "log_start quiet_env ErrorLevel (restart_message (Opt broken_polling) ''no node'') (world (sp_now ?t)) = (Ret (), w)" using w by simp
  qed (simp_all add: scan_init_def)
  have r: "(process_step quiet_env broken_polling)\<^sup>*\<^sup>* (process_init ()) (restarted w ?t)"
    using a b by (rule converse_rtranclp_into_rtranclp [OF _ r_into_rtranclp])
  have "sp_restarts (restarted w ?t) = 1" "\<not> ctxDone (sp_now (restarted w ?t))"
    by (simp_all add: restarted_def process_init_def scan_init_def)
  with r restarts_keep_transactions [OF r] show ?thesis by auto
qed

section \<open>The recorded start block\<close>

text \<open>
  A chain of two blocks with a transaction each; the first has no receipt yet. The world is the
  start block that is recorded outside the process.
\<close>

definition late_io :: "u64 ChainIo" where
  "late_io = MockChainIo\<lparr>BlockNumber := returnP 2,
     ReceiptLog := (\<lambda>tx. returnP (if tx = ''b'' then Some (receipt1\<lparr>r_BlockNumber := ''2''\<rparr>) else None, None)),
     FilterTrans := (\<lambda>i _. returnP ([if i = 1 then ''a'' else ''b''], [''222''], 5, [''222'']))\<rparr>"

definition late_polling :: "u64 Polling" where
  "late_polling = \<lparr>Opt = test_options\<lparr>ChainIo := Some late_io, InitBlock := 0, GetStartBlock := Some (\<lambda>w. (Ret w, w)),
     SetStartBlock := Some (\<lambda>n w. (Ret (), n))\<rparr>, metrics = Some FakeMetrics\<rparr>"

definition late_env :: "u64 env" where
  "late_env = quiet_env\<lparr>ToUint64 := (\<lambda>s. if s = ''2'' then 2 else 0)\<rparr>"

definition late_txn :: "string \<Rightarrow> Tnx" where
  "late_txn tx = \<lparr>Tx = tx, BlockTimestamp = 5, Contract = ''222''\<rparr>"

lemma late_calls:
  "poll late_polling 0 0 = (Ret (Some (0, 2)), 0)" "poll late_polling 0 2 = (Ret (Some (2, 2)), 2)" "poll late_polling 2 2 = (Ret (Some (2, 2)), 2)"
  "filter_block late_polling 1 w = (Ret ([''a''], [''222''], 5, [''222'']), w)"
  "filter_block late_polling 2 w = (Ret ([''b''], [''222''], 5, [''222'']), w)"
  "handle_txn late_env late_polling (late_txn ''a'') w = (Ret Requeue, w)"
  by (simp_all add: poll_def filter_block_def handle_txn_def late_polling_def late_io_def late_txn_def MockChainIo_def run_simps)

lemma late_distributed: "handle_txn late_env late_polling (late_txn ''b'') 0 = (Ret Distributed, 2)"
  by code_simp

text \<open>Both blocks are sent, the first transaction goes back to the end of the channel, the second is finished.\<close>

definition late_state :: "u64 scan_state" where
  "late_state = (scan_init 2)\<lparr>newTxn := [late_txn ''a''], producer := PSend [] 2 2,
     history := [Filtered 1, Sent (late_txn ''a''), Filtered 2, Sent (late_txn ''b''), Requeued (late_txn ''a''), Finished (late_txn ''b'') Distributed]\<rparr>"

lemma late_run: "(scan_step late_env late_polling)\<^sup>*\<^sup>* (scan_init 0) late_state"
proof -
  let ?r = "scan_step late_env late_polling"
  let ?st = "\<lambda>ch pc h. (scan_init 0 :: u64 scan_state)\<lparr>newTxn := ch, producer := pc, history := h\<rparr>"
  let ?a = "late_txn ''a''" and ?b = "late_txn ''b''"
  let ?h = "[Filtered 1, Sent ?a, Filtered 2, Sent ?b]"
  note st = scan_init_def late_calls block_sends_def late_txn_def newTxn_cap_def
  have 1: "?r (scan_init 0) (?st [] (PBlock 1 2) [])"
    using p_scan [of "scan_init 0" late_polling 0 2 0 late_env] by (simp add: st)
  have 2: "?r (?st [] (PBlock 1 2) []) (?st [] (PSend [Some ?a] 1 2) [Filtered 1])"
    using p_filter [of "?st [] (PBlock 1 2) []" 1 2 late_polling "[''a'']" "[''222'']" 5 "[''222'']" 0 late_env] by (simp add: st)
  have 3: "?r (?st [] (PSend [Some ?a] 1 2) [Filtered 1]) (?st [?a] (PSend [] 1 2) [Filtered 1, Sent ?a])"
    using p_send [of "?st [] (PSend [Some ?a] 1 2) [Filtered 1]" ?a "[]" 1 2 late_env late_polling] by (simp add: st)
  have 4: "?r (?st [?a] (PSend [] 1 2) [Filtered 1, Sent ?a]) (?st [?a] (PBlock 2 2) [Filtered 1, Sent ?a])"
    using p_block_end [of "?st [?a] (PSend [] 1 2) [Filtered 1, Sent ?a]" 1 2 late_env late_polling] by (simp add: st)
  have 5: "?r (?st [?a] (PBlock 2 2) [Filtered 1, Sent ?a]) (?st [?a] (PSend [Some ?b] 2 2) [Filtered 1, Sent ?a, Filtered 2])"
    using p_filter [of "?st [?a] (PBlock 2 2) [Filtered 1, Sent ?a]" 2 2 late_polling "[''b'']" "[''222'']" 5 "[''222'']" 0 late_env] by (simp add: st)
  have 6: "?r (?st [?a] (PSend [Some ?b] 2 2) [Filtered 1, Sent ?a, Filtered 2]) (?st [?a, ?b] (PSend [] 2 2) ?h)"
    using p_send [of "?st [?a] (PSend [Some ?b] 2 2) [Filtered 1, Sent ?a, Filtered 2]" ?b "[]" 2 2 late_env late_polling] by (simp add: st)
  have 7: "?r (?st [?a, ?b] (PSend [] 2 2) ?h) ((?st [?b] (PSend [] 2 2) ?h)\<lparr>consumer := CResend ?a\<rparr>)"
    using c_requeue [of "?st [?a, ?b] (PSend [] 2 2) ?h" ?a "[?b]" late_env late_polling 0] by (simp add: scan_init_def late_calls)
  have 8: "?r ((?st [?b] (PSend [] 2 2) ?h)\<lparr>consumer := CResend ?a\<rparr>) (?st [?b, ?a] (PSend [] 2 2) (?h @ [Requeued ?a]))"
    using c_resend [of "(?st [?b] (PSend [] 2 2) ?h)\<lparr>consumer := CResend ?a\<rparr>" ?a late_env late_polling] by (simp add: scan_init_def newTxn_cap_def)
  have 9: "?r (?st [?b, ?a] (PSend [] 2 2) (?h @ [Requeued ?a])) late_state"
    using c_finish [of "?st [?b, ?a] (PSend [] 2 2) (?h @ [Requeued ?a])" ?b "[?a]" late_env late_polling Distributed 2] late_distributed
    by (simp add: scan_init_def late_state_def)
  note steps = converse_rtranclp_into_rtranclp [of ?r]
  show ?thesis by (rule steps [OF 1 steps [OF 2 steps [OF 3 steps [OF 4 steps [OF 5 steps [OF 6 steps [OF 7 steps [OF 8 r_into_rtranclp [of ?r, OF 9]]]]]]]]])
qed

text \<open>A process that starts at the recorded block has nothing to scan.\<close>

definition nothing_left :: "u64 scan_state \<Rightarrow> bool" where
  "nothing_left s \<longleftrightarrow> newTxn s = [] \<and> consumer s \<in> {CSelect, CStopped} \<and> producer s \<in> {PTop, PReturned} \<and> world s = 2 \<and>
     currentBlockNum s \<in> {0, 2} \<and> history s = []"

lemma nothing_left_step: "nothing_left s \<Longrightarrow> scan_step late_env late_polling s t \<Longrightarrow> nothing_left t"
  by (erule scan_stepE) (auto simp: nothing_left_def late_calls)

interpretation late_sys: step_system "\<lambda>s. s = scan_init 2" "scan_step late_env late_polling" nothing_left
proof unfold_locales
  show "nothing_left s" if "s = scan_init 2" for s using that by (simp add: nothing_left_def scan_init_def)
qed (rule nothing_left_step)

text \<open>C26. The recorded start block does not wait for the transactions before it. There is a chain on which the
  scanner reaches a state where the transaction of block 1 is still waiting in the channel, as its
  receipt was not there yet, while the start block has been set to 2 for the transaction after it;
  if the process ends here, a new one starts at the recorded block and, whatever it does, never
  filters block 1 and never sends that transaction again: it is lost.\<close>

theorem checkpoint_skips_pending:
  "\<exists>(env :: u64 env) p s t. (scan_step env p)\<^sup>*\<^sup>* (scan_init 0) s \<and> alive s \<and> newTxn s = [t] \<and> t \<notin> set (finished (history s)) \<and>
     filtered (history s) = [1, 2] \<and> world s = 2 \<and>
     (\<lambda>s'. (filtered (history s'), sent (history s'))) ` {s'. (scan_step env p)\<^sup>*\<^sup>* (scan_init (world s)) s'} = {([], [])}"
proof -
  have run: "(scan_step late_env late_polling)\<^sup>*\<^sup>* (scan_init 0) late_state" by (rule late_run)
  have "history s' = []" if "(scan_step late_env late_polling)\<^sup>*\<^sup>* (scan_init 2) s'" for s'
    using late_sys.inv_reachable [OF refl that] by (simp add: nothing_left_def)
  then have "(\<lambda>s'. (filtered (history s'), sent (history s'))) ` {s'. (scan_step late_env late_polling)\<^sup>*\<^sup>* (scan_init 2) s'} = {([], [])}"
    by (auto intro!: image_eqI [of _ _ "scan_init 2"] simp: scan_init_def)
  with run show ?thesis
    by (intro exI [of _ late_env] exI [of _ late_polling] exI [of _ late_state] exI [of _ "late_txn ''a''"])
      (simp add: late_state_def scan_init_def filtered_def finished_def List.map_filter_def late_txn_def)
qed

end
