(* ===== verification/Scan_Pool.thy ===== *)
theory Scan_Pool
  imports Polling_Restart
begin

text \<open>
  What the polling scanner promises its application, as an abstract pool of transactions, and the
  refinement of the scanner (src/scan/scan.go, with the restarts of src/scan.go) to it. The pool has
  no channel, no goroutines, no blocks and no chain: a transaction is submitted, waits, and is retired
  once with a result; the process may go down, and then at most the transaction that was being
  handled is missing. Requeueing, receiving and restarting are invisible in it.
\<close>

section \<open>The pool\<close>

record pool =
  submitted :: "Tnx multiset"
  waiting :: "Tnx multiset"
  retired :: "(Tnx \<times> txn_result) list"
  down :: bool

definition pool_init :: pool where
  "pool_init = \<lparr>submitted = {#}, waiting = {#}, retired = [], down = False\<rparr>"

inductive pool_step :: "pool \<Rightarrow> pool \<Rightarrow> bool" where
  submit: "\<not> down a \<Longrightarrow> pool_step a (a\<lparr>submitted := add_mset t (submitted a), waiting := add_mset t (waiting a)\<rparr>)"
| retire: "\<not> down a \<Longrightarrow> waiting a = add_mset t ts \<Longrightarrow> r \<noteq> Requeue \<Longrightarrow>
     pool_step a (a\<lparr>waiting := ts, retired := retired a @ [(t, r)]\<rparr>)"
| crash: "\<not> down a \<Longrightarrow> waiting a = ts + lost \<Longrightarrow> size lost \<le> 1 \<Longrightarrow> pool_step a (a\<lparr>waiting := ts, down := True\<rparr>)"

inductive_cases pool_stepE: "pool_step a b"

definition pool_inv :: "pool \<Rightarrow> bool" where
  "pool_inv a \<longleftrightarrow> (\<exists>lost. submitted a = waiting a + mset (map fst (retired a)) + lost \<and> size lost \<le> 1 \<and> (\<not> down a \<longrightarrow> lost = {#})) \<and>
     Requeue \<notin> snd ` set (retired a)"

interpretation pool_sys: step_system "\<lambda>a. a = pool_init" pool_step pool_inv
proof unfold_locales
  show "pool_inv b" if "pool_inv a" "pool_step a b" for a b
    using that(2,1) by cases (auto simp: pool_inv_def ac_simps)
qed (simp add: pool_inv_def pool_init_def)

section \<open>The scanner as a pool\<close>

definition results :: "scan_event list \<Rightarrow> (Tnx \<times> txn_result) list" where
  "results h = List.map_filter (\<lambda>e. case e of Finished t r \<Rightarrow> Some (t, r) | _ \<Rightarrow> None) h"

lemma results_simps [simp]:
  "results [] = []"
  "results (h @ [e]) = results h @ (case e of Finished t r \<Rightarrow> [(t, r)] | _ \<Rightarrow> [])"
  by (auto simp: results_def List.map_filter_def split: scan_event.splits)

lemma map_fst_results: "map fst (results h) = finished h"
  by (induction h rule: rev_induct) (auto split: scan_event.splits)

text \<open>The state of one start, with the transactions \<open>X\<close> in other hands.\<close>

definition pool_view :: "Tnx multiset \<Rightarrow> 'w scan_state \<Rightarrow> pool" where
  "pool_view X s = \<lparr>submitted = mset (sent (history s)), waiting = mset (newTxn s) + mset (in_hand (consumer s)) + X,
     retired = results (history s), down = (\<not> alive s)\<rparr>"

definition pool_of :: "'w scan_process \<Rightarrow> pool" where
  "pool_of s = pool_view (held (sp_old s)) (sp_now s)"

lemma pool_view_step:
  assumes "scan_step env p s t"
  shows "pool_step\<^sup>*\<^sup>* (pool_view X s) (pool_view X t)"
proof -
  have one: "?thesis" if "pool_step (pool_view X s) a" "a = pool_view X t" for a using that by blast
  have crash: "?thesis" if "alive s" "\<not> alive t" "waiting (pool_view X s) = waiting (pool_view X t) + lost" "size lost \<le> 1"
    "history t = history s" for lost
    using one [OF pool_step.crash [of "pool_view X s" "waiting (pool_view X t)" lost]] that by (simp add: pool_view_def)
  from assms show ?thesis
  proof cases
    case (p_send x ts i n)
    then show ?thesis using one [OF pool_step.submit [of "pool_view X s" x]] by (simp add: pool_view_def)
  next
    case (c_finish x ts r w)
    then show ?thesis using one [OF pool_step.retire [of "pool_view X s" x "mset ts + mset (in_hand (consumer s)) + X" r]]
      by (simp add: pool_view_def)
  next
    case (c_crash x ts out w)
    then show ?thesis by (intro crash [of "{#x#}"]) (simp_all add: pool_view_def)
  next
    case (p_poll_exit x w)
    then show ?thesis by (intro crash [of "{#}"]) (simp_all add: pool_view_def)
  next
    case (p_filter_exit i n x w)
    then show ?thesis by (intro crash [of "{#}"]) (simp_all add: pool_view_def)
  qed (simp_all add: pool_view_def)
qed

lemma pool_view_swap:
  "pool_view (X + mset (in_hand a)) (s\<lparr>consumer := b\<rparr>) = pool_view (X + mset (in_hand b)) (s\<lparr>consumer := a\<rparr>)"
  by (simp add: pool_view_def ac_simps)

lemma pool_of_old:
  assumes "k < length (sp_old s)"
  defines "X \<equiv> held ((sp_old s)[k := CSelect]) + mset (in_hand (consumer (sp_now s)))"
  shows "pool_of s = pool_view X (old_view k s)" and "pool_of (old_update k t s) = pool_view X t"
proof -
  let ?Y = "held ((sp_old s)[k := CSelect])" and ?c = "consumer (sp_now s)"
  have "held (sp_old s) = ?Y + mset (in_hand (sp_old s ! k))"
    using held_update [OF assms(1), of "sp_old s ! k"] by (simp only: list_update_id)
  then have "pool_of s = pool_view (?Y + mset (in_hand (sp_old s ! k))) ((sp_now s)\<lparr>consumer := ?c\<rparr>)" by (simp add: pool_of_def)
  then show "pool_of s = pool_view X (old_view k s)" unfolding X_def old_view_def by (simp only: pool_view_swap [of _ "sp_old s ! k"])
  have "pool_of (old_update k t s) = pool_view (?Y + mset (in_hand (consumer t))) (t\<lparr>consumer := ?c\<rparr>)"
    by (simp add: pool_of_def old_update_def held_update [OF assms(1), of "consumer t"])
  also have "\<dots> = pool_view X (t\<lparr>consumer := consumer t\<rparr>)" unfolding X_def by (rule pool_view_swap)
  finally show "pool_of (old_update k t s) = pool_view X t" by simp
qed

lemma pool_of_step: "process_step env p s t \<Longrightarrow> pool_step\<^sup>*\<^sup>* (pool_of s) (pool_of t)"
proof (erule process_stepE)
  show ?thesis if "t = s\<lparr>sp_now := u\<rparr>" "scan_step env p (sp_now s) u" for u
    using pool_view_step [OF that(2)] that(1) by (simp add: pool_of_def)
  show ?thesis if "t = old_update k u s" "k < length (sp_old s)" "scan_step env p (old_view k s) u" for k u
    using pool_view_step [OF that(3)] that(1) by (simp only: pool_of_old [OF that(2)])
  show ?thesis if "t = restarted w s" for w
    using that by (simp add: pool_of_def pool_view_def restarted_def held_def ac_simps)
qed

interpretation process_pool: simulation "\<lambda>s. \<exists>w. s = process_init w" "process_step env p" process_inv
    pool_of "\<lambda>a. a = pool_init" pool_step for env p
proof unfold_locales
  show "pool_of s = pool_init" if "\<exists>w. s = process_init w" for s :: "'a scan_process"
    using that by (auto simp: pool_of_def pool_view_def process_init_def scan_init_def held_def pool_init_def)
qed (rule pool_of_step)

section \<open>Properties\<close>

text \<open>C1. The polling scanner implements a pool of transactions: whatever the chain and the application do, and
  however its goroutines interleave and it is restarted, every state of the process is, seen as a pool, a state
  that the abstract pool reaches by submitting transactions, retiring each waiting one once and for good, with
  a result that is not a requeueing, and going down at most once and with at most one transaction lost.\<close>

theorem scanner_refines_pool:
  assumes "(process_step env p)\<^sup>*\<^sup>* (process_init w) s"
  shows "pool_step\<^sup>*\<^sup>* pool_init (pool_of s) \<and>
    (\<exists>lost. mset (sent (history (sp_now s))) =
       waiting (pool_of s) + mset (finished (history (sp_now s))) + lost \<and> size lost \<le> (if alive (sp_now s) then 0 else 1))"
proof -
  have i: "\<exists>v. process_init w = process_init v" by blast
  have "pool_inv (pool_of s)" using process_pool.sim_invariant [OF pool_sys.step_system_axioms i assms] .
  then obtain lost where "mset (sent (history (sp_now s))) = waiting (pool_of s) + mset (finished (history (sp_now s))) + lost"
    "size lost \<le> 1" "alive (sp_now s) \<longrightarrow> lost = {#}"
    by (auto simp: pool_inv_def pool_of_def pool_view_def map_fst_results)
  moreover have "pool_step\<^sup>*\<^sup>* pool_init (pool_of s)" using process_pool.sim_reachable [OF i assms] by metis
  ultimately show ?thesis by auto
qed

lemma now_run: "(scan_step env p)\<^sup>*\<^sup>* a b \<Longrightarrow> (process_step env p)\<^sup>*\<^sup>* (s\<lparr>sp_now := a\<rparr>) (s\<lparr>sp_now := b\<rparr>)"
proof (induction rule: rtranclp_induct)
  case (step b c)
  then show ?case using process_step.now [of env p "s\<lparr>sp_now := b\<rparr>" c] by simp
qed simp

text \<open>The scanner with two transactions, of which one is retired and one waits for its receipt.\<close>

theorem scanner_refines_pool_witness:
  "\<exists>s. (process_step late_env late_polling)\<^sup>*\<^sup>* (process_init 0) s \<and> pool_step\<^sup>*\<^sup>* pool_init (pool_of s) \<and>
     pool_of s = \<lparr>submitted = {#late_txn ''a'', late_txn ''b''#}, waiting = {#late_txn ''a''#},
       retired = [(late_txn ''b'', Distributed)], down = False\<rparr>"
proof -
  let ?s = "(process_init 0)\<lparr>sp_now := late_state\<rparr>"
  have "(process_init (0 :: u64))\<lparr>sp_now := scan_init 0\<rparr> = process_init 0" by (simp add: process_init_def)
  then have r: "(process_step late_env late_polling)\<^sup>*\<^sup>* (process_init 0) ?s"
    using now_run [OF late_run, of "process_init 0"] by simp
  moreover have "pool_of ?s = \<lparr>submitted = {#late_txn ''a'', late_txn ''b''#}, waiting = {#late_txn ''a''#},
       retired = [(late_txn ''b'', Distributed)], down = False\<rparr>"
    by (simp add: pool_of_def pool_view_def late_state_def scan_init_def process_init_def held_def sent_def results_def List.map_filter_def)
  ultimately show ?thesis using scanner_refines_pool [OF r] by blast
qed

end
