(* ===== verification/Polling_Progress.thy ===== *)
theory Polling_Progress
  imports Polling_Wipe
begin

text \<open>
  When the goroutines of \<open>Polling.WipeBlock\<close> (src/scan/scan.go) make progress: which states they can
  be stuck in, that the end of the context does not free a producer that is sending, and that the
  consumer works through the channel, in its order, as long as the receipts are there.
\<close>

section \<open>Stuck states\<close>

definition producer_waits :: "'w scan_state \<Rightarrow> bool" where
  "producer_waits s \<longleftrightarrow> (case producer s of
     PSend (Some t # ts) i n \<Rightarrow> \<not> length (newTxn s) < newTxn_cap
   | PReturned \<Rightarrow> True
   | PUnwinding e \<Rightarrow> True
   | _ \<Rightarrow> False)"

definition consumer_waits :: "'w scan_state \<Rightarrow> bool" where
  "consumer_waits s \<longleftrightarrow> (case consumer s of
     CSelect \<Rightarrow> \<not> ctxDone s \<and> newTxn s = []
   | CResend t \<Rightarrow> \<not> length (newTxn s) < newTxn_cap
   | CStopped \<Rightarrow> True)"

definition stuck :: "'w env \<Rightarrow> 'w Polling \<Rightarrow> 'w scan_state \<Rightarrow> bool" where
  "stuck env p s \<longleftrightarrow> {t. scan_step env p s t} = {s\<lparr>ctxDone := True\<rparr>}"

lemma not_stuckI:
  assumes "scan_step env p s t"
    and "(alive t, producer t, consumer t, newTxn t) \<noteq> (alive s, producer s, consumer s, newTxn s) \<or> \<not> ctxDone t"
  shows "\<not> stuck env p s"
proof
  assume "stuck env p s"
  with assms(1) have "t = s\<lparr>ctxDone := True\<rparr>" by (auto simp: stuck_def)
  with assms(2) show False by simp
qed

lemma poll_moves:
  assumes "alive s" and "producer s = PTop"
  shows "\<not> stuck env p s"
proof (cases "ctxDone s")
  case True
  with assms show ?thesis by (intro not_stuckI [OF p_done]) simp_all
next
  case False
  obtain out w where o: "poll p (currentBlockNum s) (world s) = (out, w)" by (cases "poll p (currentBlockNum s) (world s)")
  show ?thesis
  proof (cases out)
    case (Ret r)
    show ?thesis
    proof (cases r)
      case None
      with Ret o False assms show ?thesis by (intro not_stuckI [OF p_wait]) simp_all
    next
      case (Some cn)
      then obtain c n where "r = Some (c, n)" by (cases cn) auto
      with Ret o False assms show ?thesis
        using not_stuckI [OF p_scan, of s p c n w env] not_stuckI [OF p_idle, of s p c n w env] by (cases "c < n") simp_all
    qed
  next
    case (Panicked e)
    with o False assms show ?thesis by (intro not_stuckI [OF p_poll_panic]) simp_all
  next
    case (Exited x)
    with o False assms show ?thesis by (intro not_stuckI [OF p_poll_exit]) simp_all
  qed
qed

lemma block_moves:
  assumes "alive s" and "producer s = PBlock i n"
  shows "\<not> stuck env p s"
proof (cases "i \<le> n")
  case True
  obtain out w where o: "filter_block p i (world s) = (out, w)" by (cases "filter_block p i (world s)")
  show ?thesis
  proof (cases out)
    case (Ret r)
    then obtain txIDs contracts ts to where "r = (txIDs, contracts, ts, to)" by (cases r) auto
    with Ret o True assms show ?thesis by (intro not_stuckI [OF p_filter [of s i n p txIDs contracts ts to w]]) simp_all
  next
    case (Panicked e)
    with o True assms show ?thesis by (intro not_stuckI [OF p_filter_panic]) simp_all
  next
    case (Exited x)
    with o True assms show ?thesis by (intro not_stuckI [OF p_filter_exit]) simp_all
  qed
next
  case False
  with assms show ?thesis by (intro not_stuckI [OF p_blocks_end]) simp_all
qed

lemma send_moves:
  assumes "alive s" and "producer s = PSend ts i n" and "\<not> producer_waits s"
  shows "\<not> stuck env p s"
proof (cases ts)
  case Nil
  with assms show ?thesis by (intro not_stuckI [OF p_block_end]) simp_all
next
  case (Cons x xs)
  show ?thesis
  proof (cases x)
    case None
    with Cons assms show ?thesis by (intro not_stuckI [OF p_send_index]) simp_all
  next
    case (Some t)
    with Cons assms show ?thesis by (intro not_stuckI [OF p_send]) (simp_all add: producer_waits_def)
  qed
qed

lemma consumer_moves:
  assumes "alive s" and "\<not> consumer_waits s"
  shows "\<not> stuck env p s"
proof (cases "consumer s")
  case CSelect
  with assms(2) consider "ctxDone s" | t ts where "newTxn s = t # ts" by (cases "newTxn s") (auto simp: consumer_waits_def)
  then show ?thesis
  proof cases
    case 1
    with CSelect assms(1) show ?thesis by (intro not_stuckI [OF c_stop]) simp_all
  next
    case (2 t ts)
    obtain out w where "handle_txn env p t (world s) = (out, w)" by (cases "handle_txn env p t (world s)")
    note o = this
    consider "out = Ret Requeue" | r where "out = Ret r" "r \<noteq> Requeue" | "\<nexists>r. out = Ret r" by blast
    then show ?thesis
    proof cases
      case 1
      with o 2 CSelect assms(1) show ?thesis by (intro not_stuckI [OF c_requeue [of s t ts env p w]]) simp_all
    next
      case (2 r)
      with o \<open>newTxn s = t # ts\<close> CSelect assms(1) show ?thesis by (intro not_stuckI [OF c_finish [of s t ts env p r w]]) simp_all
    next
      case 3
      with o 2 CSelect assms(1) show ?thesis by (intro not_stuckI [OF c_crash [of s t ts env p out w]]) simp_all
    qed
  qed
next
  case (CResend t)
  with assms show ?thesis by (intro not_stuckI [OF c_resend]) (simp_all add: consumer_waits_def)
qed (use assms(2) in \<open>simp add: consumer_waits_def\<close>)

lemma waiting_stuck:
  assumes "\<not> alive s \<or> producer_waits s \<and> consumer_waits s"
  shows "stuck env p s"
proof -
  have "t = s\<lparr>ctxDone := True\<rparr>" if "scan_step env p s t" for t
    using that assms by cases (auto simp: producer_waits_def consumer_waits_def)
  then show ?thesis unfolding stuck_def using cancel [of env p s] by blast
qed

lemma stuck_iff: "stuck env p s \<longleftrightarrow> \<not> alive s \<or> producer_waits s \<and> consumer_waits s"
proof (cases "producer s")
  case PTop
  with poll_moves [of s env p] waiting_stuck [of s env p] show ?thesis by (auto simp: producer_waits_def)
next
  case (PBlock i n)
  with block_moves [of s i n env p] waiting_stuck [of s env p] show ?thesis by (auto simp: producer_waits_def)
next
  case (PSend ts i n)
  with send_moves [of s ts i n env p] consumer_moves [of s env p] waiting_stuck [of s env p] show ?thesis by blast
qed (use consumer_moves [of s env p] waiting_stuck [of s env p] in \<open>auto simp: producer_waits_def\<close>)

section \<open>Draining the channel\<close>

text \<open>Every transaction is dealt with when it is received: its receipt is there, and nothing panics.\<close>

definition never_requeues :: "'w env \<Rightarrow> 'w Polling \<Rightarrow> bool" where
  "never_requeues env p \<longleftrightarrow> (\<forall>t w. \<exists>r w'. handle_txn env p t w = (Ret r, w') \<and> r \<noteq> Requeue)"

lemma drain_channel:
  "never_requeues env p \<Longrightarrow> alive s \<Longrightarrow> consumer s = CSelect \<Longrightarrow>
   \<exists>t. (scan_step env p)\<^sup>*\<^sup>* s t \<and> alive t \<and> newTxn t = [] \<and> consumer t = CSelect \<and> producer t = producer s \<and>
     finished (history t) = finished (history s) @ newTxn s"
proof (induction "newTxn s" arbitrary: s)
  case Nil
  then show ?case by (intro exI [of _ s]) simp
next
  case (Cons x xs)
  obtain r w where r: "handle_txn env p x (world s) = (Ret r, w)" "r \<noteq> Requeue" using Cons.prems(1) unfolding never_requeues_def by blast
  let ?u = "s\<lparr>newTxn := xs, world := w, history := history s @ [Finished x r]\<rparr>"
  have u: "scan_step env p s ?u" by (rule c_finish [OF Cons.prems(2,3) _ r]) (simp add: Cons.hyps(2) [symmetric])
  obtain t where "(scan_step env p)\<^sup>*\<^sup>* ?u t \<and> alive t \<and> newTxn t = [] \<and> consumer t = CSelect \<and> producer t = producer ?u \<and>
     finished (history t) = finished (history ?u) @ newTxn ?u"
    using Cons.hyps(1) [of ?u] Cons.prems by auto
  with u Cons.hyps(2) show ?case by (intro exI [of _ t]) (auto intro: converse_rtranclp_into_rtranclp)
qed

definition fifo_inv :: "'w scan_state \<Rightarrow> bool" where
  "fifo_inv s \<longleftrightarrow> sent (history s) = finished (history s) @ newTxn s \<and> consumer s \<in> {CSelect, CStopped} \<and>
     (consumer s = CStopped \<longrightarrow> ctxDone s)"

lemma never_requeuesD:
  "never_requeues env p \<Longrightarrow> handle_txn env p t w = (out, w') \<Longrightarrow> \<exists>r. out = Ret r \<and> r \<noteq> Requeue"
  unfolding never_requeues_def by (metis prod.inject)

lemma fifo_inv_step: "never_requeues env p \<Longrightarrow> fifo_inv s \<Longrightarrow> scan_step env p s t \<Longrightarrow> fifo_inv t"
  by (erule scan_stepE) (auto simp: fifo_inv_def dest: never_requeuesD)

interpretation fifo_sys: step_system "\<lambda>s. s = scan_init w" "scan_step env p" "\<lambda>s. never_requeues env p \<longrightarrow> fifo_inv s" for w env p
proof unfold_locales
  show "never_requeues env p \<longrightarrow> fifo_inv s" if "s = scan_init w" for s
    using that by (simp add: fifo_inv_def scan_init_def)
qed (auto intro: fifo_inv_step)

section \<open>Properties\<close>

text \<open>C32. The goroutines of the polling scanner can be stuck only on the full channel: if the process runs and
  \<open>WipeBlock\<close> has neither returned nor panicked, then no step but the cancellation of the context is possible
  exactly when the channel is full, the producer has a transaction to send, and the consumer is re-sending one
  or has stopped.\<close>

theorem polling_stuck_iff:
  assumes "alive s" and "\<And>e. producer s \<notin> {PReturned, PUnwinding e}"
  shows "{t. scan_step env p s t} = {s\<lparr>ctxDone := True\<rparr>} \<longleftrightarrow>
    newTxn_cap \<le> length (newTxn s) \<and> (\<exists>t ts i n. producer s = PSend (Some t # ts) i n) \<and> consumer s \<noteq> CSelect"
proof -
  have "producer_waits s \<longleftrightarrow> newTxn_cap \<le> length (newTxn s) \<and> (\<exists>t ts i n. producer s = PSend (Some t # ts) i n)"
    using assms(2) by (auto simp: producer_waits_def split: producer_pc.splits list.splits option.splits)
  moreover have "newTxn_cap \<le> length (newTxn s) \<Longrightarrow> consumer_waits s \<longleftrightarrow> consumer s \<noteq> CSelect"
    by (auto simp: consumer_waits_def newTxn_cap_def split: consumer_pc.splits)
  ultimately show ?thesis using stuck_iff [of env p s] assms(1) unfolding stuck_def by blast
qed

theorem polling_stuck_iff_witness:
  "\<exists>s. (scan_step quiet_env slow_polling)\<^sup>*\<^sup>* (scan_init ()) s \<and> {t. scan_step quiet_env slow_polling s t} = {s\<lparr>ctxDone := True\<rparr>}"
proof -
  obtain s where s: "(scan_step quiet_env slow_polling)\<^sup>*\<^sup>* (scan_init ()) s" "deadlocked s" "alive s" using slow_deadlock by blast
  then show ?thesis using polling_stuck_iff [of s quiet_env slow_polling] by (auto simp: deadlocked_def)
qed

lemma shutdown_hangs:
  "\<exists>(p :: unit Polling) s. (scan_step quiet_env p)\<^sup>*\<^sup>* (scan_init ()) s \<and> alive s \<and> ctxDone s \<and> consumer s = CStopped \<and>
     producer s \<noteq> PReturned \<and> {t. (scan_step quiet_env p)\<^sup>*\<^sup>* s t} = {s}"
proof -
  let ?r = "scan_step quiet_env slow_polling"
  let ?c = "slow_full\<lparr>ctxDone := True\<rparr>"
  let ?s = "slow_full\<lparr>consumer := CStopped, ctxDone := True\<rparr>"
  have "?r slow_full ?c" by (rule cancel)
  moreover have "?r ?c ?s" using c_stop [of ?c quiet_env slow_polling] by (simp add: slow_full_def scan_init_def)
  ultimately have run: "?r\<^sup>*\<^sup>* (scan_init ()) ?s" using slow_full_run by (meson rtranclp.rtrancl_into_rtrancl)
  have "stuck quiet_env slow_polling ?s"
    by (simp add: stuck_iff producer_waits_def consumer_waits_def slow_full_def newTxn_cap_def)
  then have one: "t = ?s" if "?r ?s t" for t using that by (auto simp: stuck_def)
  have "t = ?s" if "?r\<^sup>*\<^sup>* ?s t" for t using that by (induction rule: rtranclp_induct) (auto dest: one)
  then have "{t. ?r\<^sup>*\<^sup>* ?s t} = {?s}" by blast
  with run show ?thesis
    by (intro exI [of _ slow_polling] exI [of _ ?s]) (simp add: slow_full_def scan_init_def)
qed

text \<open>C31. The goroutines of the polling scanner can hang, and the end of the context does not help. There is a chain
  on which both wait to send on the full channel, the consumer re-sending a transaction without a receipt: from
  there only the context can still change, which neither looks at. And there is one on which the consumer, told that the
  context is done, has stopped while the producer waits to send on the full channel: no step at all is possible any
  more. In both cases \<open>WipeBlock\<close> never returns.\<close>

theorem polling_hangs:
  "(\<exists>(p :: unit Polling) s. (scan_step quiet_env p)\<^sup>*\<^sup>* (scan_init ()) s \<and> deadlocked s \<and>
     {t. (scan_step quiet_env p)\<^sup>*\<^sup>* s t} = {s, s\<lparr>ctxDone := True\<rparr>}) \<and>
   (\<exists>(p :: unit Polling) s. (scan_step quiet_env p)\<^sup>*\<^sup>* (scan_init ()) s \<and> alive s \<and> ctxDone s \<and> consumer s = CStopped \<and>
     producer s \<noteq> PReturned \<and> {t. (scan_step quiet_env p)\<^sup>*\<^sup>* s t} = {s})"
  by (intro conjI polling_deadlock shutdown_hangs)

text \<open>C5. When the receipt of every transaction is there and nothing panics, transactions are finished in the order
  in which they were sent, and none stays behind: in every state that the scanner reaches, what has been sent is
  what has been finished followed by what is in the channel, and while the context is not done the consumer alone
  can finish all that is in the channel.\<close>

theorem transactions_finish_in_order:
  assumes "never_requeues env p" and "(scan_step env p)\<^sup>*\<^sup>* (scan_init w) s"
  shows "sent (history s) = finished (history s) @ newTxn s \<and>
    (alive s \<and> \<not> ctxDone s \<longrightarrow>
      (\<exists>t. (scan_step env p)\<^sup>*\<^sup>* s t \<and> newTxn t = [] \<and> producer t = producer s \<and> finished (history t) = sent (history s)))"
proof -
  have i: "fifo_inv s" using fifo_sys.inv_reachable [OF refl assms(2)] assms(1) by blast
  then have "alive s \<and> \<not> ctxDone s \<longrightarrow> (\<exists>t. (scan_step env p)\<^sup>*\<^sup>* s t \<and> newTxn t = [] \<and> producer t = producer s \<and>
      finished (history t) = finished (history s) @ newTxn s)"
    using drain_channel [OF assms(1), of s] by (auto simp: fifo_inv_def)
  with i show ?thesis by (simp add: fifo_inv_def)
qed

lemma test_never_requeues: "never_requeues quiet_env test_polling"
proof -
  have low: "ToLower ''222'' = ''222''" "EqualFold ''Fake'' (ToLower ''fake'')" "log_key \<lparr>Topics = [''awD''], Data = ''111'', Address = ''222''\<rparr> \<noteq> ''222''"
    by code_simp+
  have "handle_txn quiet_env test_polling t () = (Ret Distributed, ())" for t
    using low by (simp add: handle_txn_def test_polling_def test_options_def MockChainIo_def receipt1_def FakeMetrics_def
        RunBeforePushMiddleware_def ReceiptDistribution_def dispatch_def matching_prefix_def contract_name_def FilterBlock_Do_nop run_simps)
  then show ?thesis by (auto simp: never_requeues_def)
qed

theorem transactions_finish_in_order_witness:
  "never_requeues quiet_env test_polling \<and> (scan_step quiet_env test_polling)\<^sup>*\<^sup>* (scan_init ()) test_state \<and>
   (\<exists>t. (scan_step quiet_env test_polling)\<^sup>*\<^sup>* test_state t \<and> finished (history t) = [test_txn])"
proof -
  have "alive test_state \<and> \<not> ctxDone test_state" "sent (history test_state) = [test_txn]"
    by (simp_all add: test_state_def scan_init_def sent_def List.map_filter_def)
  with transactions_finish_in_order [OF test_never_requeues test_run] test_never_requeues test_run show ?thesis by auto
qed

end
