(* ===== verification/Go_Text.thy ===== *)
theory Go_Text
  imports Prelude
begin

text \<open>
  What the rpc package uses of Go's standard library: decimal numbers (\<open>strconv\<close>), quoting
  (\<open>%q\<close>), \<open>strings.SplitN\<close>, \<open>TrimLeft\<close> and \<open>TrimSpace\<close>, and JSON texts. A JSON text is its
  syntax tree \<open>json\<close>; a \<open>json.RawMessage\<close> is such a tree, or \<open>None\<close> for the nil slice, and
  where the source looks at its bytes they are those of the compact text \<open>show_json\<close>.
\<close>

lemma case_sum_Inr_iff:
  "(case x of Inl e \<Rightarrow> Inl e | Inr v \<Rightarrow> f v) = Inr y \<longleftrightarrow> (\<exists>v. x = Inr v \<and> f v = Inr y)"
  "(case x of Inl e \<Rightarrow> Inl (g e) | Inr v \<Rightarrow> f v) = Inr y \<longleftrightarrow> (\<exists>v. x = Inr v \<and> f v = Inr y)"
  by (cases x; simp)+

section \<open>Decimal numbers\<close>

fun show_nat :: "nat \<Rightarrow> string" where
  "show_nat n = (if n < 10 then [char_of (48 + n)] else show_nat (n div 10) @ [char_of (48 + n mod 10)])"

declare show_nat.simps [simp del]

definition show_int :: "int \<Rightarrow> string" where
  "show_int i = (if i < 0 then CHR ''-'' # show_nat (nat (- i)) else show_nat (nat i))"

definition is_digit :: "char \<Rightarrow> bool" where
  "is_digit c \<longleftrightarrow> 48 \<le> (of_char c :: nat) \<and> (of_char c :: nat) \<le> 57"

definition digits_value :: "string \<Rightarrow> nat" where
  "digits_value s = foldl (\<lambda>n c. n * 10 + (of_char c - 48)) 0 s"

definition parse_nat :: "string \<Rightarrow> nat option" where
  "parse_nat s = (if s \<noteq> [] \<and> list_all is_digit s then Some (digits_value s) else None)"

definition parse_int :: "string \<Rightarrow> int option" where
  "parse_int s = (case s of
     [] \<Rightarrow> None
   | c # t \<Rightarrow> if c = CHR ''-'' then map_option (\<lambda>n. - int n) (parse_nat t) else map_option int (parse_nat s))"

definition in_int64 :: "int \<Rightarrow> bool" where
  "in_int64 i \<longleftrightarrow> - (2 ^ 63) \<le> i \<and> i < 2 ^ 63"

lemma is_digit_digit [simp]: "(n :: nat) < 10 \<Longrightarrow> is_digit (char_of (48 + n))"
  by (simp add: is_digit_def)

lemma digits_value_snoc: "digits_value (s @ [c]) = digits_value s * 10 + (of_char c - 48)"
  by (simp add: digits_value_def)

lemma show_nat_digits: "show_nat n \<noteq> [] \<and> list_all is_digit (show_nat n) \<and> digits_value (show_nat n) = n"
proof (induction n rule: show_nat.induct)
  case (1 n)
  show ?case
  proof (cases "n < 10")
    case True
    then show ?thesis by (simp add: show_nat.simps [of n] digits_value_def)
  next
    case False
    with 1 show ?thesis by (simp add: show_nat.simps [of n] digits_value_snoc)
  qed
qed

lemma parse_show_nat [simp]: "parse_nat (show_nat n) = Some n"
  using show_nat_digits [of n] by (simp add: parse_nat_def)

lemma show_nat_inj [simp]: "show_nat m = show_nat n \<longleftrightarrow> m = n"
  by (metis option.inject parse_show_nat)

lemma show_nat_first: "\<exists>c t. show_nat n = c # t \<and> is_digit c"
  using show_nat_digits [of n] by (cases "show_nat n") auto

lemma parse_show_int [simp]: "parse_int (show_int i) = Some i"
proof (cases "i < 0")
  case True
  then show ?thesis by (simp add: show_int_def parse_int_def)
next
  case False
  obtain c t where s: "show_nat (nat i) = c # t" "is_digit c" using show_nat_first by blast
  then have "c \<noteq> CHR ''-''" by (auto simp: is_digit_def)
  with False s parse_show_nat [of "nat i"] show ?thesis by (simp add: show_int_def parse_int_def)
qed

section \<open>Splitting and trimming\<close>

text \<open>\<open>strings.SplitN(s, sep, 2)\<close> for a separator of one character.\<close>

definition SplitN2 :: "string \<Rightarrow> char \<Rightarrow> string list" where
  "SplitN2 s c = (if c \<in> set s then [takeWhile (\<lambda>x. x \<noteq> c) s, tl (dropWhile (\<lambda>x. x \<noteq> c) s)] else [s])"

definition TrimLeft :: "string \<Rightarrow> char \<Rightarrow> string" where
  "TrimLeft s c = dropWhile (\<lambda>x. x = c) s"

definition is_space :: "char \<Rightarrow> bool" where
  "is_space c \<longleftrightarrow> (of_char c :: nat) \<in> {9, 10, 11, 12, 13, 32}"

definition TrimSpace :: "string \<Rightarrow> string" where
  "TrimSpace s = rev (dropWhile is_space (rev (dropWhile is_space s)))"

lemma SplitN2_append: "c \<notin> set s \<Longrightarrow> SplitN2 (s @ c # t) c = [s, t]"
proof -
  assume c: "c \<notin> set s"
  then have "takeWhile (\<lambda>x. x \<noteq> c) (s @ c # t) = s" "dropWhile (\<lambda>x. x \<noteq> c) (s @ c # t) = c # t"
    by (induction s) auto
  then show ?thesis by (simp add: SplitN2_def)
qed

lemma TrimSpace_id: "s \<noteq> [] \<Longrightarrow> \<not> is_space (hd s) \<Longrightarrow> \<not> is_space (last s) \<Longrightarrow> TrimSpace s = s"
proof -
  assume "s \<noteq> []" "\<not> is_space (hd s)" "\<not> is_space (last s)"
  moreover from this have "rev s \<noteq> []" "\<not> is_space (hd (rev s))" by (simp_all add: hd_rev)
  moreover have "dropWhile is_space t = t" if "t \<noteq> []" "\<not> is_space (hd t)" for t
    using that by (cases t) auto
  ultimately show ?thesis by (simp add: TrimSpace_def)
qed

section \<open>JSON\<close>

datatype json = JNull | JBool bool | JNum string | JStr string | JArr "json list" | JObj "(string \<times> json) list"

definition json_escape :: "char \<Rightarrow> string" where
  "json_escape c = (let n = of_char c :: nat in
     if c = CHR 0x22 \<or> c = CHR 0x5C then [CHR 0x5C, c]
     else if n = 10 then [CHR 0x5C, CHR ''n''] else if n = 13 then [CHR 0x5C, CHR ''r'']
     else if n = 9 then [CHR 0x5C, CHR ''t''] else if n = 8 then [CHR 0x5C, CHR ''b'']
     else if n = 12 then [CHR 0x5C, CHR ''f'']
     else if n < 32 \<or> n \<in> {60, 62, 38} then CHR 0x5C # ''u00'' @ hex_encode [c]
     else [c])"

definition json_quote :: "string \<Rightarrow> string" where
  "json_quote s = CHR 0x22 # concat (map json_escape s) @ [CHR 0x22]"

fun join_commas :: "string list \<Rightarrow> string" where
  "join_commas [] = []"
| "join_commas [s] = s"
| "join_commas (s # t # ss) = s @ '','' @ join_commas (t # ss)"

fun show_json :: "json \<Rightarrow> string" where
  "show_json JNull = ''null''"
| "show_json (JBool b) = (if b then ''true'' else ''false'')"
| "show_json (JNum s) = s"
| "show_json (JStr s) = json_quote s"
| "show_json (JArr xs) = ''['' @ join_commas (map show_json xs) @ '']''"
| "show_json (JObj fs) = ''{'' @ join_commas (map (\<lambda>(k, v). json_quote k @ '':'' @ show_json v) fs) @ ''}''"

text \<open>The characters of a JSON number.\<close>

definition number_text :: "string \<Rightarrow> bool" where
  "number_text s \<longleftrightarrow> s \<noteq> [] \<and> list_all (\<lambda>c. is_digit c \<or> c \<in> set ''+-.eE'') s"

fun wf_json :: "json \<Rightarrow> bool" where
  "wf_json (JNum s) = number_text s"
| "wf_json (JArr xs) = list_all wf_json xs"
| "wf_json (JObj fs) = list_all (\<lambda>(k, v). wf_json v) fs"
| "wf_json _ = True"

definition first_byte :: "json \<Rightarrow> char option" where
  "first_byte j = (case show_json j of [] \<Rightarrow> None | c # _ \<Rightarrow> Some c)"

lemma first_byte_simps [simp]:
  "first_byte JNull = Some CHR ''n''"
  "first_byte (JBool b) = Some (if b then CHR ''t'' else CHR ''f'')"
  "first_byte (JStr s) = Some CHR 0x22"
  "first_byte (JArr xs) = Some CHR ''[''"
  "first_byte (JObj fs) = Some CHR ''{''"
  by (simp_all add: first_byte_def json_quote_def)

lemma first_byte_JNum: "number_text s \<Longrightarrow> \<exists>c. first_byte (JNum s) = Some c \<and> (is_digit c \<or> c \<in> set ''+-.eE'')"
  by (cases s) (auto simp: first_byte_def number_text_def)

lemma number_text_show_int: "number_text (show_int i)"
  using show_nat_digits by (auto simp: number_text_def show_int_def list_all_iff)

end
