(* ===== verification/Rpc_Json.thy ===== *)
theory Rpc_Json
  imports Go_Text
begin

text \<open>
  Errors and messages of the package rpc (src/util/rpc/errors.go, src/util/rpc/json.go): the
  built-in JSON-RPC errors with their codes, the message type with its classification,
  \<open>encoding/json\<close> on messages (field matching, \<open>omitempty\<close>, type mismatches that leave a field
  alone), batches, the positional arguments of a call, and the codec of a stream connection.
  The Go type of an argument is a \<open>gotype\<close>; how its values are decoded is a parameter.
\<close>

section \<open>Errors\<close>

record jsonError =
  Code :: int
  Message :: string
  ErrData :: "json option"

text \<open>
  \<open>ErrString\<close> is an error of \<open>errors.New\<close> or \<open>fmt.Errorf\<close>; \<open>ErrApp\<close> an application's own error
  type, with the results of \<open>ErrorCode\<close> and \<open>ErrorData\<close> if it has these methods.
\<close>

datatype rpc_error =
    HTTPError int string string
  | methodNotFoundError string
  | subscriptionNotFoundError string string
  | parseError string
  | invalidRequestError string
  | invalidMessageError string
  | invalidParamsError string
  | CustomError int string
  | ErrJson jsonError
  | ErrString string
  | ErrApp string "int option" "json option option"

definition defaultErrorCode :: int where
  "defaultErrorCode = -32000"

text \<open>The verb \<open>%q\<close> on printable ASCII text.\<close>

definition go_quote :: "string \<Rightarrow> string" where
  "go_quote s = CHR 0x22 # concat (map (\<lambda>c. if c = CHR 0x22 \<or> c = CHR 0x5C then [CHR 0x5C, c] else [c]) s) @ [CHR 0x22]"

definition HTTPError_Error :: "string \<Rightarrow> string \<Rightarrow> string" where
  "HTTPError_Error status body = (if length body = 0 then status else status @ '': '' @ body)"

definition jsonError_Error :: "jsonError \<Rightarrow> string" where
  "jsonError_Error e = (if Message e = [] then ''json-rpc error '' @ show_int (Code e) else Message e)"

fun Error :: "rpc_error \<Rightarrow> string" where
  "Error (HTTPError _ status body) = HTTPError_Error status body"
| "Error (methodNotFoundError m) = ''the method '' @ m @ '' does not exist/is not available''"
| "Error (subscriptionNotFoundError ns sub) = ''no '' @ go_quote sub @ '' subscription in '' @ ns @ '' namespace''"
| "Error (parseError m) = m"
| "Error (invalidRequestError m) = m"
| "Error (invalidMessageError m) = m"
| "Error (invalidParamsError m) = m"
| "Error (CustomError _ m) = m"
| "Error (ErrJson e) = jsonError_Error e"
| "Error (ErrString m) = m"
| "Error (ErrApp m _ _) = m"

text \<open>\<open>ErrorCode\<close> and \<open>ErrorData\<close>; \<open>None\<close> if the type does not implement the interface.\<close>

fun ErrorCode :: "rpc_error \<Rightarrow> int option" where
  "ErrorCode (methodNotFoundError _) = Some (-32601)"
| "ErrorCode (subscriptionNotFoundError _ _) = Some (-32601)"
| "ErrorCode (parseError _) = Some (-32700)"
| "ErrorCode (invalidRequestError _) = Some (-32600)"
| "ErrorCode (invalidMessageError _) = Some (-32700)"
| "ErrorCode (invalidParamsError _) = Some (-32602)"
| "ErrorCode (CustomError c _) = Some c"
| "ErrorCode (ErrJson e) = Some (Code e)"
| "ErrorCode (ErrApp _ c _) = c"
| "ErrorCode _ = None"

fun ErrorData :: "rpc_error \<Rightarrow> json option option" where
  "ErrorData (ErrJson e) = Some (ErrData e)"
| "ErrorData (ErrApp _ _ d) = d"
| "ErrorData _ = None"

section \<open>Messages\<close>

definition vsn :: string where
  "vsn = ''2.0''"

abbreviation subscribeMethodSuffix :: string where
  "subscribeMethodSuffix \<equiv> ''_subscribe''"

abbreviation unsubscribeMethodSuffix :: string where
  "unsubscribeMethodSuffix \<equiv> ''_unsubscribe''"

abbreviation notificationMethodSuffix :: string where
  "notificationMethodSuffix \<equiv> ''_subscription''"

record jsonrpcMessage =
  Version :: string
  ID :: "json option"
  Method :: string
  Params :: "json option"
  MsgError :: "jsonError option"
  Result :: "json option"

definition zero_message :: jsonrpcMessage where
  "zero_message = \<lparr>Version = [], ID = None, Method = [], Params = None, MsgError = None, Result = None\<rparr>"

definition isNotification :: "jsonrpcMessage \<Rightarrow> bool" where
  "isNotification msg \<longleftrightarrow> ID msg = None \<and> Method msg \<noteq> []"

definition hasValidID :: "jsonrpcMessage \<Rightarrow> bool" where
  "hasValidID msg \<longleftrightarrow> (case ID msg of
     None \<Rightarrow> False
   | Some j \<Rightarrow> (case first_byte j of None \<Rightarrow> False | Some c \<Rightarrow> c \<noteq> CHR ''{'' \<and> c \<noteq> CHR ''[''))"

definition isCall :: "jsonrpcMessage \<Rightarrow> bool" where
  "isCall msg \<longleftrightarrow> hasValidID msg \<and> Method msg \<noteq> []"

definition isResponse :: "jsonrpcMessage \<Rightarrow> bool" where
  "isResponse msg \<longleftrightarrow> hasValidID msg \<and> Method msg = [] \<and> Params msg = None \<and> (Result msg \<noteq> None \<or> MsgError msg \<noteq> None)"

definition isSubscribe :: "jsonrpcMessage \<Rightarrow> bool" where
  "isSubscribe msg \<longleftrightarrow> HasSuffix (Method msg) subscribeMethodSuffix"

definition isUnsubscribe :: "jsonrpcMessage \<Rightarrow> bool" where
  "isUnsubscribe msg \<longleftrightarrow> HasSuffix (Method msg) unsubscribeMethodSuffix"

definition namespace :: "jsonrpcMessage \<Rightarrow> string" where
  "namespace msg = SplitN2 (Method msg) (CHR ''_'') ! 0"

definition errorMessage :: "rpc_error \<Rightarrow> jsonrpcMessage" where
  "errorMessage err = zero_message\<lparr>Version := vsn, ID := Some JNull, MsgError := Some \<lparr>
     Code = (case ErrorCode err of None \<Rightarrow> defaultErrorCode | Some c \<Rightarrow> c),
     Message = Error err,
     ErrData = (case ErrorData err of None \<Rightarrow> None | Some d \<Rightarrow> d)\<rparr>\<rparr>"

definition errorResponse :: "jsonrpcMessage \<Rightarrow> rpc_error \<Rightarrow> jsonrpcMessage" where
  "errorResponse msg err = (errorMessage err)\<lparr>ID := ID msg\<rparr>"

text \<open>\<open>json.Marshal\<close> of a result is a parameter that may fail.\<close>

definition response :: "('v \<Rightarrow> rpc_error + json) \<Rightarrow> jsonrpcMessage \<Rightarrow> 'v \<Rightarrow> jsonrpcMessage" where
  "response marshal msg result = (case marshal result of
     Inl err \<Rightarrow> errorResponse msg err
   | Inr enc \<Rightarrow> zero_message\<lparr>Version := vsn, ID := ID msg, Result := Some enc\<rparr>)"

section \<open>Encoding and decoding of messages\<close>

text \<open>Fields with \<open>omitempty\<close> are left out when empty.\<close>

definition optional :: "string \<Rightarrow> json option \<Rightarrow> (string \<times> json) list" where
  "optional k v = (case v of None \<Rightarrow> [] | Some j \<Rightarrow> [(k, j)])"

definition nonempty :: "string \<Rightarrow> json option" where
  "nonempty s = (if s = [] then None else Some (JStr s))"

definition marshal_error :: "jsonError \<Rightarrow> json" where
  "marshal_error e = JObj ([(''code'', JNum (show_int (Code e))), (''message'', JStr (Message e))] @
     optional ''data'' (ErrData e))"

definition marshal_message :: "jsonrpcMessage \<Rightarrow> json" where
  "marshal_message m = JObj (optional ''jsonrpc'' (nonempty (Version m)) @ optional ''id'' (ID m) @
     optional ''method'' (nonempty (Method m)) @ optional ''params'' (Params m) @
     optional ''error'' (map_option marshal_error (MsgError m)) @ optional ''result'' (Result m))"

text \<open>
  The struct field for an object key: the one with exactly this name, else the first that
  agrees up to case. Decoding goes through the object in order, so later keys win.
\<close>

definition find_field :: "string list \<Rightarrow> string \<Rightarrow> string option" where
  "find_field names k = (if k \<in> set names then Some k else List.find (\<lambda>f. EqualFold f k) names)"

definition store_string :: "json \<Rightarrow> string \<Rightarrow> string" where
  "store_string j old = (case j of JStr s \<Rightarrow> s | _ \<Rightarrow> old)"

definition store_int :: "json \<Rightarrow> int \<Rightarrow> int" where
  "store_int j old = (case j of
     JNum s \<Rightarrow> (case parse_int s of Some i \<Rightarrow> if in_int64 i then i else old | None \<Rightarrow> old)
   | _ \<Rightarrow> old)"

definition error_field :: "string \<times> json \<Rightarrow> jsonError \<Rightarrow> jsonError" where
  "error_field kv e = (case find_field [''code'', ''message'', ''data''] (fst kv) of
     None \<Rightarrow> e
   | Some k \<Rightarrow>
       if k = ''code'' then e\<lparr>Code := store_int (snd kv) (Code e)\<rparr>
       else if k = ''message'' then e\<lparr>Message := store_string (snd kv) (Message e)\<rparr>
       else e\<lparr>ErrData := (if snd kv = JNull then None else Some (snd kv))\<rparr>)"

text \<open>Into a pointer: null stores nil, anything else allocates the struct if need be.\<close>

definition unmarshal_error :: "json \<Rightarrow> jsonError option \<Rightarrow> jsonError option" where
  "unmarshal_error j old =
     (let e = (case old of None \<Rightarrow> \<lparr>Code = 0, Message = [], ErrData = None\<rparr> | Some e \<Rightarrow> e) in
      case j of JNull \<Rightarrow> None | JObj fs \<Rightarrow> Some (fold error_field fs e) | _ \<Rightarrow> Some e)"

definition message_field :: "string \<times> json \<Rightarrow> jsonrpcMessage \<Rightarrow> jsonrpcMessage" where
  "message_field kv m = (case find_field [''jsonrpc'', ''id'', ''method'', ''params'', ''error'', ''result''] (fst kv) of
     None \<Rightarrow> m
   | Some k \<Rightarrow>
       if k = ''jsonrpc'' then m\<lparr>Version := store_string (snd kv) (Version m)\<rparr>
       else if k = ''id'' then m\<lparr>ID := Some (snd kv)\<rparr>
       else if k = ''method'' then m\<lparr>Method := store_string (snd kv) (Method m)\<rparr>
       else if k = ''params'' then m\<lparr>Params := Some (snd kv)\<rparr>
       else if k = ''error'' then m\<lparr>MsgError := unmarshal_error (snd kv) (MsgError m)\<rparr>
       else m\<lparr>Result := Some (snd kv)\<rparr>)"

definition unmarshal_message :: "json \<Rightarrow> jsonrpcMessage option" where
  "unmarshal_message j = (case j of
     JNull \<Rightarrow> None
   | JObj fs \<Rightarrow> Some (fold message_field fs zero_message)
   | _ \<Rightarrow> Some zero_message)"

fun isBatch :: "string \<Rightarrow> bool" where
  "isBatch [] = False"
| "isBatch (c # cs) =
     (if c = CHR 0x20 \<or> c = CHR 0x09 \<or> c = CHR 0x0A \<or> c = CHR 0x0D then isBatch cs else c = CHR ''['')"

definition parseMessage :: "json \<Rightarrow> jsonrpcMessage option list \<times> bool" where
  "parseMessage raw =
     (if \<not> isBatch (show_json raw) then ([unmarshal_message raw], False)
      else (case raw of JArr elems \<Rightarrow> map unmarshal_message elems | _ \<Rightarrow> [], True))"

text \<open>\<open>c.decode\<close> gives the next JSON text of the connection or an error.\<close>

definition readBatch :: "rpc_error + json \<Rightarrow> rpc_error + jsonrpcMessage list \<times> bool" where
  "readBatch decoded = (case decoded of
     Inl err \<Rightarrow> Inl err
   | Inr rawmsg \<Rightarrow>
       (let (messages, batch) = parseMessage rawmsg in
        Inr (map (\<lambda>m. case m of None \<Rightarrow> zero_message | Some msg \<Rightarrow> msg) messages, batch)))"

section \<open>Arguments\<close>

text \<open>
  Types as \<open>reflect\<close> shows them: \<open>NamedType n e\<close> is any other type that is not a pointer,
  \<open>e\<close> telling whether it implements \<open>error\<close>.
\<close>

datatype gotype = ContextType | ErrorType | SubscriptionType | StringType | PtrTo gotype | NamedType string bool

fun kind_ptr :: "gotype \<Rightarrow> bool" where
  "kind_ptr (PtrTo _) = True"
| "kind_ptr _ = False"

text \<open>
  \<open>argval.IsNil()\<close> for \<open>argval := reflect.New(t)\<close>: the pointer to the new variable, which is
  never nil, whatever has been decoded into the variable.
\<close>

definition argval_IsNil :: bool where
  "argval_IsNil = False"

definition missing_argument :: "nat \<Rightarrow> rpc_error" where
  "missing_argument i = ErrString (''missing value for required argument '' @ show_nat i)"

fun parseArgumentArray :: "(gotype \<Rightarrow> json \<Rightarrow> rpc_error + 'v) \<Rightarrow> gotype list \<Rightarrow> nat \<Rightarrow> json list \<Rightarrow> rpc_error + 'v list" where
  "parseArgumentArray decode types i [] = Inr []"
| "parseArgumentArray decode types i (j # js) =
     (if i \<ge> length types then Inl (ErrString (''too many arguments, want at most '' @ show_nat (length types)))
      else case decode (types ! i) j of
        Inl err \<Rightarrow> Inl (ErrString (''invalid argument '' @ show_nat i @ '': '' @ Error err))
      | Inr v \<Rightarrow>
          if argval_IsNil \<and> \<not> kind_ptr (types ! i) then Inl (missing_argument i)
          else (case parseArgumentArray decode types (Suc i) js of Inl err \<Rightarrow> Inl err | Inr vs \<Rightarrow> Inr (v # vs)))"

fun fill_missing :: "(gotype \<Rightarrow> 'v) \<Rightarrow> nat \<Rightarrow> gotype list \<Rightarrow> rpc_error + 'v list" where
  "fill_missing zero i [] = Inr []"
| "fill_missing zero i (t # ts) =
     (if \<not> kind_ptr t then Inl (missing_argument i)
      else (case fill_missing zero (Suc i) ts of Inl err \<Rightarrow> Inl err | Inr vs \<Rightarrow> Inr (zero t # vs)))"

definition parsePositionalArguments :: "(gotype \<Rightarrow> json \<Rightarrow> rpc_error + 'v) \<Rightarrow> (gotype \<Rightarrow> 'v) \<Rightarrow> json option \<Rightarrow>
    gotype list \<Rightarrow> rpc_error + 'v list" where
  "parsePositionalArguments decode zero rawArgs types =
     (case (case rawArgs of
         None \<Rightarrow> Inr []
       | Some JNull \<Rightarrow> Inr []
       | Some (JArr js) \<Rightarrow> parseArgumentArray decode types 0 js
       | Some _ \<Rightarrow> Inl (ErrString ''non-array args'')) of
       Inl err \<Rightarrow> Inl err
     | Inr args \<Rightarrow> (case fill_missing zero (length args) (drop (length args) types) of
         Inl err \<Rightarrow> Inl err | Inr rest \<Rightarrow> Inr (args @ rest)))"

definition parseSubscriptionName :: "json option \<Rightarrow> rpc_error + string" where
  "parseSubscriptionName rawArgs = (case rawArgs of
     Some (JArr js) \<Rightarrow> (case js of
         JStr name # _ \<Rightarrow> Inr name
       | _ \<Rightarrow> Inl (ErrString ''expected subscription name as first argument''))
   | _ \<Rightarrow> Inl (ErrString ''non-array args''))"

section \<open>The codec of a stream connection\<close>

text \<open>
  What happens on the connection: deadlines are set, values encoded, the connection closed,
  the channel \<open>closeCh\<close> closed (twice would panic).
\<close>

datatype conn_event = SetWriteDeadline int | Encoded json | CloseChClosed | ConnClosed

record jsonCodec =
  remote :: string
  closed_once :: bool
  conn_events :: "conn_event list"

definition NewFuncCodec :: "string option \<Rightarrow> jsonCodec" where
  "NewFuncCodec ra = \<lparr>remote = (case ra of None \<Rightarrow> [] | Some a \<Rightarrow> a), closed_once = False, conn_events = []\<rparr>"

definition defaultWriteTimeout :: int where
  "defaultWriteTimeout = 10 * 1000000000"

definition writeJSON :: "int option \<Rightarrow> int \<Rightarrow> json \<Rightarrow> jsonCodec \<Rightarrow> jsonCodec" where
  "writeJSON ctxDeadline now v c =
     c\<lparr>conn_events := conn_events c @ [SetWriteDeadline (case ctxDeadline of Some d \<Rightarrow> d | None \<Rightarrow> now + defaultWriteTimeout),
        Encoded v]\<rparr>"

definition codec_close :: "jsonCodec \<Rightarrow> jsonCodec" where
  "codec_close c = (if closed_once c then c
     else c\<lparr>closed_once := True, conn_events := conn_events c @ [CloseChClosed, ConnClosed]\<rparr>)"

text \<open>
  What the server relies on in a codec of any transport: \<open>close\<close> closes it, and closing a closed
  codec does nothing, so it does not matter how many goroutines close it.
\<close>

locale server_codec =
  fixes close :: "'c \<Rightarrow> 'c" and closed :: "'c \<Rightarrow> bool"
  assumes closed_close: "closed (close c)"
    and close_closed: "closed c \<Longrightarrow> close c = c"
begin

lemma close_idem: "close (close c) = close c"
  by (rule close_closed [OF closed_close])

lemma close_repeated: "(close ^^ Suc n) c = close c"
  by (induction n) (simp_all add: close_idem)

end

interpretation json_codec: server_codec codec_close closed_once
  by unfold_locales (simp_all add: codec_close_def)

section \<open>Lemmas\<close>

lemma isBatch_show: "wf_json raw \<Longrightarrow> isBatch (show_json raw) \<longleftrightarrow> (\<exists>xs. raw = JArr xs)"
proof (cases raw)
  case (JNum s)
  assume "wf_json raw"
  with JNum obtain c t where "s = c # t" "is_digit c \<or> c \<in> set ''+-.eE''"
    by (cases s) (auto simp: number_text_def)
  with JNum show ?thesis by (auto simp: is_digit_def)
qed (auto simp: json_quote_def)

lemma find_field_exact: "k \<in> set names \<Longrightarrow> find_field names k = Some k"
  by (simp add: find_field_def)

lemma store_simps [simp]:
  "store_string (JStr s) old = s" "in_int64 i \<Longrightarrow> store_int (JNum (show_int i)) n = i"
  by (simp_all add: store_string_def store_int_def)

lemma error_field_simps [simp]:
  "error_field (''code'', j) e = e\<lparr>Code := store_int j (Code e)\<rparr>"
  "error_field (''message'', j) e = e\<lparr>Message := store_string j (Message e)\<rparr>"
  "error_field (''data'', j) e = e\<lparr>ErrData := (if j = JNull then None else Some j)\<rparr>"
  by (simp_all add: error_field_def find_field_exact)

lemma message_field_simps [simp]:
  "message_field (''jsonrpc'', j) m = m\<lparr>Version := store_string j (Version m)\<rparr>"
  "message_field (''id'', j) m = m\<lparr>ID := Some j\<rparr>"
  "message_field (''method'', j) m = m\<lparr>Method := store_string j (Method m)\<rparr>"
  "message_field (''params'', j) m = m\<lparr>Params := Some j\<rparr>"
  "message_field (''error'', j) m = m\<lparr>MsgError := unmarshal_error j (MsgError m)\<rparr>"
  "message_field (''result'', j) m = m\<lparr>Result := Some j\<rparr>"
  by (simp_all add: message_field_def find_field_exact)

definition wf_error :: "jsonError \<Rightarrow> bool" where
  "wf_error e \<longleftrightarrow> in_int64 (Code e) \<and> ErrData e \<noteq> Some JNull"

definition wf_message :: "jsonrpcMessage \<Rightarrow> bool" where
  "wf_message m \<longleftrightarrow> (case MsgError m of None \<Rightarrow> True | Some e \<Rightarrow> wf_error e)"

lemma unmarshal_marshal_error: "wf_error e \<Longrightarrow> unmarshal_error (marshal_error e) None = Some e"
  by (cases e) (auto simp: wf_error_def unmarshal_error_def marshal_error_def optional_def split: option.splits)

lemma fold_optional: "fold message_field (optional k v) m = (case v of None \<Rightarrow> m | Some j \<Rightarrow> message_field (k, j) m)"
  by (simp add: optional_def split: option.splits)

lemma unmarshal_marshal_message:
  assumes "wf_message m"
  shows "unmarshal_message (marshal_message m) = Some m"
proof -
  obtain v i me ps er rs where m: "m = \<lparr>Version = v, ID = i, Method = me, Params = ps, MsgError = er, Result = rs\<rparr>"
    by (cases m)
  have e: "unmarshal_error (marshal_error e) None = er" if "er = Some e" for e
    using assms that by (simp add: m wf_message_def unmarshal_marshal_error)
  show ?thesis
    by (cases i; cases ps; cases er; cases rs; cases "v = []"; cases "me = []")
      (simp_all add: m e unmarshal_message_def marshal_message_def fold_optional nonempty_def zero_message_def)
qed

lemma parse_array_ok:
  "parseArgumentArray decode types i js = Inr vs \<longleftrightarrow>
   (js = [] \<or> i + length js \<le> length types) \<and>
   list_all2 (\<lambda>(t, j) v. decode t j = Inr v) (zip (drop i types) js) vs \<and> length vs = length js"
proof (induction js arbitrary: i vs)
  case (Cons j js)
  show ?case
  proof (cases "i < length types")
    case True
    then have d: "drop i types = types ! i # drop (Suc i) types" by (simp add: Cons_nth_drop_Suc)
    show ?thesis
      using True Cons.IH [of "Suc i"]
      by (cases vs) (auto simp: d argval_IsNil_def case_sum_Inr_iff)
  qed auto
qed auto

lemma fill_missing_ok: "fill_missing zero i ts = Inr vs \<longleftrightarrow> list_all kind_ptr ts \<and> vs = map zero ts"
  by (induction ts arbitrary: i vs) (auto simp: case_sum_Inr_iff)

section \<open>Properties\<close>

text \<open>Messages survive the wire: a message whose error code is an int64 and whose error data is
  not a JSON null is read back from its encoding unchanged, by \<open>readBatch\<close>, as a single
  message.\<close>

theorem message_roundtrip:
  assumes "wf_message m" and "wf_json (marshal_message m)"
  shows "readBatch (Inr (marshal_message m)) = Inr ([m], False)"
proof -
  have "\<not> isBatch (show_json (marshal_message m))"
    using assms(2) by (simp add: isBatch_show) (simp add: marshal_message_def)
  then show ?thesis
    using assms(1) by (simp add: readBatch_def parseMessage_def unmarshal_marshal_message)
qed

theorem message_roundtrip_witness:
  "let m = zero_message\<lparr>Version := vsn, ID := Some (JNum ''7''), Method := ''eth_call'', Params := Some (JArr [JNull])\<rparr>
   in wf_message m \<and> readBatch (Inr (marshal_message m)) = Inr ([m], False)"
proof -
  let ?m = "zero_message\<lparr>Version := vsn, ID := Some (JNum ''7''), Method := ''eth_call'', Params := Some (JArr [JNull])\<rparr>"
  have "wf_message ?m" by (simp add: wf_message_def zero_message_def)
  moreover have "wf_json (marshal_message ?m)" by code_simp
  ultimately show ?thesis using message_roundtrip [of ?m] by (simp add: Let_def)
qed

text \<open>A batch has one message per element, in order, and none of them is nil: each element that
  is an object is decoded on its own, and every other element, null included, becomes the
  zero message, which is neither call, notification nor response. An array is a batch and
  nothing else is.\<close>

theorem readBatch_spec:
  assumes "wf_json raw" and "readBatch (Inr raw) = Inr (msgs, batch)"
  shows "(batch \<longleftrightarrow> (\<exists>xs. raw = JArr xs)) \<and>
    msgs = map (\<lambda>j. case j of JObj fs \<Rightarrow> fold message_field fs zero_message | _ \<Rightarrow> zero_message)
      (case raw of JArr xs \<Rightarrow> xs | _ \<Rightarrow> [raw]) \<and>
    \<not> isCall zero_message \<and> \<not> isNotification zero_message \<and> \<not> isResponse zero_message"
proof -
  have *: "(case unmarshal_message j of None \<Rightarrow> zero_message | Some msg \<Rightarrow> msg) =
      (case j of JObj fs \<Rightarrow> fold message_field fs zero_message | _ \<Rightarrow> zero_message)" for j
    by (simp add: unmarshal_message_def split: json.splits)
  have z: "\<not> isCall zero_message" "\<not> isNotification zero_message" "\<not> isResponse zero_message"
    by (simp_all add: isCall_def isNotification_def isResponse_def hasValidID_def zero_message_def)
  show ?thesis
  proof (cases "\<exists>xs. raw = JArr xs")
    case True
    with assms isBatch_show [OF assms(1)] z show ?thesis
      by (auto simp: readBatch_def parseMessage_def * comp_def)
  next
    case False
    with assms isBatch_show [OF assms(1)] have "batch = False" "msgs = [case unmarshal_message raw of None \<Rightarrow> zero_message | Some msg \<Rightarrow> msg]"
      by (auto simp: readBatch_def parseMessage_def)
    with False z * show ?thesis by (cases raw) auto
  qed
qed

theorem readBatch_spec_witness:
  "readBatch (Inr (JArr [JNull, JObj [(''Method'', JStr ''a_b''), (''method'', JNum ''1'')]])) =
     Inr ([zero_message, zero_message\<lparr>Method := ''a_b''\<rparr>], True) \<and> \<not> isCall zero_message"
proof -
  let ?j = "JArr [JNull, JObj [(''Method'', JStr ''a_b''), (''method'', JNum ''1'')]]"
  have r: "readBatch (Inr ?j) = Inr ([zero_message, zero_message\<lparr>Method := ''a_b''\<rparr>], True)" by code_simp
  moreover have "wf_json ?j" by code_simp
  ultimately show ?thesis using readBatch_spec [of ?j] by simp
qed

text \<open>Positional arguments: parsing succeeds exactly when the parameters are absent, null or an
  array of at most as many elements as there are types, every element decodes at its type and
  every type without an element is a pointer type; the values are then the decoded elements
  followed by zero values, one per type.\<close>

theorem parsePositionalArguments_spec:
  "parsePositionalArguments decode zero raw types = Inr vs \<longleftrightarrow>
   (\<exists>js ds. (raw = Some (JArr js) \<or> (raw = None \<or> raw = Some JNull) \<and> js = []) \<and> length js \<le> length types \<and>
      list_all2 (\<lambda>(t, j) v. decode t j = Inr v) (zip types js) ds \<and> length ds = length js \<and>
      list_all kind_ptr (drop (length js) types) \<and> vs = ds @ map zero (drop (length js) types))"
proof -
  have *: "(case parseArgumentArray decode types 0 js of Inl err \<Rightarrow> Inl err
      | Inr args \<Rightarrow> (case fill_missing zero (length args) (drop (length args) types) of
         Inl err \<Rightarrow> Inl err | Inr rest \<Rightarrow> Inr (args @ rest))) = Inr vs \<longleftrightarrow>
    (\<exists>ds. length js \<le> length types \<and> list_all2 (\<lambda>(t, j) v. decode t j = Inr v) (zip types js) ds \<and>
      length ds = length js \<and> list_all kind_ptr (drop (length js) types) \<and> vs = ds @ map zero (drop (length js) types))" for js
    by (auto simp: case_sum_Inr_iff parse_array_ok fill_missing_ok)
  have "parsePositionalArguments decode zero raw types = Inr vs \<longleftrightarrow>
     (\<exists>js. (raw = Some (JArr js) \<or> (raw = None \<or> raw = Some JNull) \<and> js = []) \<and>
       (case parseArgumentArray decode types 0 js of Inl err \<Rightarrow> Inl err
        | Inr args \<Rightarrow> (case fill_missing zero (length args) (drop (length args) types) of
           Inl err \<Rightarrow> Inl err | Inr rest \<Rightarrow> Inr (args @ rest))) = Inr vs)"
    by (auto simp: parsePositionalArguments_def split: option.splits json.splits)
  then show ?thesis unfolding * by blast
qed

text \<open>An explicit null for a required argument is never reported as missing: the check in
  \<open>parseArgumentArray\<close> tests the pointer to the new variable, so the outcome for an array is
  the one of decoding its elements, and with a decoder that accepts null the zero value it
  leaves is passed on.\<close>

theorem null_argument_accepted:
  assumes "decode t JNull = Inr v"
  shows "parsePositionalArguments decode zero (Some (JArr [JNull])) [t] = Inr [v]"
  using assms by (simp add: parsePositionalArguments_def argval_IsNil_def)

theorem null_argument_accepted_witness:
  "parsePositionalArguments (\<lambda>_ j. if j = JNull then Inr (0 :: int) else Inl (ErrString [])) (\<lambda>_. 5)
     (Some (JArr [JNull])) [NamedType ''uint64'' False] = Inr [0]"
  by (rule null_argument_accepted) simp

end
