(* ===== verification/Rpc_Types.thy ===== *)
theory Rpc_Types
  imports Rpc_Json
begin

text \<open>
  Block numbers as call arguments (src/util/rpc/types.go): \<open>BlockNumber\<close>, a signed 64-bit
  integer whose values -2, -1 and 0 have names, \<open>BlockNumberOrHash\<close> and \<open>DecimalOrHex\<close>. The
  functions of go-ethereum's packages \<open>hexutil\<close> and \<open>common\<close> are parameters: decoding and
  encoding of hexadecimal quantities, and the reading of a hash from a text or a JSON value.
\<close>

section \<open>BlockNumber\<close>

type_synonym BlockNumber = "64 word"

definition PendingBlockNumber :: BlockNumber where "PendingBlockNumber = - 2"
definition LatestBlockNumber :: BlockNumber where "LatestBlockNumber = - 1"
definition EarliestBlockNumber :: BlockNumber where "EarliestBlockNumber = 0"

definition MaxInt64 :: u64 where
  "MaxInt64 = 9223372036854775807"

definition unquote :: "string \<Rightarrow> string" where
  "unquote input = (if length input \<ge> 2 \<and> input ! 0 = CHR 0x22 \<and> input ! (length input - 1) = CHR 0x22
     then take (length input - 2) (drop 1 input) else input)"

definition named_block :: "string \<Rightarrow> BlockNumber option" where
  "named_block input = (if input = ''earliest'' then Some EarliestBlockNumber
     else if input = ''latest'' then Some LatestBlockNumber
     else if input = ''pending'' then Some PendingBlockNumber else None)"

definition BlockNumber_UnmarshalJSON :: "(string \<Rightarrow> rpc_error + u64) \<Rightarrow> string \<Rightarrow> rpc_error + BlockNumber" where
  "BlockNumber_UnmarshalJSON DecodeUint64 data =
     (let input = unquote (TrimSpace data) in
      case named_block input of
        Some n \<Rightarrow> Inr n
      | None \<Rightarrow> (case DecodeUint64 input of
          Inl err \<Rightarrow> Inl err
        | Inr blckNum \<Rightarrow> if blckNum > MaxInt64 then Inl (ErrString ''block number larger than int64'') else Inr blckNum))"

definition BlockNumber_MarshalText :: "(u64 \<Rightarrow> string) \<Rightarrow> BlockNumber \<Rightarrow> string" where
  "BlockNumber_MarshalText EncodeUint64 bn =
     (if bn = EarliestBlockNumber then ''earliest''
      else if bn = LatestBlockNumber then ''latest''
      else if bn = PendingBlockNumber then ''pending''
      else EncodeUint64 bn)"

definition Int64 :: "BlockNumber \<Rightarrow> int" where
  "Int64 bn = sint bn"

section \<open>BlockNumberOrHash\<close>

record 'h BlockNumberOrHash =
  bnh_BlockNumber :: "BlockNumber option"
  bnh_BlockHash :: "'h option"
  bnh_RequireCanonical :: bool

definition zero_bnh :: "'h BlockNumberOrHash" where
  "zero_bnh = \<lparr>bnh_BlockNumber = None, bnh_BlockHash = None, bnh_RequireCanonical = False\<rparr>"

text \<open>
  \<open>json.Unmarshal(data, &e)\<close> for an object: an error of a field's own decoder ends it, a value
  of the wrong type for the flag is reported at the end (\<open>mismatch\<close>).
\<close>

fun erased_fields :: "(string \<Rightarrow> rpc_error + u64) \<Rightarrow> (json \<Rightarrow> rpc_error + 'h) \<Rightarrow> (string \<times> json) list \<Rightarrow>
    'h BlockNumberOrHash \<Rightarrow> bool \<Rightarrow> rpc_error + 'h BlockNumberOrHash" where
  "erased_fields dec hashJSON [] e mismatch = (if mismatch then Inl (ErrString ''json: cannot unmarshal'') else Inr e)"
| "erased_fields dec hashJSON ((key, j) # fs) e mismatch =
     (case find_field [''blockNumber'', ''blockHash'', ''requireCanonical''] key of
        None \<Rightarrow> erased_fields dec hashJSON fs e mismatch
      | Some k \<Rightarrow>
          if k = ''blockNumber'' then
            (if j = JNull then erased_fields dec hashJSON fs (e\<lparr>bnh_BlockNumber := None\<rparr>) mismatch
             else case BlockNumber_UnmarshalJSON dec (show_json j) of
               Inl err \<Rightarrow> Inl err
             | Inr n \<Rightarrow> erased_fields dec hashJSON fs (e\<lparr>bnh_BlockNumber := Some n\<rparr>) mismatch)
          else if k = ''blockHash'' then
            (if j = JNull then erased_fields dec hashJSON fs (e\<lparr>bnh_BlockHash := None\<rparr>) mismatch
             else case hashJSON j of
               Inl err \<Rightarrow> Inl err
             | Inr h \<Rightarrow> erased_fields dec hashJSON fs (e\<lparr>bnh_BlockHash := Some h\<rparr>) mismatch)
          else (case j of
               JBool b \<Rightarrow> erased_fields dec hashJSON fs (e\<lparr>bnh_RequireCanonical := b\<rparr>) mismatch
             | JNull \<Rightarrow> erased_fields dec hashJSON fs e mismatch
             | _ \<Rightarrow> erased_fields dec hashJSON fs e True))"

definition unmarshal_erased :: "(string \<Rightarrow> rpc_error + u64) \<Rightarrow> (json \<Rightarrow> rpc_error + 'h) \<Rightarrow> json \<Rightarrow> rpc_error + 'h BlockNumberOrHash" where
  "unmarshal_erased dec hashJSON data = (case data of
     JObj fs \<Rightarrow> erased_fields dec hashJSON fs zero_bnh False
   | JNull \<Rightarrow> Inr zero_bnh
   | _ \<Rightarrow> Inl (ErrString ''json: cannot unmarshal''))"

definition BlockNumberOrHash_UnmarshalJSON :: "(string \<Rightarrow> rpc_error + u64) \<Rightarrow> (json \<Rightarrow> rpc_error + 'h) \<Rightarrow>
    (string \<Rightarrow> rpc_error + 'h) \<Rightarrow> json \<Rightarrow> 'h BlockNumberOrHash \<Rightarrow> rpc_error + 'h BlockNumberOrHash" where
  "BlockNumberOrHash_UnmarshalJSON dec hashJSON hashText data bnh =
     (case unmarshal_erased dec hashJSON data of
        Inr e \<Rightarrow>
          if bnh_BlockNumber e \<noteq> None \<and> bnh_BlockHash e \<noteq> None
          then Inl (ErrString ''cannot specify both BlockHash and BlockNumber, choose one or the other'')
          else Inr (bnh\<lparr>bnh_BlockNumber := bnh_BlockNumber e, bnh_BlockHash := bnh_BlockHash e,
                 bnh_RequireCanonical := bnh_RequireCanonical e\<rparr>)
      | Inl _ \<Rightarrow>
          (case data of
             JStr input \<Rightarrow>
               (case named_block input of
                  Some n \<Rightarrow> Inr (bnh\<lparr>bnh_BlockNumber := Some n\<rparr>)
                | None \<Rightarrow>
                    if length input = 66 then
                      (case hashText input of Inl err \<Rightarrow> Inl err | Inr h \<Rightarrow> Inr (bnh\<lparr>bnh_BlockHash := Some h\<rparr>))
                    else (case dec input of
                        Inl err \<Rightarrow> Inl err
                      | Inr blckNum \<Rightarrow> if blckNum > MaxInt64 then Inl (ErrString ''blocknumber too high'')
                          else Inr (bnh\<lparr>bnh_BlockNumber := Some blckNum\<rparr>)))
           | _ \<Rightarrow> Inl (ErrString ''json: cannot unmarshal'')))"

definition bnh_Number :: "'h BlockNumberOrHash \<Rightarrow> BlockNumber \<times> bool" where
  "bnh_Number b = (case bnh_BlockNumber b of Some n \<Rightarrow> (n, True) | None \<Rightarrow> (0, False))"

definition bnh_String :: "('h \<Rightarrow> string) \<Rightarrow> 'h BlockNumberOrHash \<Rightarrow> string" where
  "bnh_String hashString b = (case bnh_BlockNumber b of
     Some n \<Rightarrow> show_int (sint n)
   | None \<Rightarrow> (case bnh_BlockHash b of Some h \<Rightarrow> hashString h | None \<Rightarrow> ''nil''))"

definition bnh_Hash :: "'h \<Rightarrow> 'h BlockNumberOrHash \<Rightarrow> 'h \<times> bool" where
  "bnh_Hash zero_hash b = (case bnh_BlockHash b of Some h \<Rightarrow> (h, True) | None \<Rightarrow> (zero_hash, False))"

definition BlockNumberOrHashWithNumber :: "BlockNumber \<Rightarrow> 'h BlockNumberOrHash" where
  "BlockNumberOrHashWithNumber n = \<lparr>bnh_BlockNumber = Some n, bnh_BlockHash = None, bnh_RequireCanonical = False\<rparr>"

definition BlockNumberOrHashWithHash :: "'h \<Rightarrow> bool \<Rightarrow> 'h BlockNumberOrHash" where
  "BlockNumberOrHashWithHash h canonical = \<lparr>bnh_BlockNumber = None, bnh_BlockHash = Some h, bnh_RequireCanonical = canonical\<rparr>"

section \<open>DecimalOrHex\<close>

definition ParseUint64 :: "string \<Rightarrow> rpc_error + u64" where
  "ParseUint64 s = (case parse_nat s of
     None \<Rightarrow> Inl (ErrString ''invalid syntax'')
   | Some n \<Rightarrow> if n < 2 ^ 64 then Inr (of_nat n) else Inl (ErrString ''value out of range''))"

definition DecimalOrHex_UnmarshalJSON :: "(string \<Rightarrow> rpc_error + u64) \<Rightarrow> string \<Rightarrow> rpc_error + u64" where
  "DecimalOrHex_UnmarshalJSON DecodeUint64 data =
     (let input = unquote (TrimSpace data) in
      case ParseUint64 input of Inr v \<Rightarrow> Inr v | Inl _ \<Rightarrow> DecodeUint64 input)"

section \<open>Lemmas\<close>

lemma unquote_quoted: "unquote (CHR 0x22 # s @ [CHR 0x22]) = s"
  by (simp add: unquote_def nth_append)

lemma TrimSpace_quoted: "TrimSpace (CHR 0x22 # s @ [CHR 0x22]) = CHR 0x22 # s @ [CHR 0x22]"
  by (rule TrimSpace_id) (simp_all add: is_space_def)

lemma named_block_0x: "named_block (''0x'' @ s) = None"
  by (simp add: named_block_def)

lemma sint_cases: "sint (n :: u64) = (if uint n < 2 ^ 63 then uint n else uint n - 2 ^ 64)"
proof -
  have u: "0 \<le> uint n" "uint n < 2 ^ 64" using uint_lt2p [of n] by simp_all
  have "sint n = (uint n + 2 ^ 63) mod 2 ^ 64 - 2 ^ 63"
    by (simp add: sint_uint signed_take_bit_eq_take_bit_shift take_bit_eq_mod)
  moreover have "(uint n + 2 ^ 63) mod 2 ^ 64 = uint n + 2 ^ 63" if "uint n < 2 ^ 63"
    using that u by (intro mod_pos_pos_trivial) simp_all
  moreover have "(uint n + 2 ^ 63) mod 2 ^ 64 = uint n - 2 ^ 63" if "\<not> uint n < 2 ^ 63"
  proof -
    have "(uint n + 2 ^ 63) mod 2 ^ 64 = ((uint n - 2 ^ 63) + 2 ^ 64) mod 2 ^ 64" by (simp add: algebra_simps)
    also have "\<dots> = (uint n - 2 ^ 63) mod 2 ^ 64" by (rule mod_add_self2)
    also have "\<dots> = uint n - 2 ^ 63" using that u by (intro mod_pos_pos_trivial) simp_all
    finally show ?thesis .
  qed
  ultimately show ?thesis by simp
qed

lemma MaxInt64_sint: "(n :: u64) > MaxInt64 \<longleftrightarrow> sint n < 0"
  using uint_lt2p [of n] by (auto simp: MaxInt64_def word_less_def sint_cases)


lemma uint_not_minus: "0 < k \<Longrightarrow> uint (n :: u64) \<noteq> - k"
  using uint_ge_0 [of n] by linarith

lemma small_negative: "sint (bn :: BlockNumber) \<ge> - 2 \<Longrightarrow> sint bn < 0 \<Longrightarrow> bn = - 1 \<or> bn = - 2"
proof -
  assume "sint bn \<ge> - 2" "sint bn < 0"
  then have "sint bn = - 1 \<or> sint bn = - 2" by linarith
  then have "uint bn = uint (- 1 :: BlockNumber) \<or> uint bn = uint (- 2 :: BlockNumber)"
    using uint_not_minus [of 1 bn] uint_not_minus [of 2 bn] by (auto simp: sint_cases uint_word_ariths split: if_splits)
  then show ?thesis by (simp only: word_uint_eq_iff [symmetric])
qed

lemma erased_excl:
  "BlockNumberOrHash_UnmarshalJSON dec hj ht data zero_bnh = Inr b \<Longrightarrow> bnh_BlockNumber b = None \<or> bnh_BlockHash b = None"
  by (auto simp: BlockNumberOrHash_UnmarshalJSON_def zero_bnh_def split: sum.splits if_splits json.splits option.splits)

section \<open>Properties\<close>

text \<open>C39. Block numbers survive the wire: a block number of at least -2 is read back from its quoted
  text, and one below -2, which is written as the quantity of its two's complement, is
  refused. Of \<open>hexutil\<close> it is assumed that quantities start with 0x and decode to the number
  they encode.\<close>

theorem block_number_roundtrip:
  assumes "\<And>n. DecodeUint64 (EncodeUint64 n) = Inr n" and "\<And>n. \<exists>t. EncodeUint64 n = ''0x'' @ t"
  shows "BlockNumber_UnmarshalJSON DecodeUint64 (CHR 0x22 # BlockNumber_MarshalText EncodeUint64 bn @ [CHR 0x22]) =
    (if Int64 bn \<ge> - 2 then Inr bn else Inl (ErrString ''block number larger than int64''))"
proof -
  obtain t where t: "EncodeUint64 bn = ''0x'' @ t" using assms(2) by blast
  have n: "named_block (EncodeUint64 bn) = None" unfolding t by (rule named_block_0x)
  consider "bn = 0" | "bn = - 1" | "bn = - 2" | "bn \<noteq> 0" "bn \<noteq> - 1" "bn \<noteq> - 2" by blast
  then show ?thesis
  proof cases
    case 4
    then have "sint bn < 0 \<longleftrightarrow> \<not> sint bn \<ge> - 2" using small_negative [of bn] by linarith
    with 4 n assms(1) show ?thesis
      by (simp add: BlockNumber_UnmarshalJSON_def BlockNumber_MarshalText_def TrimSpace_quoted unquote_quoted
          EarliestBlockNumber_def LatestBlockNumber_def PendingBlockNumber_def MaxInt64_sint Int64_def)
  qed (simp_all add: BlockNumber_UnmarshalJSON_def BlockNumber_MarshalText_def TrimSpace_quoted [simplified]
      TrimSpace_def unquote_def is_space_def named_block_def
      EarliestBlockNumber_def LatestBlockNumber_def PendingBlockNumber_def Int64_def)
qed

text \<open>Hexadecimal quantities, to instantiate the parameters.\<close>

fun show_hex :: "nat \<Rightarrow> string" where
  "show_hex n = (if n < 16 then [hex_digit n] else show_hex (n div 16) @ [hex_digit (n mod 16)])"

declare show_hex.simps [simp del]

definition encode_quantity :: "u64 \<Rightarrow> string" where
  "encode_quantity n = ''0x'' @ show_hex (unat n)"

definition hex_number :: "string \<Rightarrow> nat" where
  "hex_number s = foldl (\<lambda>n c. n * 16 + hex_value c) 0 s"

definition decode_quantity :: "string \<Rightarrow> rpc_error + u64" where
  "decode_quantity s =
     (if \<not> HasPrefix s ''0x'' then Inl (ErrString ''hex string without 0x prefix'')
      else if hex_number (drop 2 s) < 2 ^ 64 then Inr (of_nat (hex_number (drop 2 s)))
      else Inl (ErrString ''hex number > 64 bits''))"

lemma hex_number_show [simp]: "hex_number (show_hex n) = n"
proof (induction n rule: show_hex.induct)
  case (1 n)
  show ?case
  proof (cases "n < 16")
    case True
    then show ?thesis by (simp add: show_hex.simps [of n] hex_number_def)
  next
    case False
    with 1 have "hex_number (show_hex (n div 16)) = n div 16" by simp
    with False show ?thesis by (simp add: show_hex.simps [of n] hex_number_def)
  qed
qed

lemma decode_encode_quantity: "decode_quantity (encode_quantity n) = Inr n"
  using unsigned_less [of n] by (simp add: decode_quantity_def encode_quantity_def HasPrefix_def)

theorem block_number_roundtrip_witness:
  "BlockNumber_UnmarshalJSON decode_quantity (CHR 0x22 # BlockNumber_MarshalText encode_quantity 27 @ [CHR 0x22]) = Inr 27 \<and>
   BlockNumber_UnmarshalJSON decode_quantity (CHR 0x22 # BlockNumber_MarshalText encode_quantity (- 3) @ [CHR 0x22]) =
     Inl (ErrString ''block number larger than int64'')"
proof -
  have "\<And>n. \<exists>t. encode_quantity n = ''0x'' @ t" by (simp add: encode_quantity_def)
  note r = block_number_roundtrip [of decode_quantity encode_quantity, OF decode_encode_quantity this]
  have i: "Int64 27 = 27" "Int64 (- 3) = - 3" by (simp_all add: Int64_def)
  from r [of 27] r [of "- 3"] show ?thesis by (simp add: i)
qed

text \<open>A block is named by its number or its hash, never by both: whatever JSON value is decoded
  into a fresh \<open>BlockNumberOrHash\<close>, if it is accepted then at most one of the two is set, and
  a number that is set from a string is one of the named blocks or not negative.\<close>

theorem block_number_or_hash_exclusive:
  assumes "BlockNumberOrHash_UnmarshalJSON dec hashJSON hashText data zero_bnh = Inr b"
  shows "(bnh_BlockNumber b = None \<or> bnh_BlockHash b = None) \<and>
    (\<forall>s n. data = JStr s \<longrightarrow> bnh_BlockNumber b = Some n \<longrightarrow> named_block s = Some n \<or> Int64 n \<ge> 0)"
proof
  show "bnh_BlockNumber b = None \<or> bnh_BlockHash b = None" using assms by (rule erased_excl)
  show "\<forall>s n. data = JStr s \<longrightarrow> bnh_BlockNumber b = Some n \<longrightarrow> named_block s = Some n \<or> Int64 n \<ge> 0"
    using assms by (auto simp: BlockNumberOrHash_UnmarshalJSON_def unmarshal_erased_def zero_bnh_def MaxInt64_sint
        Int64_def not_less split: sum.splits if_splits option.splits)
qed

theorem block_number_or_hash_exclusive_witness:
  "BlockNumberOrHash_UnmarshalJSON decode_quantity (\<lambda>_. Inl (ErrString [])) (\<lambda>s. Inr s) (JStr ''0x1b'') zero_bnh =
     Inr (BlockNumberOrHashWithNumber 27 :: string BlockNumberOrHash) \<and>
   bnh_BlockHash (BlockNumberOrHashWithNumber 27 :: string BlockNumberOrHash) = None"
proof -
  have r: "BlockNumberOrHash_UnmarshalJSON decode_quantity (\<lambda>_. Inl (ErrString [])) (\<lambda>s. Inr s) (JStr ''0x1b'') zero_bnh =
     Inr (BlockNumberOrHashWithNumber 27 :: string BlockNumberOrHash)"
    by (simp add: BlockNumberOrHash_UnmarshalJSON_def unmarshal_erased_def named_block_def decode_quantity_def HasPrefix_def
        hex_number_def hex_value_def zero_bnh_def BlockNumberOrHashWithNumber_def MaxInt64_def)
  show ?thesis using block_number_or_hash_exclusive [OF r] r by (simp add: BlockNumberOrHashWithNumber_def)
qed

text \<open>\<open>DecimalOrHex\<close> reads every uint64 in decimal, quoted or bare, and falls back to the
  hexadecimal decoder for what is not a decimal uint64, so a decimal number that is too large is
  only accepted if that decoder accepts it.\<close>

theorem decimal_or_hex_spec:
  "DecimalOrHex_UnmarshalJSON dec (show_nat n) = (if n < 2 ^ 64 then Inr (of_nat n) else dec (show_nat n)) \<and>
   DecimalOrHex_UnmarshalJSON dec (CHR 0x22 # show_nat n @ [CHR 0x22]) =
     (if n < 2 ^ 64 then Inr (of_nat n) else dec (show_nat n))"
proof -
  have d: "show_nat n \<noteq> []" "list_all is_digit (show_nat n)" using show_nat_digits [of n] by auto
  then have c: "is_digit (hd (show_nat n))" "is_digit (last (show_nat n))" by (auto simp: list_all_iff)
  have s: "\<not> is_space c \<and> c \<noteq> CHR 0x22" if "is_digit c" for c
    using that by (auto simp: is_digit_def is_space_def)
  then have "TrimSpace (show_nat n) = show_nat n" using c d by (intro TrimSpace_id) auto
  moreover have "unquote (show_nat n) = show_nat n" using c d s [OF c(1)] by (auto simp: unquote_def hd_conv_nth)
  ultimately show ?thesis
    by (simp add: DecimalOrHex_UnmarshalJSON_def ParseUint64_def TrimSpace_quoted unquote_quoted)
qed

end
