(* ===== verification/Rpc_Subscription.thy ===== *)
theory Rpc_Subscription
  imports Rpc_Json "HOL-Library.Sublist"
begin

text \<open>
  Subscriptions (src/util/rpc/subscription.go). On the server a \<open>Notifier\<close> buffers what the
  application sends until the subscription's ID has gone to the client; on the client a
  forwarding loop buffers notifications for the application's channel. A connection records
  the messages that were written and has an oracle for the writes that fail, so that a
  statement about all connections covers every pattern of failures. Random bytes are a
  parameter.
\<close>

section \<open>Connections and IDs\<close>

datatype wire = WMsg jsonrpcMessage | WBatch "jsonrpcMessage list"

record conn =
  written :: "wire list"
  attempts :: nat
  write_fails :: "nat \<Rightarrow> rpc_error option"

definition write_message :: "wire \<Rightarrow> (conn, rpc_error option) prog" where
  "write_message msg c = (case write_fails c (attempts c) of
     Some e \<Rightarrow> (Ret (Some e), c\<lparr>attempts := Suc (attempts c)\<rparr>)
   | None \<Rightarrow> (Ret None, c\<lparr>attempts := Suc (attempts c), written := written c @ [msg]\<rparr>))"

definition encodeID :: "string \<Rightarrow> string" where
  "encodeID b =
     (let id = TrimLeft (hex_encode b) (CHR ''0'') in
      ''0x'' @ (if id = [] then ''0'' else id))"

text \<open>The generator: sixteen bytes of the random source.\<close>

definition NewID :: "(nat \<Rightarrow> ('w, string) prog) \<Rightarrow> ('w, string) prog" where
  "NewID rng_Read = bindP (rng_Read 16) (\<lambda>id. returnP (encodeID id))"

text \<open>A \<open>Subscription\<close> is written to the client as its ID.\<close>

definition Subscription_MarshalJSON :: "string \<Rightarrow> json" where
  "Subscription_MarshalJSON subid = JStr subid"

section \<open>Notifiers\<close>

record Notifier =
  n_namespace :: string
  n_sub :: "string option"
  n_buffer :: "json list"
  n_callReturned :: bool
  n_activated :: bool

definition new_Notifier :: "string \<Rightarrow> Notifier" where
  "new_Notifier ns = \<lparr>n_namespace = ns, n_sub = None, n_buffer = [], n_callReturned = False, n_activated = False\<rparr>"

definition CreateSubscription :: "string \<Rightarrow> Notifier \<Rightarrow> Notifier outcome" where
  "CreateSubscription newID n =
     (if n_sub n \<noteq> None then Panicked (''can'' @ [CHR 0x27] @ ''t create multiple subscriptions with Notifier'')
      else if n_callReturned n then Panicked (''can'' @ [CHR 0x27] @ ''t create subscription after subscribe call has returned'')
      else Ret (n\<lparr>n_sub := Some newID\<rparr>))"

definition notification :: "string \<Rightarrow> string \<Rightarrow> json \<Rightarrow> jsonrpcMessage" where
  "notification ns subid data = zero_message\<lparr>Version := vsn, Method := ns @ notificationMethodSuffix,
     Params := Some (JObj [(''subscription'', JStr subid), (''result'', data)])\<rparr>"

definition Notifier_send :: "Notifier \<Rightarrow> json \<Rightarrow> (conn, rpc_error option) prog" where
  "Notifier_send n data = callP (n_sub n) (\<lambda>subid. write_message (WMsg (notification (n_namespace n) subid data)))"

text \<open>\<open>enc\<close> is the result of \<open>json.Marshal(data)\<close>.\<close>

definition Notify :: "string \<Rightarrow> rpc_error + json \<Rightarrow> Notifier \<Rightarrow> (conn, rpc_error option \<times> Notifier) prog" where
  "Notify subid enc n = (case enc of
     Inl err \<Rightarrow> returnP (Some err, n)
   | Inr data \<Rightarrow>
       (case n_sub n of
          None \<Rightarrow> panicP (''can'' @ [CHR 0x27] @ ''t Notify before subscription is created'')
        | Some s \<Rightarrow>
            if s \<noteq> subid then panicP ''Notify with wrong ID''
            else if n_activated n then bindP (Notifier_send n data) (\<lambda>err. returnP (err, n))
            else returnP (None, n\<lparr>n_buffer := n_buffer n @ [data]\<rparr>)))"

definition takeSubscription :: "Notifier \<Rightarrow> string option \<times> Notifier" where
  "takeSubscription n = (n_sub n, n\<lparr>n_callReturned := True\<rparr>)"

fun send_all :: "Notifier \<Rightarrow> json list \<Rightarrow> (conn, rpc_error option) prog" where
  "send_all n [] = returnP None"
| "send_all n (data # ds) = bindP (Notifier_send n data) (\<lambda>err.
     case err of Some e \<Rightarrow> returnP (Some e) | None \<Rightarrow> send_all n ds)"

definition activate :: "Notifier \<Rightarrow> (conn, rpc_error option \<times> Notifier) prog" where
  "activate n = bindP (send_all n (n_buffer n)) (\<lambda>err. case err of
     Some e \<Rightarrow> returnP (Some e, n)
   | None \<Rightarrow> returnP (None, n\<lparr>n_activated := True\<rparr>))"

section \<open>The life of a server subscription\<close>

text \<open>
  The call goroutine runs the subscription method, takes the subscription, writes the
  response and activates the notifier (\<open>handleMsg\<close> in handler.go); the application creates the
  subscription and notifies from any goroutine, at any time. Every operation holds the
  notifier's mutex. \<open>notified\<close> records the values \<open>Notify\<close> has accepted.
\<close>

datatype server_pc = SCall | STaken | SResponded | SActivated

record server_sub =
  ss_pc :: server_pc
  ss_notifier :: Notifier
  ss_conn :: conn
  notified :: "json list"

definition server_sub_init :: "string \<Rightarrow> (nat \<Rightarrow> rpc_error option) \<Rightarrow> server_sub" where
  "server_sub_init ns fails = \<lparr>ss_pc = SCall, ss_notifier = new_Notifier ns,
     ss_conn = \<lparr>written = [], attempts = 0, write_fails = fails\<rparr>, notified = []\<rparr>"

inductive server_step :: "wire \<Rightarrow> server_sub \<Rightarrow> server_sub \<Rightarrow> bool" for resp where
  app_create: "CreateSubscription newID (ss_notifier s) = Ret n \<Longrightarrow> server_step resp s (s\<lparr>ss_notifier := n\<rparr>)"
| app_notify: "Notify subid (Inr data) (ss_notifier s) (ss_conn s) = (Ret (err, n), c) \<Longrightarrow>
     server_step resp s (s\<lparr>ss_notifier := n, ss_conn := c, notified := notified s @ [data]\<rparr>)"
| take: "ss_pc s = SCall \<Longrightarrow> takeSubscription (ss_notifier s) = (sub, n) \<Longrightarrow>
     server_step resp s (s\<lparr>ss_pc := STaken, ss_notifier := n\<rparr>)"
| respond: "ss_pc s = STaken \<Longrightarrow> write_message resp (ss_conn s) = (Ret err, c) \<Longrightarrow>
     server_step resp s (s\<lparr>ss_pc := SResponded, ss_conn := c\<rparr>)"
| activated: "ss_pc s = SResponded \<Longrightarrow> activate (ss_notifier s) (ss_conn s) = (Ret (err, n), c) \<Longrightarrow>
     server_step resp s (s\<lparr>ss_pc := SActivated, ss_notifier := n, ss_conn := c\<rparr>)"

inductive_cases server_stepE: "server_step resp s t"

section \<open>Client subscriptions\<close>

text \<open>Sentinel errors are compared by identity; their texts are used by nothing else.\<close>

definition errUnsubscribed :: rpc_error where "errUnsubscribed = ErrString ''unsubscribed''"
definition ErrClientQuit :: rpc_error where "ErrClientQuit = ErrString ''client is closed''"
definition ErrSubscriptionQueueOverflow :: rpc_error where
  "ErrSubscriptionQueueOverflow = ErrString ''subscription queue overflow''"

definition maxClientSubscriptionBuffer :: nat where
  "maxClientSubscriptionBuffer = 20000"

text \<open>
  What the select of the forwarding loop can choose; the send is only offered when the buffer
  is not empty. The goroutine \<open>run\<close> is in the loop with its buffer, then past the close of
  \<open>forwardDone\<close> with the results of \<open>forward\<close>, then, if it has to unsubscribe, in the call
  \<open>requestUnsubscribe\<close>, which waits for the answer of the server with the background context, then past it with the
  error to report, and at the end past the close of \<open>unsubDone\<close>.
\<close>

datatype fwd_event = FQuit "rpc_error option" | FIn "json option" | FSend

datatype 'v run_pc = RForward "'v list" | RReturned bool "rpc_error option" | RRequest "rpc_error option" | RReport "rpc_error option" | RDone

definition forward :: "(json option \<Rightarrow> rpc_error + 'v) \<Rightarrow> fwd_event \<Rightarrow> 'v list \<Rightarrow> 'v run_pc" where
  "forward unmarshal ev buffer = (case ev of
     FQuit err \<Rightarrow> if err = Some errUnsubscribed then RReturned True None else RReturned False err
   | FIn raw \<Rightarrow> (case unmarshal raw of
         Inl err \<Rightarrow> RReturned True (Some err)
       | Inr val \<Rightarrow>
           if length buffer = maxClientSubscriptionBuffer then RReturned True (Some ErrSubscriptionQueueOverflow)
           else RForward (buffer @ [val]))
   | FSend \<Rightarrow> RForward (tl buffer))"

text \<open>
  A client subscription as its goroutines see it. \<open>Unsubscribe\<close> runs once, under \<open>errOnce\<close>:
  it is not called yet, is in its select, waits for \<open>unsubDone\<close> after its send on \<open>quit\<close>, or is over. The other
  fields are what has been taken from \<open>in\<close>, sent to the application's channel and on \<open>err\<close>,
  and the number of unsubscribe requests to the server.
\<close>

datatype unsub_pc = UIdle | UCalled | UWaiting | UFinished

record 'v ClientSubscription =
  run :: "'v run_pc"
  unsub :: unsub_pc
  taken :: "'v list"
  channel :: "'v list"
  err_sent :: "rpc_error option list"
  err_closed :: bool
  requests :: nat

definition newClientSubscription :: "'v ClientSubscription" where
  "newClientSubscription = \<lparr>run = RForward [], unsub = UIdle, taken = [], channel = [], err_sent = [],
     err_closed = False, requests = 0\<rparr>"

text \<open>\<open>deliver\<close> and \<open>close\<close> return at once when \<open>forwardDone\<close> is closed.\<close>

definition deliver :: "(json option \<Rightarrow> rpc_error + 'v) \<Rightarrow> json option \<Rightarrow> 'v ClientSubscription \<Rightarrow> bool \<times> 'v ClientSubscription" where
  "deliver unmarshal result sub = (case run sub of
     RForward buffer \<Rightarrow>
       (True, sub\<lparr>run := forward unmarshal (FIn result) buffer,
          taken := taken sub @ (case (unmarshal result, forward unmarshal (FIn result) buffer) of
             (Inr v, RForward _) \<Rightarrow> [v] | _ \<Rightarrow> [])\<rparr>)
   | _ \<Rightarrow> (False, sub))"

definition close_sub :: "(json option \<Rightarrow> rpc_error + 'v) \<Rightarrow> rpc_error option \<Rightarrow> 'v ClientSubscription \<Rightarrow> 'v ClientSubscription" where
  "close_sub unmarshal err sub = (case run sub of
     RForward buffer \<Rightarrow> sub\<lparr>run := forward unmarshal (FQuit err) buffer\<rparr>
   | _ \<Rightarrow> sub)"

definition report_error :: "rpc_error option \<Rightarrow> rpc_error option list" where
  "report_error err = (case err of None \<Rightarrow> [] | Some e \<Rightarrow> [if e = ErrClientQuit then None else Some e])"

inductive client_sub_step :: "(json option \<Rightarrow> rpc_error + 'v) \<Rightarrow> 'v ClientSubscription \<Rightarrow> 'v ClientSubscription \<Rightarrow> bool"
  for unmarshal where
  cs_deliver: "client_sub_step unmarshal s (snd (deliver unmarshal result s))"
| cs_close: "client_sub_step unmarshal s (close_sub unmarshal err s)"
| cs_send: "run s = RForward (v # vs) \<Longrightarrow>
     client_sub_step unmarshal s (s\<lparr>run := forward unmarshal FSend (v # vs), channel := channel s @ [v]\<rparr>)"
| cs_request: "run s = RReturned True err \<Longrightarrow>
     client_sub_step unmarshal s (s\<lparr>run := RRequest err, requests := requests s + 1\<rparr>)"
| cs_answered: "run s = RRequest err \<Longrightarrow> client_sub_step unmarshal s (s\<lparr>run := RReport err\<rparr>)"
| cs_no_request: "run s = RReturned False err \<Longrightarrow> client_sub_step unmarshal s (s\<lparr>run := RReport err\<rparr>)"
| cs_report: "run s = RReport err \<Longrightarrow>
     client_sub_step unmarshal s (s\<lparr>run := RDone, err_sent := err_sent s @ report_error err\<rparr>)"
| cs_call: "unsub s = UIdle \<Longrightarrow> client_sub_step unmarshal s (s\<lparr>unsub := UCalled\<rparr>)"
| cs_unsubscribe: "unsub s = UCalled \<Longrightarrow> run s = RForward buffer \<Longrightarrow>
     client_sub_step unmarshal s (s\<lparr>run := forward unmarshal (FQuit (Some errUnsubscribed)) buffer, unsub := UWaiting\<rparr>)"
| cs_unsubscribe_late: "unsub s = UCalled \<Longrightarrow> run s = RDone \<Longrightarrow>
     client_sub_step unmarshal s (s\<lparr>unsub := UFinished, err_closed := True\<rparr>)"
| cs_unsubscribed: "unsub s = UWaiting \<Longrightarrow> run s = RDone \<Longrightarrow>
     client_sub_step unmarshal s (s\<lparr>unsub := UFinished, err_closed := True\<rparr>)"

inductive_cases client_sub_stepE: "client_sub_step unmarshal s t"

section \<open>Lemmas\<close>

lemma takeWhile_0_dropWhile: "replicate (length (takeWhile (\<lambda>x. x = c) s)) c @ TrimLeft s c = s"
  unfolding TrimLeft_def by (induction s) auto

lemma TrimLeft_hd: "TrimLeft s c \<noteq> [] \<Longrightarrow> hd (TrimLeft s c) \<noteq> c"
  unfolding TrimLeft_def by (induction s) auto

lemma quantity_inj:
  "(s \<noteq> [] \<Longrightarrow> hd s \<noteq> c) \<Longrightarrow> (t \<noteq> [] \<Longrightarrow> hd t \<noteq> c) \<Longrightarrow>
   (if s = [] then [c] else s) = (if t = [] then [c] else t) \<Longrightarrow> s = t"
  by (auto split: if_splits)

lemma TrimLeft_inj:
  assumes "TrimLeft s c = TrimLeft t c" "length s = length t"
  shows "s = t"
proof -
  let ?n = "\<lambda>s. length (takeWhile (\<lambda>x. x = c) s)"
  have "?n s + length (TrimLeft s c) = length s" "?n t + length (TrimLeft t c) = length t"
    using arg_cong [OF takeWhile_0_dropWhile [of c s], of length] arg_cong [OF takeWhile_0_dropWhile [of c t], of length] by auto
  with assms have "?n s = ?n t" by simp
  then have "replicate (?n s) c @ TrimLeft s c = replicate (?n t) c @ TrimLeft t c" by (simp only: assms(1))
  then show ?thesis by (simp only: takeWhile_0_dropWhile)
qed

text \<open>The invariant of a client subscription.\<close>

definition client_sub_inv :: "'v ClientSubscription \<Rightarrow> bool" where
  "client_sub_inv s \<longleftrightarrow>
     (case run s of
        RForward buffer \<Rightarrow> taken s = channel s @ buffer \<and> length buffer \<le> maxClientSubscriptionBuffer \<and>
          err_sent s = [] \<and> requests s = 0 \<and> (unsub s = UIdle \<or> unsub s = UCalled)
      | RReturned _ _ \<Rightarrow> prefix (channel s) (taken s) \<and> err_sent s = [] \<and> requests s = 0
      | RRequest _ \<Rightarrow> prefix (channel s) (taken s) \<and> err_sent s = [] \<and> requests s \<le> 1
      | RReport _ \<Rightarrow> prefix (channel s) (taken s) \<and> err_sent s = [] \<and> requests s \<le> 1
      | RDone \<Rightarrow> prefix (channel s) (taken s) \<and> length (err_sent s) \<le> 1 \<and> requests s \<le> 1) \<and>
     (err_closed s \<longleftrightarrow> unsub s = UFinished) \<and> (unsub s = UFinished \<longrightarrow> run s = RDone)"

lemma client_sub_inv_init: "client_sub_inv newClientSubscription"
  by (simp add: client_sub_inv_def newClientSubscription_def)

lemma client_sub_inv_step: "client_sub_inv s \<Longrightarrow> client_sub_step unmarshal s t \<Longrightarrow> client_sub_inv t"
  by (erule client_sub_stepE)
    (auto simp: client_sub_inv_def deliver_def close_sub_def forward_def report_error_def prefix_def
      split: run_pc.splits sum.splits if_splits option.splits)

interpretation client_sub_sys: step_system "\<lambda>s. s = newClientSubscription" "client_sub_step unmarshal" client_sub_inv
  for unmarshal :: "json option \<Rightarrow> rpc_error + 'v"
  by unfold_locales (auto intro: client_sub_inv_init client_sub_inv_step)


lemma Notifier_send_ok:
  assumes "Notifier_send n data c = (Ret err, c')" "n_sub n = Some subid"
  shows "write_fails c' = write_fails c \<and> (err = None \<longleftrightarrow> write_fails c (attempts c) = None) \<and>
    written c' = written c @ (if err = None then [WMsg (notification (n_namespace n) subid data)] else [])"
  using assms by (auto simp: Notifier_send_def write_message_def split: option.splits)

lemma send_all_prefix:
  assumes "send_all n ds c = (Ret err, c')" "n_sub n = Some subid"
  shows "write_fails c' = write_fails c \<and> (\<exists>sent. prefix sent ds \<and> (err = None \<longrightarrow> sent = ds) \<and>
      written c' = written c @ map (WMsg \<circ> notification (n_namespace n) subid) sent) \<and>
    ((\<forall>k. write_fails c k = None) \<longrightarrow> err = None)"
  using assms(1)
proof (induction ds arbitrary: c)
  case Nil
  then show ?case by (simp add: run_simps)
next
  case (Cons d ds)
  obtain e c1 where e: "Notifier_send n d c = (Ret e, c1)"
    using assms(2) by (cases "write_fails c (attempts c)") (auto simp: Notifier_send_def write_message_def)
  note o = Notifier_send_ok [OF this assms(2)]
  show ?case
  proof (cases e)
    case None
    with Cons.prems e have "send_all n ds c1 = (Ret err, c')" by simp
    from Cons.IH [OF this] o None obtain sent where "prefix sent ds" "err = None \<longrightarrow> sent = ds"
      "written c' = written c1 @ map (WMsg \<circ> notification (n_namespace n) subid) sent" "write_fails c' = write_fails c1"
      "(\<forall>k. write_fails c1 k = None) \<longrightarrow> err = None" by blast
    with o None show ?thesis by (intro conjI exI [of _ "d # sent"]) auto
  next
    case (Some x)
    with Cons.prems e o show ?thesis by (auto simp: run_simps intro: exI [of _ "[]"])
  qed
qed

text \<open>
  The invariant of a server subscription: what is on the wire once the notifier has been
  activated, and the relation of its state to the control point before.
\<close>

definition reliable :: "(nat \<Rightarrow> rpc_error option) \<Rightarrow> bool" where
  "reliable fails \<longleftrightarrow> (\<forall>k. fails k = None)"

lemma reliableD: "reliable fails \<Longrightarrow> fails k = None"
  by (simp add: reliable_def)

definition on_wire :: "wire \<Rightarrow> string \<Rightarrow> (nat \<Rightarrow> rpc_error option) \<Rightarrow> string option \<Rightarrow> json list \<Rightarrow> bool \<Rightarrow>
    wire list \<Rightarrow> bool" where
  "on_wire resp ns fails sub ds active ms \<longleftrightarrow>
     (\<exists>r sent. (r = [] \<and> \<not> reliable fails \<or> r = [resp]) \<and> subseq sent ds \<and>
        ms = r @ map (WMsg \<circ> notification ns (the sub)) sent \<and> (reliable fails \<longrightarrow> active \<and> sent = ds))"

definition server_sub_inv :: "wire \<Rightarrow> string \<Rightarrow> (nat \<Rightarrow> rpc_error option) \<Rightarrow> server_sub \<Rightarrow> bool" where
  "server_sub_inv resp ns fails s \<longleftrightarrow>
     (let n = ss_notifier s; c = ss_conn s in
      n_namespace n = ns \<and> write_fails c = fails \<and>
      (n_sub n = None \<longrightarrow> notified s = []) \<and>
      (\<not> n_activated n \<longrightarrow> n_buffer n = notified s) \<and>
      (n_activated n \<longrightarrow> ss_pc s = SActivated) \<and>
      (ss_pc s \<noteq> SCall \<longrightarrow> n_callReturned n) \<and>
      (ss_pc s \<in> {SCall, STaken} \<longrightarrow> written c = []) \<and>
      (ss_pc s = SResponded \<longrightarrow> (written c = [] \<and> \<not> reliable fails) \<or> written c = [resp]) \<and>
      (ss_pc s = SActivated \<longrightarrow> on_wire resp ns fails (n_sub n) (notified s) (n_activated n) (written c)))"

lemma server_sub_inv_init: "server_sub_inv resp ns fails (server_sub_init ns fails)"
  by (simp add: server_sub_inv_def server_sub_init_def new_Notifier_def Let_def)

lemma subseq_snoc: "subseq xs ys \<Longrightarrow> subseq xs (ys @ [y])"
  by (metis append_Nil2 list_emb_append_mono list_emb_Nil)

lemma Notify_inactive:
  "Notify subid (Inr data) n c = (Ret (err, n'), c') \<Longrightarrow> \<not> n_activated n \<Longrightarrow>
   n_sub n = Some subid \<and> n' = n\<lparr>n_buffer := n_buffer n @ [data]\<rparr> \<and> c' = c"
  by (auto simp: Notify_def run_simps split: option.splits if_splits)

lemma Notify_active:
  "Notify subid (Inr data) n c = (Ret (err, n'), c') \<Longrightarrow> n_activated n \<Longrightarrow>
   n_sub n = Some subid \<and> n' = n \<and> Notifier_send n data c = (Ret err, c')"
  by (auto simp: Notify_def bindP_def run_simps split: option.splits if_splits prod.splits outcome.splits)

lemma on_wire_buffered: "on_wire resp ns fails sub ds False ms \<Longrightarrow> on_wire resp ns fails sub (ds @ [d]) False ms"
  unfolding on_wire_def by (blast intro: subseq_snoc)

lemma on_wire_notify:
  assumes "on_wire resp ns fails (Some subid) ds True ms" "ok \<longleftrightarrow> fails k = None"
  shows "on_wire resp ns fails (Some subid) (ds @ [d]) True (ms @ (if ok then [WMsg (notification ns subid d)] else []))"
proof -
  from assms(1) obtain r sent where rs: "r = [] \<and> \<not> reliable fails \<or> r = [resp]" "subseq sent ds"
    "ms = r @ map (WMsg \<circ> notification ns subid) sent" "reliable fails \<longrightarrow> sent = ds"
    by (auto simp: on_wire_def)
  show ?thesis
  proof (cases ok)
    case True
    then show ?thesis
      unfolding on_wire_def using rs by (intro exI [of _ r] exI [of _ "sent @ [d]"]) auto
  next
    case False
    then have "\<not> reliable fails" using assms(2) reliableD [of fails k] by auto
    with False show ?thesis
      unfolding on_wire_def using rs by (intro exI [of _ r] exI [of _ sent]) (simp add: subseq_snoc)
  qed
qed

lemma server_sub_inv_notify:
  assumes "server_sub_inv resp ns fails s" "Notify subid (Inr data) (ss_notifier s) (ss_conn s) = (Ret (err, n), c)"
  shows "server_sub_inv resp ns fails (s\<lparr>ss_notifier := n, ss_conn := c, notified := notified s @ [data]\<rparr>)"
proof (cases "n_activated (ss_notifier s)")
  case False
  with Notify_inactive [OF assms(2) False] assms(1) show ?thesis
    by (simp add: server_sub_inv_def Let_def on_wire_buffered)
next
  case True
  note a = Notify_active [OF assms(2) True]
  then have sub: "n_sub (ss_notifier s) = Some subid" by simp
  note o = Notifier_send_ok [OF conjunct2 [OF conjunct2 [OF a]] sub]
  have w: "on_wire resp ns fails (Some subid) (notified s) True (written (ss_conn s))"
    using assms(1) True sub by (simp add: server_sub_inv_def Let_def)
  have f: "write_fails (ss_conn s) = fails" "n_namespace (ss_notifier s) = ns"
    using assms(1) by (simp_all add: server_sub_inv_def Let_def)
  have "on_wire resp ns fails (Some subid) (notified s @ [data]) True (written c)"
    using on_wire_notify [OF w, of "err = None" "attempts (ss_conn s)" data] o f by auto
  then show ?thesis using assms(1) True a o sub f by (simp add: server_sub_inv_def Let_def)
qed

lemma activate_result:
  "activate n c = (Ret (err, n'), c') \<Longrightarrow>
   send_all n (n_buffer n) c = (Ret err, c') \<and> n' = (if err = None then n\<lparr>n_activated := True\<rparr> else n)"
  by (auto simp: activate_def bindP_def run_simps split: option.splits prod.splits outcome.splits)

lemma on_wire_activate:
  assumes "send_all n ds c = (Ret err, c')" "n_sub n = None \<longrightarrow> ds = []"
    and "written c = [] \<and> \<not> reliable (write_fails c) \<or> written c = [resp]"
  shows "write_fails c' = write_fails c \<and>
    on_wire resp (n_namespace n) (write_fails c) (n_sub n) ds (err = None) (written c')"
proof (cases "n_sub n")
  case None
  then have "c' = c" "err = None" "ds = []" using assms(1,2) by (simp_all add: run_simps)
  with assms(3) show ?thesis unfolding on_wire_def by (intro conjI exI [of _ "written c"] exI [of _ "[]"]) auto
next
  case (Some subid)
  from send_all_prefix [OF assms(1) Some] obtain sent where "prefix sent ds" "err = None \<longrightarrow> sent = ds"
    "written c' = written c @ map (WMsg \<circ> notification (n_namespace n) subid) sent" "write_fails c' = write_fails c"
    "reliable (write_fails c) \<longrightarrow> err = None" by (auto simp: reliable_def)
  with assms(3) Some show ?thesis
    unfolding on_wire_def by (intro conjI exI [of _ "written c"] exI [of _ sent]) (auto intro: prefix_imp_subseq)
qed

lemma server_sub_inv_activate:
  assumes "server_sub_inv resp ns fails s" "ss_pc s = SResponded"
    and "activate (ss_notifier s) (ss_conn s) = (Ret (err, n), c)"
  shows "server_sub_inv resp ns fails (s\<lparr>ss_pc := SActivated, ss_notifier := n, ss_conn := c\<rparr>)"
proof -
  note a = activate_result [OF assms(3)]
  have i: "\<not> n_activated (ss_notifier s)" "n_buffer (ss_notifier s) = notified s" "write_fails (ss_conn s) = fails"
    "n_sub (ss_notifier s) = None \<longrightarrow> notified s = []" "n_namespace (ss_notifier s) = ns" "n_callReturned (ss_notifier s)"
    "written (ss_conn s) = [] \<and> \<not> reliable fails \<or> written (ss_conn s) = [resp]"
    using assms(1,2) by (auto simp: server_sub_inv_def Let_def)
  have "write_fails c = fails \<and> on_wire resp ns fails (n_sub (ss_notifier s)) (notified s) (err = None) (written c)"
    using on_wire_activate [of "ss_notifier s" "notified s" "ss_conn s" err c resp] a i by simp
  then show ?thesis using a i by (cases err) (simp_all add: server_sub_inv_def Let_def)
qed

lemma server_sub_inv_step:
  assumes "server_sub_inv resp ns fails s" "server_step resp s t"
  shows "server_sub_inv resp ns fails t"
  using assms(2)
proof (cases rule: server_step.cases)
  case (app_create newID n)
  with assms(1) show ?thesis by (auto simp: server_sub_inv_def Let_def CreateSubscription_def split: if_splits)
next
  case (app_notify subid data err n c)
  with server_sub_inv_notify [OF assms(1)] show ?thesis by simp
next
  case (take sub n)
  with assms(1) show ?thesis by (auto simp: server_sub_inv_def Let_def takeSubscription_def)
next
  case (respond err c)
  with assms(1) reliableD [of fails "attempts (ss_conn s)"] show ?thesis
    by (auto simp: server_sub_inv_def Let_def write_message_def split: option.splits)
next
  case (activated err n c)
  with server_sub_inv_activate [OF assms(1)] show ?thesis by simp
qed

interpretation server_sub_sys: step_system "\<lambda>s. s = server_sub_init ns fails" "server_step resp" "server_sub_inv resp ns fails"
  for ns fails resp
  by unfold_locales (auto intro: server_sub_inv_init server_sub_inv_step)

section \<open>Properties\<close>

text \<open>C8. A client sees a subscription's ID before its notifications, and sees those in order: in every
  state of a server subscription, whatever the interleaving with the application and whichever
  writes fail, nothing is written before the call has returned, and what is written is the
  response, if its write succeeded, followed by some of the accepted notifications in their
  order. If no write fails, then after activation it is the response and all of them.\<close>

theorem notifications_after_response:
  assumes "(server_step resp)\<^sup>*\<^sup>* (server_sub_init ns fails) s"
  shows "(ss_pc s \<in> {SCall, STaken} \<longrightarrow> written (ss_conn s) = []) \<and>
    (\<exists>r sent. (r = [] \<or> r = [resp]) \<and> subseq sent (notified s) \<and>
       written (ss_conn s) = r @ map (WMsg \<circ> notification ns (the (n_sub (ss_notifier s)))) sent) \<and>
    (ss_pc s = SActivated \<longrightarrow> (\<forall>k. fails k = None) \<longrightarrow>
       written (ss_conn s) = resp # map (WMsg \<circ> notification ns (the (n_sub (ss_notifier s)))) (notified s))"
proof -
  have i: "server_sub_inv resp ns fails s" using server_sub_sys.inv_reachable [OF refl assms] .
  have "\<exists>r sent. (r = [] \<or> r = [resp]) \<and> subseq sent (notified s) \<and>
       written (ss_conn s) = r @ map (WMsg \<circ> notification ns (the (n_sub (ss_notifier s)))) sent"
  proof (cases "ss_pc s = SActivated")
    case True
    with i show ?thesis by (auto simp: server_sub_inv_def Let_def on_wire_def)
  next
    case False
    with i have "written (ss_conn s) = [] \<or> written (ss_conn s) = [resp]"
      by (cases "ss_pc s") (auto simp: server_sub_inv_def Let_def)
    then show ?thesis by (intro exI [of _ "written (ss_conn s)"] exI [of _ "[]"]) auto
  qed
  with i show ?thesis by (auto simp: server_sub_inv_def Let_def on_wire_def reliable_def)
qed

theorem notifications_after_response_witness:
  "\<exists>s. (server_step (WMsg zero_message))\<^sup>*\<^sup>* (server_sub_init ''eth'' (\<lambda>_. None)) s \<and> ss_pc s = SActivated \<and>
     written (ss_conn s) = [WMsg zero_message, WMsg (notification ''eth'' ''0x1'' (JNum ''5''))]"
proof -
  let ?s0 = "server_sub_init ''eth'' (\<lambda>_. None)"
  let ?n1 = "(new_Notifier ''eth'')\<lparr>n_sub := Some ''0x1''\<rparr>"
  let ?s1 = "?s0\<lparr>ss_notifier := ?n1\<rparr>"
  let ?n2 = "?n1\<lparr>n_buffer := [JNum ''5'']\<rparr>"
  let ?s2 = "?s1\<lparr>ss_notifier := ?n2, notified := [JNum ''5'']\<rparr>"
  let ?n3 = "?n2\<lparr>n_callReturned := True\<rparr>"
  let ?s3 = "?s2\<lparr>ss_pc := STaken, ss_notifier := ?n3\<rparr>"
  let ?c4 = "\<lparr>written = [WMsg zero_message], attempts = 1, write_fails = \<lambda>_. None\<rparr>"
  let ?s4 = "?s3\<lparr>ss_pc := SResponded, ss_conn := ?c4\<rparr>"
  let ?c5 = "\<lparr>written = [WMsg zero_message, WMsg (notification ''eth'' ''0x1'' (JNum ''5''))], attempts = 2, write_fails = \<lambda>_. None\<rparr>"
  let ?s5 = "?s4\<lparr>ss_pc := SActivated, ss_notifier := ?n3\<lparr>n_activated := True\<rparr>, ss_conn := ?c5\<rparr>"
  let ?R = "server_step (WMsg zero_message)"
  have "?R ?s0 ?s1"
    using app_create [of "''0x1''" ?s0 ?n1 "WMsg zero_message"] by (simp add: CreateSubscription_def server_sub_init_def new_Notifier_def)
  moreover have "?R ?s1 ?s2"
    using app_notify [of "''0x1''" "JNum ''5''" ?s1 None ?n2 "ss_conn ?s1" "WMsg zero_message"]
    by (simp add: Notify_def server_sub_init_def new_Notifier_def run_simps)
  moreover have "?R ?s2 ?s3"
    using take [of ?s2 "Some ''0x1''" ?n3 "WMsg zero_message"] by (simp add: takeSubscription_def server_sub_init_def new_Notifier_def)
  moreover have "?R ?s3 ?s4"
    using respond [of ?s3 "WMsg zero_message" None ?c4] by (simp add: write_message_def server_sub_init_def)
  moreover have "?R ?s4 ?s5"
    using activated [of ?s4 None "?n3\<lparr>n_activated := True\<rparr>" ?c5 "WMsg zero_message"]
    by (simp add: activate_def Notifier_send_def write_message_def new_Notifier_def server_sub_init_def run_simps)
  ultimately have r: "?R\<^sup>*\<^sup>* ?s0 ?s5" by (meson rtranclp.rtrancl_into_rtrancl rtranclp.rtrancl_refl)
  show ?thesis using notifications_after_response [OF r] r by (intro exI [of _ ?s5]) (simp add: server_sub_init_def)
qed

text \<open>C9. A client subscription forwards in order, in bounded memory, and shuts down safely: in every
  reachable state the values sent to the application's channel are a prefix of the accepted
  notifications, of which at most 20000 wait in the buffer; at most one value is ever sent on the
  error channel, so the send on this channel of capacity one never blocks; the channel is only
  closed after the goroutine has finished; and the server is asked at most once to
  unsubscribe.\<close>

theorem client_subscription_safe:
  assumes "(client_sub_step unmarshal)\<^sup>*\<^sup>* newClientSubscription s"
  shows "prefix (channel s) (taken s) \<and>
    (\<forall>buffer. run s = RForward buffer \<longrightarrow> taken s = channel s @ buffer \<and> length buffer \<le> 20000) \<and>
    length (err_sent s) \<le> 1 \<and> (err_closed s \<longrightarrow> run s = RDone) \<and> requests s \<le> 1"
  using client_sub_sys.inv_reachable [OF refl assms]
  by (auto simp: client_sub_inv_def maxClientSubscriptionBuffer_def split: run_pc.splits)

lemma deliver_new: "unmarshal j = Inr v \<Longrightarrow>
  deliver unmarshal j newClientSubscription = (True, newClientSubscription\<lparr>run := RForward [v], taken := [v]\<rparr>)"
  by (simp add: deliver_def newClientSubscription_def forward_def maxClientSubscriptionBuffer_def)

theorem client_subscription_safe_witness:
  "\<exists>s. (client_sub_step (\<lambda>j. Inr j))\<^sup>*\<^sup>* newClientSubscription s \<and> run s = RForward [None] \<and>
     taken s = channel s @ [None]"
proof -
  let ?s = "newClientSubscription\<lparr>run := RForward [None], taken := [None]\<rparr>"
  have "client_sub_step (\<lambda>j. Inr j) newClientSubscription ?s"
    using cs_deliver [of "\<lambda>j. Inr j" newClientSubscription None] by (simp add: deliver_new)
  then have r: "(client_sub_step (\<lambda>j. Inr j))\<^sup>*\<^sup>* newClientSubscription ?s" by (rule r_into_rtranclp)
  show ?thesis using client_subscription_safe [OF r] r by (intro exI [of _ ?s]) (simp add: newClientSubscription_def)
qed










text \<open>Subscription IDs are RPC quantities and as good as the random bytes: an ID is 0x followed by a
  number without leading zeros, and different byte strings of the same length give different
  IDs.\<close>

theorem encodeID_quantity:
  "(\<exists>t. encodeID b = ''0x'' @ t \<and> t \<noteq> [] \<and> (hd t = CHR ''0'' \<longrightarrow> t = ''0'')) \<and>
   (length b = length b' \<longrightarrow> encodeID b = encodeID b' \<longrightarrow> b = b')"
proof
  let ?t = "\<lambda>b. TrimLeft (hex_encode b) (CHR ''0'')"
  show "\<exists>t. encodeID b = ''0x'' @ t \<and> t \<noteq> [] \<and> (hd t = CHR ''0'' \<longrightarrow> t = ''0'')"
    using TrimLeft_hd [of "hex_encode b" "CHR ''0''"] by (auto simp: encodeID_def Let_def)
  show "length b = length b' \<longrightarrow> encodeID b = encodeID b' \<longrightarrow> b = b'"
  proof (intro impI)
    assume len: "length b = length b'" and eq: "encodeID b = encodeID b'"
    have "?t b = ?t b'"
      by (rule quantity_inj [OF TrimLeft_hd TrimLeft_hd]) (use eq in \<open>simp_all add: encodeID_def Let_def\<close>)
    then have "hex_encode b = hex_encode b'" by (rule TrimLeft_inj) (simp add: len)
    then show "b = b'" by (metis hex_decode_encode)
  qed
qed

theorem encodeID_quantity_witness:
  "encodeID ''ab'' \<noteq> encodeID ''ac'' \<and> (\<exists>t. encodeID ''ab'' = ''0x'' @ t \<and> t \<noteq> [])"
  using encodeID_quantity [of "''ab''" "''ac''"] by auto

end
