(* ===== verification/Rpc_Requests.thy ===== *)
theory Rpc_Requests
  imports Rpc_Subscription "HOL-Library.AList"
begin

text \<open>
  The client's half of the connection handler (src/util/rpc/handler.go and the type
  \<open>requestOp\<close> of src/util/rpc/client.go): requests waiting for their responses, subscriptions
  of the client, and what a response, a notification or the end of the connection does to
  them. Pointers to requests and to subscriptions are numbers into a store. A request's
  channel \<open>resp\<close> is the list of what has been sent to it and the number of times it has been
  closed; a second close would panic, and a send beyond the capacity would block the
  dispatching goroutine.
\<close>

section \<open>State\<close>

record requestOp =
  op_ids :: "json list"
  op_err :: "rpc_error option"
  op_resp :: "jsonrpcMessage list"
  op_closed :: nat
  op_sub :: "nat option"

record 'v requests =
  respWait :: "(string \<times> nat) list"
  op_store :: "nat \<Rightarrow> requestOp"
  clientSubs :: "(string \<times> nat) list"
  sub_store :: "nat \<Rightarrow> 'v ClientSubscription"

definition request_keys :: "requestOp \<Rightarrow> string list" where
  "request_keys op = map show_json (op_ids op)"

definition addRequestOp :: "nat \<Rightarrow> 'v requests \<Rightarrow> 'v requests" where
  "addRequestOp op h = h\<lparr>respWait := fold (\<lambda>k. AList.update k op) (request_keys (op_store h op)) (respWait h)\<rparr>"

definition removeRequestOp :: "nat \<Rightarrow> 'v requests \<Rightarrow> 'v requests" where
  "removeRequestOp op h = h\<lparr>respWait := fold AList.delete (request_keys (op_store h op)) (respWait h)\<rparr>"

definition close_op :: "rpc_error option \<Rightarrow> requestOp \<Rightarrow> requestOp" where
  "close_op err op = op\<lparr>op_err := err, op_closed := Suc (op_closed op)\<rparr>"

text \<open>The loop over \<open>respWait\<close>; \<open>closed\<close> is \<open>didClose\<close>.\<close>

fun cancel_ops :: "rpc_error option \<Rightarrow> nat list \<Rightarrow> (string \<times> nat) list \<Rightarrow> (nat \<Rightarrow> requestOp) \<Rightarrow> (nat \<Rightarrow> requestOp)" where
  "cancel_ops err closed [] store = store"
| "cancel_ops err closed ((k, op) # es) store =
     (if op \<in> set closed then cancel_ops err closed es store
      else cancel_ops err (op # closed) es (store(op := close_op err (store op))))"

fun close_subs :: "(nat \<Rightarrow> json option \<Rightarrow> rpc_error + 'v) \<Rightarrow> rpc_error option \<Rightarrow> (string \<times> nat) list \<Rightarrow>
    (nat \<Rightarrow> 'v ClientSubscription) \<Rightarrow> (nat \<Rightarrow> 'v ClientSubscription)" where
  "close_subs un err [] store = store"
| "close_subs un err ((k, sub) # es) store = close_subs un err es (store(sub := close_sub (un sub) err (store sub)))"

definition cancelAllRequests :: "(nat \<Rightarrow> json option \<Rightarrow> rpc_error + 'v) \<Rightarrow> rpc_error option \<Rightarrow> nat option \<Rightarrow>
    'v requests \<Rightarrow> 'v requests" where
  "cancelAllRequests un err inflightReq h =
     h\<lparr>op_store := cancel_ops err (case inflightReq of None \<Rightarrow> [] | Some op \<Rightarrow> [op]) (respWait h) (op_store h),
       respWait := [], sub_store := close_subs un err (clientSubs h) (sub_store h), clientSubs := []\<rparr>"

text \<open>\<open>json.Unmarshal\<close> of the parameters of a notification, and of the ID of a subscription.\<close>

definition subscription_result_field :: "string \<times> json \<Rightarrow> (string \<times> json option) \<times> bool \<Rightarrow> (string \<times> json option) \<times> bool" where
  "subscription_result_field kv st = (case find_field [''subscription'', ''result''] (fst kv) of
     None \<Rightarrow> st
   | Some k \<Rightarrow>
       if k = ''subscription'' then
         (case snd kv of JStr s \<Rightarrow> ((s, snd (fst st)), snd st) | JNull \<Rightarrow> st | _ \<Rightarrow> (fst st, True))
       else ((fst (fst st), Some (snd kv)), snd st))"

definition unmarshal_subscription_result :: "json option \<Rightarrow> rpc_error + string \<times> json option" where
  "unmarshal_subscription_result params = (case params of
     Some (JObj fs) \<Rightarrow>
       (let (res, mismatch) = fold subscription_result_field fs (([], None), False) in
        if mismatch then Inl (ErrString ''json: cannot unmarshal'') else Inr res)
   | Some JNull \<Rightarrow> Inr ([], None)
   | Some _ \<Rightarrow> Inl (ErrString ''json: cannot unmarshal'')
   | None \<Rightarrow> Inl (ErrString ''unexpected end of JSON input''))"

definition unmarshal_string :: "json option \<Rightarrow> rpc_error + string" where
  "unmarshal_string j = (case j of
     Some (JStr s) \<Rightarrow> Inr s
   | Some JNull \<Rightarrow> Inr []
   | Some _ \<Rightarrow> Inl (ErrString ''json: cannot unmarshal'')
   | None \<Rightarrow> Inl (ErrString ''unexpected end of JSON input''))"

definition handleSubscriptionResult :: "(nat \<Rightarrow> json option \<Rightarrow> rpc_error + 'v) \<Rightarrow> jsonrpcMessage \<Rightarrow> 'v requests \<Rightarrow> 'v requests" where
  "handleSubscriptionResult un msg h = (case unmarshal_subscription_result (Params msg) of
     Inl _ \<Rightarrow> h
   | Inr (subid, result) \<Rightarrow> (case map_of (clientSubs h) subid of
         None \<Rightarrow> h
       | Some sub \<Rightarrow> h\<lparr>sub_store := (sub_store h)(sub := snd (deliver (un sub) result (sub_store h sub)))\<rparr>))"

text \<open>\<open>go op.sub.run()\<close> starts the forwarding loop with an empty buffer.\<close>

definition handleResponse :: "jsonrpcMessage \<Rightarrow> 'v requests \<Rightarrow> 'v requests" where
  "handleResponse msg h =
     (case ID msg of None \<Rightarrow> h | Some rawid \<Rightarrow>
      (case map_of (respWait h) (show_json rawid) of
         None \<Rightarrow> h
       | Some op \<Rightarrow>
           let h1 = h\<lparr>respWait := AList.delete (show_json rawid) (respWait h)\<rparr>; r = op_store h op in
           (case op_sub r of
              None \<Rightarrow> h1\<lparr>op_store := (op_store h)(op := r\<lparr>op_resp := op_resp r @ [msg]\<rparr>)\<rparr>
            | Some sub \<Rightarrow>
                (case MsgError msg of
                   Some e \<Rightarrow> h1\<lparr>op_store := (op_store h)(op := close_op (Some (ErrJson e)) r)\<rparr>
                 | None \<Rightarrow> (case unmarshal_string (Result msg) of
                       Inl e \<Rightarrow> h1\<lparr>op_store := (op_store h)(op := close_op (Some e) r)\<rparr>
                     | Inr subid \<Rightarrow> h1\<lparr>op_store := (op_store h)(op := close_op None r),
                           clientSubs := AList.update subid sub (clientSubs h),
                           sub_store := (sub_store h)(sub := newClientSubscription)\<rparr>)))))"

definition handleImmediate :: "(nat \<Rightarrow> json option \<Rightarrow> rpc_error + 'v) \<Rightarrow> jsonrpcMessage \<Rightarrow> 'v requests \<Rightarrow> bool \<times> 'v requests" where
  "handleImmediate un msg h =
     (if isNotification msg then
        (if HasSuffix (Method msg) notificationMethodSuffix then (True, handleSubscriptionResult un msg h) else (False, h))
      else if isResponse msg then (True, handleResponse msg h)
      else (False, h))"

section \<open>Events\<close>

text \<open>
  What can happen to the requests of one connection, in any order and with any arguments: the
  dispatching goroutine registers a request (\<open>addRequestOp\<close>, called at client.go:601 and :594, there
  for a request that was registered before), drops one (\<open>removeRequestOp\<close>), reads a message, or
  cancels all of them. \<open>regs\<close> counts how often a request has been registered.
\<close>

datatype request_event = Add nat | Remove nat | Receive jsonrpcMessage | Cancel "rpc_error option" "nat option"

fun apply_event :: "(nat \<Rightarrow> json option \<Rightarrow> rpc_error + 'v) \<Rightarrow> request_event \<Rightarrow> 'v requests \<Rightarrow> 'v requests" where
  "apply_event un (Add op) h = addRequestOp op h"
| "apply_event un (Remove op) h = removeRequestOp op h"
| "apply_event un (Receive msg) h = snd (handleImmediate un msg h)"
| "apply_event un (Cancel err inflightReq) h = cancelAllRequests un err inflightReq h"

definition regs :: "request_event list \<Rightarrow> nat \<Rightarrow> nat" where
  "regs evs op = count_list evs (Add op)"

text \<open>A request as the client makes it: nothing was sent to its channel, and that of a subscription has one ID.\<close>

definition fresh_op :: "requestOp \<Rightarrow> bool" where
  "fresh_op op \<longleftrightarrow> op_resp op = [] \<and> op_closed op = 0 \<and> (op_sub op \<noteq> None \<longrightarrow> length (op_ids op) = 1)"

section \<open>The invariant\<close>

definition waiting :: "'v requests \<Rightarrow> nat \<Rightarrow> string set" where
  "waiting h op = {k. map_of (respWait h) k = Some op}"

text \<open>The request \<open>op\<close> has been registered \<open>n op\<close> times, or can be treated as if it had been.\<close>

definition answers_op :: "requestOp \<Rightarrow> jsonrpcMessage \<Rightarrow> bool" where
  "answers_op r m \<longleftrightarrow> (case ID m of None \<Rightarrow> False | Some i \<Rightarrow> show_json i \<in> set (request_keys r))"

lemma answers_op_same: "op_ids r = op_ids r' \<Longrightarrow> answers_op r = answers_op r'"
  by (rule ext) (simp add: answers_op_def request_keys_def split: option.split)

definition requests_inv :: "(nat \<Rightarrow> nat) \<Rightarrow> 'v requests \<Rightarrow> bool" where
  "requests_inv n h \<longleftrightarrow> distinct (map fst (respWait h)) \<and> (\<forall>op.
     let r = op_store h op in
     waiting h op \<subseteq> set (request_keys r) \<and> list_all (answers_op r) (op_resp r) \<and>
     card (waiting h op) + length (op_resp r) \<le> n op * length (op_ids r) \<and>
     op_closed r \<le> n op \<and> (waiting h op \<noteq> {} \<longrightarrow> op_closed r < n op \<and> (op_sub r \<noteq> None \<longrightarrow> length (op_ids r) = 1)))"

abbreviation request_inv :: "'v requests \<Rightarrow> bool" where
  "request_inv \<equiv> requests_inv (\<lambda>_. Suc 0)"

lemma requests_invI:
  assumes "distinct (map fst (respWait h))"
    and "\<And>op. waiting h op \<subseteq> set (request_keys (op_store h op))"
    and "\<And>op. list_all (answers_op (op_store h op)) (op_resp (op_store h op))"
    and "\<And>op. card (waiting h op) + length (op_resp (op_store h op)) \<le> n op * length (op_ids (op_store h op))"
    and "\<And>op. op_closed (op_store h op) \<le> n op"
    and "\<And>op k. k \<in> waiting h op \<Longrightarrow>
      op_closed (op_store h op) < n op \<and> (op_sub (op_store h op) \<noteq> None \<longrightarrow> length (op_ids (op_store h op)) = 1)"
  shows "requests_inv n h"
  using assms unfolding requests_inv_def Let_def by blast

lemma requests_invD:
  assumes "requests_inv n h"
  shows "distinct (map fst (respWait h))" "waiting h op \<subseteq> set (request_keys (op_store h op))"
    "list_all (answers_op (op_store h op)) (op_resp (op_store h op))"
    "card (waiting h op) + length (op_resp (op_store h op)) \<le> n op * length (op_ids (op_store h op))"
    "op_closed (op_store h op) \<le> n op"
    "k \<in> waiting h op \<Longrightarrow> op_closed (op_store h op) < n op"
    "k \<in> waiting h op \<Longrightarrow> op_sub (op_store h op) \<noteq> None \<Longrightarrow> length (op_ids (op_store h op)) = 1"
  using assms unfolding requests_inv_def Let_def by blast+

lemma waiting_finite [simp]: "finite (waiting h op)"
  by (rule finite_subset [of _ "dom (map_of (respWait h))"]) (auto simp: waiting_def finite_dom_map_of)

lemma map_of_fold_update:
  "map_of (fold (\<lambda>k. AList.update k v) ks al) k = (if k \<in> set ks then Some v else map_of al k)"
  by (induction ks arbitrary: al) (auto simp: update_conv)

lemma map_of_fold_delete: "map_of (fold AList.delete ks al) k = (if k \<in> set ks then None else map_of al k)"
  by (induction ks arbitrary: al) (auto simp: delete_conv)

lemma distinct_fold_update: "distinct (map fst al) \<Longrightarrow> distinct (map fst (fold (\<lambda>k. AList.update k v) ks al))"
  by (induction ks arbitrary: al) (simp_all add: distinct_update)

lemma distinct_fold_delete: "distinct (map fst al) \<Longrightarrow> distinct (map fst (fold AList.delete ks al))"
  by (induction ks arbitrary: al) (simp_all add: distinct_delete)

lemma waiting_add: "waiting (addRequestOp op h) op' =
    (if op' = op then waiting h op \<union> set (request_keys (op_store h op)) else waiting h op' - set (request_keys (op_store h op)))"
  by (auto simp: waiting_def addRequestOp_def map_of_fold_update)

lemma waiting_remove: "waiting (removeRequestOp op h) op' = waiting h op' - set (request_keys (op_store h op))"
  by (auto simp: waiting_def removeRequestOp_def map_of_fold_delete)

lemma requests_inv_smaller:
  assumes "requests_inv n h" "distinct (map fst (respWait h'))" "op_store h' = op_store h" "\<And>op. waiting h' op \<subseteq> waiting h op"
  shows "requests_inv n h'"
proof (rule requests_invI)
  fix op
  have "card (waiting h' op) \<le> card (waiting h op)" using assms(4) by (simp add: card_mono)
  then show "card (waiting h' op) + length (op_resp (op_store h' op)) \<le> n op * length (op_ids (op_store h' op))"
    using requests_invD(4) [OF assms(1), of op] assms(3) by simp
qed (use assms requests_invD [OF assms(1)] in \<open>auto dest!: subsetD [OF assms(4)]\<close>)

text \<open>A registration: the count of the request grows to \<open>m\<close>, which has room for it.\<close>

lemma requests_inv_add:
  assumes "requests_inv n h" and r: "r = op_store h op" "op_sub r \<noteq> None \<longrightarrow> length (op_ids r) = 1"
    and m: "op_closed r < m" "length (op_ids r) + length (op_resp r) \<le> m * length (op_ids r)"
  shows "requests_inv (n(op := m)) (addRequestOp op h)"
proof (rule requests_invI)
  let ?h = "addRequestOp op h" and ?ks = "set (request_keys (op_store h op))"
  have st [simp]: "op_store ?h = op_store h" by (simp add: addRequestOp_def)
  show "distinct (map fst (respWait ?h))"
    using requests_invD(1) [OF assms(1)] by (simp add: addRequestOp_def distinct_fold_update)
  fix op'
  show "waiting ?h op' \<subseteq> set (request_keys (op_store ?h op'))"
    using requests_invD(2) [OF assms(1), of op'] by (auto simp: waiting_add)
  show "list_all (answers_op (op_store ?h op')) (op_resp (op_store ?h op'))" using requests_invD(3) [OF assms(1), of op'] by simp
  show "op_closed (op_store ?h op') \<le> (n(op := m)) op'" using requests_invD(5) [OF assms(1), of op'] m(1) r(1) by auto
  show "card (waiting ?h op') + length (op_resp (op_store ?h op')) \<le> (n(op := m)) op' * length (op_ids (op_store ?h op'))"
  proof (cases "op' = op")
    case True
    have "waiting ?h op = ?ks" using requests_invD(2) [OF assms(1), of op] by (auto simp: waiting_add)
    moreover have "card ?ks \<le> length (op_ids (op_store h op))"
      using card_length [of "request_keys (op_store h op)"] by (simp add: request_keys_def)
    ultimately show ?thesis using True m(2) r(1) by simp
  next
    case False
    then have "card (waiting ?h op') \<le> card (waiting h op')" by (simp add: waiting_add card_mono)
    then show ?thesis using requests_invD(4) [OF assms(1), of op'] False by simp
  qed
  fix k assume "k \<in> waiting ?h op'"
  then show "op_closed (op_store ?h op') < (n(op := m)) op' \<and> (op_sub (op_store ?h op') \<noteq> None \<longrightarrow> length (op_ids (op_store ?h op')) = 1)"
    using m r requests_invD(6,7) [OF assms(1), of k op'] by (auto simp: waiting_add split: if_splits)
qed

lemma request_inv_add:
  assumes "request_inv h" "fresh_op (op_store h op)"
  shows "request_inv (addRequestOp op h)"
  using requests_inv_add [OF assms(1) refl, of op "Suc 0"] assms(2) by (simp add: fresh_op_def fun_upd_idem)

lemma cancel_ops_apply:
  "cancel_ops err closed es store op =
     (if op \<in> snd ` set es \<and> op \<notin> set closed then close_op err (store op) else store op)"
proof (induction es arbitrary: closed store)
  case (Cons e es)
  then show ?case by (cases e) (auto simp: Cons.IH)
qed simp

lemma requests_inv_cancel:
  assumes "requests_inv n h"
  shows "requests_inv n (cancelAllRequests un err inflightReq h)"
proof (rule requests_invI)
  let ?h = "cancelAllRequests un err inflightReq h"
  show "distinct (map fst (respWait ?h))" by (simp add: cancelAllRequests_def)
  fix op
  have w: "waiting ?h op = {}" by (simp add: waiting_def cancelAllRequests_def)
  then show "waiting ?h op \<subseteq> set (request_keys (op_store ?h op))" by simp
  have st: "op_store ?h op = op_store h op \<or> (op \<in> snd ` set (respWait h) \<and> op_store ?h op = close_op err (op_store h op))"
    by (auto simp: cancelAllRequests_def cancel_ops_apply)
  then show "card (waiting ?h op) + length (op_resp (op_store ?h op)) \<le> n op * length (op_ids (op_store ?h op))"
    using requests_invD(4) [OF assms, of op] by (auto simp: w close_op_def)
  show "list_all (answers_op (op_store ?h op)) (op_resp (op_store ?h op))"
    using st requests_invD(3) [OF assms, of op] answers_op_same [of "close_op err (op_store h op)" "op_store h op"]
    by (elim disjE conjE) (simp_all add: close_op_def)
  have "op_closed (op_store h op) < n op" if "op \<in> snd ` set (respWait h)"
  proof -
    from that obtain k where "(k, op) \<in> set (respWait h)" by force
    then have "k \<in> waiting h op" using requests_invD(1) [OF assms] by (simp add: waiting_def)
    then show ?thesis by (rule requests_invD(6) [OF assms])
  qed
  with st show "op_closed (op_store ?h op) \<le> n op"
    using requests_invD(5) [OF assms, of op] by (elim disjE) (simp_all add: close_op_def)
  show "\<And>k. k \<in> waiting ?h op \<Longrightarrow>
      op_closed (op_store ?h op) < n op \<and> (op_sub (op_store ?h op) \<noteq> None \<longrightarrow> length (op_ids (op_store ?h op)) = 1)"
    by (simp add: w)
qed

text \<open>A response for the key \<open>k\<close> updates the waiting request \<open>op\<close> to \<open>r'\<close>.\<close>

lemma requests_inv_answer:
  assumes inv: "requests_inv n h" and k: "map_of (respWait h) k = Some op"
    and h': "respWait h' = AList.delete k (respWait h)" "op_store h' = (op_store h)(op := r')"
    and r': "op_ids r' = op_ids (op_store h op)" "op_sub r' = op_sub (op_store h op)"
      "answers_op r' msg \<and> r' = op_store h op\<lparr>op_resp := op_resp (op_store h op) @ [msg]\<rparr> \<or>
       op_sub r' \<noteq> None \<and> op_resp r' = op_resp (op_store h op) \<and> op_closed r' = Suc (op_closed (op_store h op))"
  shows "requests_inv n h'"
proof (rule requests_invI)
  have kw: "k \<in> waiting h op" using k by (simp add: waiting_def)
  have w: "waiting h' op' = waiting h op' - {k}" for op'
    by (auto simp: waiting_def h' delete_conv)
  show "distinct (map fst (respWait h'))" using requests_invD(1) [OF inv] by (simp add: h' distinct_delete)
  fix op'
  show "waiting h' op' \<subseteq> set (request_keys (op_store h' op'))"
    using requests_invD(2) [OF inv, of op'] by (auto simp: w h' r' request_keys_def)
  have same: "answers_op r' = answers_op (op_store h op)" by (rule answers_op_same [OF r'(1)])
  show "list_all (answers_op (op_store h' op')) (op_resp (op_store h' op'))"
    using requests_invD(3) [OF inv, of op'] r'(3) by (auto simp: h' same list_all_iff)
  show "op_closed (op_store h' op') \<le> n op'"
    using requests_invD(5) [OF inv, of op'] requests_invD(6) [OF inv kw] r'(3) by (auto simp: h')
  show "card (waiting h' op') + length (op_resp (op_store h' op')) \<le> n op' * length (op_ids (op_store h' op'))"
  proof (cases "op' = op")
    case True
    have "card (waiting h op) = Suc (card (waiting h op - {k}))" by (rule card.remove [OF waiting_finite kw])
    then show ?thesis using requests_invD(4) [OF inv, of op] True r' by (auto simp: w h')
  next
    case False
    have "card (waiting h op' - {k}) \<le> card (waiting h op')" by (simp add: card_mono)
    then show ?thesis using requests_invD(4) [OF inv, of op'] False by (simp add: w h')
  qed
  fix l assume l: "l \<in> waiting h' op'"
  then have "l \<in> waiting h op'" "l \<noteq> k" by (simp_all add: w)
  moreover have False if "op_sub (op_store h op) \<noteq> None" "op' = op"
  proof -
    have "card (set (request_keys (op_store h op))) \<le> 1"
      using card_length [of "request_keys (op_store h op)"] requests_invD(7) [OF inv kw that(1)] by (simp add: request_keys_def)
    moreover have "card {l, k} \<le> card (set (request_keys (op_store h op)))"
      using calculation requests_invD(2) [OF inv, of op] kw \<open>l \<in> waiting h op'\<close> that(2) by (intro card_mono) auto
    ultimately show False using \<open>l \<noteq> k\<close> by simp
  qed
  ultimately show "op_closed (op_store h' op') < n op' \<and> (op_sub (op_store h' op') \<noteq> None \<longrightarrow> length (op_ids (op_store h' op')) = 1)"
    using requests_invD(6,7) [OF inv, of l op'] r' by (auto simp: h')
qed

lemma requests_inv_response: "requests_inv n h \<Longrightarrow> requests_inv n (handleResponse msg h)"
proof -
  assume inv: "requests_inv n h"
  show ?thesis
  proof (cases "\<exists>rawid op. ID msg = Some rawid \<and> map_of (respWait h) (show_json rawid) = Some op")
    case False
    then have "handleResponse msg h = h" by (auto simp: handleResponse_def split: option.splits)
    with inv show ?thesis by simp
  next
    case True
    then obtain rawid op where m: "ID msg = Some rawid" "map_of (respWait h) (show_json rawid) = Some op" by blast
    then have "show_json rawid \<in> set (request_keys (op_store h op))" using requests_invD(2) [OF inv, of op] by (auto simp: waiting_def)
    then have "answers_op (op_store h op\<lparr>op_resp := x\<rparr>) msg" for x by (simp add: answers_op_def request_keys_def m(1))
    then show ?thesis
      by (intro requests_inv_answer [OF inv m(2), where r' = "op_store (handleResponse msg h) op" and msg = msg])
        (auto simp: handleResponse_def m Let_def close_op_def split: option.splits sum.splits)
  qed
qed

lemma requests_inv_immediate: "requests_inv n h \<Longrightarrow> requests_inv n (snd (handleImmediate un msg h))"
proof -
  assume inv: "requests_inv n h"
  have "requests_inv n (handleSubscriptionResult un msg h)"
    by (rule requests_inv_smaller [OF inv])
      (use requests_invD(1) [OF inv] in \<open>auto simp: handleSubscriptionResult_def waiting_def split: sum.splits option.splits\<close>)
  with inv show ?thesis by (simp add: handleImmediate_def requests_inv_response)
qed

lemma requests_inv_remove:
  assumes "requests_inv n h"
  shows "requests_inv n (removeRequestOp op h)"
proof -
  have "distinct (map fst (respWait (removeRequestOp op h)))" "op_store (removeRequestOp op h) = op_store h"
    using requests_invD(1) [OF assms] by (simp_all add: removeRequestOp_def distinct_fold_delete)
  then show ?thesis by (rule requests_inv_smaller [OF assms]) (auto simp: waiting_remove)
qed

definition no_requests :: "(nat \<Rightarrow> requestOp) \<Rightarrow> (nat \<Rightarrow> 'v ClientSubscription) \<Rightarrow> 'v requests" where
  "no_requests ops subs = \<lparr>respWait = [], op_store = ops, clientSubs = [], sub_store = subs\<rparr>"

lemma requests_inv_init: "(\<forall>op. fresh_op (ops op)) \<Longrightarrow> requests_inv n (no_requests ops subs)"
  by (simp add: requests_inv_def no_requests_def waiting_def fresh_op_def)

text \<open>No event changes the IDs of a request or whether it is that of a subscription.\<close>

lemma handleImmediate_keeps: "op_ids (op_store (snd (handleImmediate un msg h)) op) = op_ids (op_store h op)"
  "op_sub (op_store (snd (handleImmediate un msg h)) op) = op_sub (op_store h op)"
  by (simp_all add: handleImmediate_def handleSubscriptionResult_def handleResponse_def close_op_def Let_def split: option.splits sum.splits)

lemma apply_event_keeps: "op_ids (op_store (apply_event un ev h) op) = op_ids (op_store h op)"
  "op_sub (op_store (apply_event un ev h) op) = op_sub (op_store h op)"
  by (cases ev; simp add: addRequestOp_def removeRequestOp_def cancelAllRequests_def cancel_ops_apply close_op_def handleImmediate_keeps)+

lemma requests_inv_events:
  assumes "\<forall>op. fresh_op (ops op)"
  shows "requests_inv (regs evs) (fold (apply_event un) evs (no_requests ops subs)) \<and>
    (\<forall>op. op_ids (op_store (fold (apply_event un) evs (no_requests ops subs)) op) = op_ids (ops op) \<and>
      op_sub (op_store (fold (apply_event un) evs (no_requests ops subs)) op) = op_sub (ops op))"
proof (induction evs rule: rev_induct)
  case Nil
  have "op_store (no_requests ops subs) = ops" by (simp add: no_requests_def)
  with requests_inv_init [OF assms] show ?case by simp
next
  case (snoc ev evs)
  let ?h = "fold (apply_event un) evs (no_requests ops subs)"
  have inv: "requests_inv (regs evs) ?h" using snoc.IH by simp
  have "requests_inv (regs (evs @ [ev])) (apply_event un ev ?h)"
  proof (cases ev)
    case (Add op)
    have r: "regs (evs @ [ev]) = (regs evs)(op := Suc (regs evs op))" by (rule ext) (simp add: regs_def Add)
    have "op_sub (op_store ?h op) \<noteq> None \<longrightarrow> length (op_ids (op_store ?h op)) = 1" using snoc.IH assms by (simp add: fresh_op_def)
    then show ?thesis using requests_invD(4) [OF inv, of op] requests_invD(5) [OF inv, of op]
      unfolding r unfolding Add apply_event.simps by (intro requests_inv_add [OF inv refl]) simp_all
  qed (use inv in \<open>simp_all add: regs_def [abs_def] requests_inv_remove requests_inv_immediate requests_inv_cancel\<close>)
  with snoc.IH show ?case by (simp add: apply_event_keeps)
qed

section \<open>Properties\<close>

text \<open>C6. Requests are answered at most once per registration: whatever registrations, repeated ones included,
  removals, messages and shutdowns a connection goes through, in any order and with any arguments, a request that was
  registered \<open>n\<close> times has had its channel closed at most \<open>n\<close> times, and fewer than \<open>n\<close> while it still waits
  for a response; the responses sent to the channel all carry one of its IDs, and they are at most \<open>n\<close> times the IDs
  it has, counting those it still waits for. So for a request that is registered once, no channel is closed twice
  and nothing is sent to a closed one (either would panic), and no send to a channel with room for one response per
  ID blocks the dispatcher.\<close>

theorem requests_answered_once:
  assumes "\<forall>op. fresh_op (ops op)" and "h = fold (apply_event un) evs (no_requests ops subs)"
  shows "op_closed (op_store h op) \<le> regs evs op \<and>
    (waiting h op \<noteq> {} \<longrightarrow> op_closed (op_store h op) < regs evs op) \<and>
    card (waiting h op) + length (op_resp (op_store h op)) \<le> regs evs op * length (op_ids (ops op)) \<and>
    list_all (\<lambda>m. \<exists>i \<in> set (op_ids (ops op)). map_option show_json (ID m) = Some (show_json i)) (op_resp (op_store h op))"
proof -
  have inv: "requests_inv (regs evs) h" and ids: "op_ids (op_store h op) = op_ids (ops op)"
    using requests_inv_events [OF assms(1)] assms(2) by blast+
  have "answers_op (op_store h op) m \<longleftrightarrow> (\<exists>i \<in> set (op_ids (ops op)). map_option show_json (ID m) = Some (show_json i))" for m
    by (auto simp: answers_op_def request_keys_def ids split: option.splits)
  then show ?thesis using requests_invD(3,4,5) [OF inv, of op] requests_invD(6) [OF inv, of _ op] ids
    by (auto simp: list_all_iff)
qed

definition one_op :: "nat \<Rightarrow> requestOp" where
  "one_op op = \<lparr>op_ids = [JNum (show_nat op)], op_err = None, op_resp = [], op_closed = 0, op_sub = None\<rparr>"

text \<open>A request that is registered, cancelled, registered again and answered: one close and one response for two
  registrations.\<close>

theorem requests_answered_once_witness:
  "let evs = [Add 3, Cancel (Some ErrClientQuit) None, Add 3, Receive (zero_message\<lparr>ID := Some (JNum (show_nat 3)), Result := Some JNull\<rparr>)];
       h = fold (apply_event (\<lambda>_ _. Inl (ErrString []))) evs (no_requests one_op (\<lambda>_. newClientSubscription :: json ClientSubscription))
   in regs evs 3 = 2 \<and> op_closed (op_store h 3) = 1 \<and> length (op_resp (op_store h 3)) = 1 \<and> card (waiting h 3) \<le> 1"
proof -
  let ?m = "zero_message\<lparr>ID := Some (JNum (show_nat 3)), Result := Some JNull\<rparr>"
  let ?evs = "[Add 3, Cancel (Some ErrClientQuit) None, Add 3, Receive ?m]"
  let ?h = "fold (apply_event (\<lambda>_ _. Inl (ErrString []))) ?evs (no_requests one_op (\<lambda>_. newClientSubscription :: json ClientSubscription))"
  have f: "\<forall>op. fresh_op (one_op op)" by (simp add: one_op_def fresh_op_def)
  have v: "op_closed (op_store ?h 3) = 1 \<and> length (op_resp (op_store ?h 3)) = 1" by code_simp
  have r: "regs ?evs 3 = 2" "length (op_ids (one_op 3)) = 1" by (simp_all add: regs_def one_op_def)
  show ?thesis unfolding Let_def
    using requests_answered_once [OF f refl, of "\<lambda>_ _. Inl (ErrString [])" ?evs "\<lambda>_. newClientSubscription :: json ClientSubscription" 3] v
    unfolding r by linarith
qed

text \<open>The end of a connection releases every caller: after \<open>cancelAllRequests\<close> nothing waits any
  more, every request that was waiting, other than the one in flight, has been closed with
  the given error exactly once more, all others are as before, and no subscription of the
  client is left.\<close>

theorem cancel_releases_all:
  assumes "request_inv h"
  shows "let h' = cancelAllRequests un err inflight h in
    respWait h' = [] \<and> clientSubs h' = [] \<and>
    (\<forall>op. op_store h' op =
       (if waiting h op \<noteq> {} \<and> inflight \<noteq> Some op then close_op err (op_store h op) else op_store h op))"
proof -
  have "op \<in> snd ` set (respWait h) \<longleftrightarrow> waiting h op \<noteq> {}" for op
    using requests_invD(1) [OF assms] by (force simp: waiting_def)
  then show ?thesis by (auto simp: cancelAllRequests_def cancel_ops_apply Let_def split: option.splits)
qed

theorem cancel_releases_all_witness:
  "let h = addRequestOp 3 (no_requests one_op (\<lambda>_. newClientSubscription :: json ClientSubscription));
       h' = cancelAllRequests (\<lambda>_ _. Inl (ErrString [])) (Some ErrClientQuit) None h
   in request_inv h \<and> op_closed (op_store h' 3) = 1 \<and> op_err (op_store h' 3) = Some ErrClientQuit \<and> respWait h' = []"
proof -
  let ?h = "addRequestOp 3 (no_requests one_op (\<lambda>_. newClientSubscription :: json ClientSubscription))"
  have i: "request_inv ?h"
    by (rule request_inv_add [OF requests_inv_init]) (simp_all add: one_op_def fresh_op_def no_requests_def)
  have w: "waiting ?h 3 \<noteq> {}" by (simp add: waiting_add) (simp add: no_requests_def request_keys_def one_op_def)
  have c: "op_closed (op_store ?h 3) = 0" by (simp add: addRequestOp_def no_requests_def one_op_def)
  show ?thesis
    using cancel_releases_all [OF i, of "\<lambda>_ _. Inl (ErrString [])" "Some ErrClientQuit" None] i w c
    by (simp add: Let_def close_op_def)
qed

end
