(* ===== verification/Rpc_Client.thy ===== *)
theory Rpc_Client
  imports Rpc_Requests "HOL-Library.Multiset"
begin

text \<open>
  The callers' side of the rpc client (src/util/rpc/client.go): request IDs from a 32-bit
  counter, the construction of messages, the interpretation of a response, single and batch
  calls, subscriptions, the choice of a transport, and the write path with its reconnection.
  The dispatching goroutine is the subject of \<open>Rpc_Dispatch\<close>. Connections and the functions
  that open them are parameters, as is the decoding of a result at the type the caller wants.
\<close>

section \<open>Errors and messages\<close>

definition ErrNoResult :: rpc_error where "ErrNoResult = ErrString ''no result in JSON-RPC response''"
definition errClientReconnected :: rpc_error where "errClientReconnected = ErrString ''client reconnected''"
definition errDead :: rpc_error where "errDead = ErrString ''connection lost''"

text \<open>\<open>nextID\<close> increments the counter, which wraps around, and gives its value as a JSON number.\<close>

definition nextID :: "u32 \<Rightarrow> json \<times> u32" where
  "nextID idCounter = (let i = idCounter + 1 in (JNum (show_nat (unat i)), i))"

text \<open>\<open>paramsIn\<close> is \<open>None\<close> for nil, else the result of marshalling the arguments.\<close>

definition newMessage :: "string \<Rightarrow> (rpc_error + json) option \<Rightarrow> u32 \<Rightarrow> (rpc_error + jsonrpcMessage) \<times> u32" where
  "newMessage method paramsIn idCounter =
     (let (rawid, idCounter') = nextID idCounter;
          msg = zero_message\<lparr>Version := vsn, ID := Some rawid, Method := method\<rparr> in
      (case paramsIn of
         None \<Rightarrow> Inr msg
       | Some (Inl err) \<Rightarrow> Inl err
       | Some (Inr ps) \<Rightarrow> Inr (msg\<lparr>Params := Some ps\<rparr>), idCounter'))"

section \<open>Waiting for responses\<close>

text \<open>
  What \<open>wait\<close> can receive: the end of the context, a message, or the close of the channel, after
  which it gives a nil message and the error stored in the request.
\<close>

datatype wait_event = CtxDone rpc_error | Received jsonrpcMessage | ChanClosed "rpc_error option"

definition op_wait :: "wait_event \<Rightarrow> jsonrpcMessage option \<times> rpc_error option" where
  "op_wait ev = (case ev of
     CtxDone err \<Rightarrow> (None, Some err)
   | Received msg \<Rightarrow> (Some msg, None)
   | ChanClosed err \<Rightarrow> (None, err))"

text \<open>
  The end of \<open>CallContext\<close>: the decoded result or the error. A nil message without an error would
  be dereferenced.
\<close>

definition response_result :: "(json \<Rightarrow> rpc_error + 'r) \<Rightarrow> jsonrpcMessage \<Rightarrow> rpc_error + 'r" where
  "response_result unmarshal resp = (case MsgError resp of
     Some e \<Rightarrow> Inl (ErrJson e)
   | None \<Rightarrow> (case Result resp of None \<Rightarrow> Inl ErrNoResult | Some j \<Rightarrow> unmarshal j))"

definition finish_call :: "(json \<Rightarrow> rpc_error + 'r) \<Rightarrow> wait_event \<Rightarrow> (rpc_error + 'r) outcome" where
  "finish_call unmarshal ev = (case op_wait ev of
     (_, Some err) \<Rightarrow> Ret (Inl err)
   | (None, None) \<Rightarrow> Panicked nil_deref
   | (Some resp, None) \<Rightarrow> Ret (response_result unmarshal resp))"

text \<open>
  \<open>send\<close> gives its error; afterwards one event ends the wait. \<open>ptr\<close> tells whether the result is a
  pointer or nil.
\<close>

definition CallContext :: "bool \<Rightarrow> (jsonrpcMessage \<Rightarrow> rpc_error option) \<Rightarrow> (jsonrpcMessage \<Rightarrow> wait_event) \<Rightarrow>
    (json \<Rightarrow> rpc_error + 'r) \<Rightarrow> string \<Rightarrow> (rpc_error + json) option \<Rightarrow> u32 \<Rightarrow> (rpc_error + 'r) outcome \<times> u32" where
  "CallContext ptr send answer unmarshal method args idCounter =
     (if \<not> ptr then (Ret (Inl (ErrString ''call result parameter must be pointer or nil interface'')), idCounter)
      else case newMessage method args idCounter of
        (Inl err, c) \<Rightarrow> (Ret (Inl err), c)
      | (Inr msg, c) \<Rightarrow> (case send msg of
            Some err \<Rightarrow> (Ret (Inl err), c)
          | None \<Rightarrow> (finish_call unmarshal (answer msg), c)))"

text \<open>\<open>Call\<close> waits with the background context, which never ends: none of its waits ends with \<open>CtxDone\<close>.\<close>

definition Call :: "bool \<Rightarrow> (jsonrpcMessage \<Rightarrow> rpc_error option) \<Rightarrow> (jsonrpcMessage \<Rightarrow> wait_event) \<Rightarrow>
    (json \<Rightarrow> rpc_error + 'r) \<Rightarrow> string \<Rightarrow> (rpc_error + json) option \<Rightarrow> u32 \<Rightarrow> (rpc_error + 'r) outcome \<times> u32" where
  "Call ptr send answer unmarshal method args = CallContext ptr send answer unmarshal method args"

section \<open>Destinations of results\<close>

text \<open>
  The value a caller gives for the result: nil or a nil pointer, something that is not a pointer, or a pointer, with the
  decoding of JSON at its type and whether that type is a pointer again. \<open>CallContext\<close> unmarshals into the
  address of the interface variable: \<open>encoding/json\<close> follows a non-nil pointer in it, for null only one to a pointer;
  otherwise it stores into the variable, which is dropped (\<open>None\<close>). \<open>BatchCallContext\<close> unmarshals into the value
  itself, which must be a non-nil pointer.
\<close>

datatype 'r dest = DNil | DNotPtr | DPtr bool "json \<Rightarrow> rpc_error + 'r"

definition InvalidUnmarshalError :: rpc_error where
  "InvalidUnmarshalError = ErrString ''json: Unmarshal(nil or non-pointer)''"

definition Unmarshal_addr :: "'r dest \<Rightarrow> json \<Rightarrow> rpc_error + 'r option" where
  "Unmarshal_addr d j = (case d of
     DPtr to_ptr dec \<Rightarrow> if j = JNull \<and> \<not> to_ptr then Inr None else map_sum id Some (dec j)
   | _ \<Rightarrow> Inr None)"

definition Unmarshal_into :: "'r dest \<Rightarrow> json \<Rightarrow> rpc_error + 'r" where
  "Unmarshal_into d j = (case d of DPtr _ dec \<Rightarrow> dec j | _ \<Rightarrow> Inl InvalidUnmarshalError)"

section \<open>Batches\<close>

record 'r BatchElem =
  be_Method :: string
  be_Args :: "(rpc_error + json) option"
  be_Dest :: "'r dest"
  be_Result :: "'r option"
  be_Error :: "rpc_error option"

text \<open>\<open>json.Unmarshal(resp.Result, elem.Result)\<close>.\<close>

definition be_unmarshal :: "'r BatchElem \<Rightarrow> json \<Rightarrow> rpc_error + 'r" where
  "be_unmarshal b = Unmarshal_into (be_Dest b)"

fun new_messages :: "'r BatchElem list \<Rightarrow> u32 \<Rightarrow> (rpc_error + jsonrpcMessage list) \<times> u32" where
  "new_messages [] c = (Inr [], c)"
| "new_messages (b # bs) c = (case newMessage (be_Method b) (be_Args b) c of
     (Inl err, c1) \<Rightarrow> (Inl err, c1)
   | (Inr msg, c1) \<Rightarrow> (case new_messages bs c1 of
         (Inl err, c2) \<Rightarrow> (Inl err, c2)
       | (Inr msgs, c2) \<Rightarrow> (Inr (msg # msgs), c2)))"

text \<open>\<open>string(msg.ID)\<close>; the text of a nil raw message is empty.\<close>

definition id_key :: "jsonrpcMessage \<Rightarrow> string" where
  "id_key msg = (case ID msg of None \<Rightarrow> [] | Some j \<Rightarrow> show_json j)"

definition byID :: "jsonrpcMessage list \<Rightarrow> (string \<times> nat) list" where
  "byID msgs = fold (\<lambda>(i, msg). AList.update (id_key msg) i) (enumerate 0 msgs) []"

text \<open>A response stored in its element; a missing key of the Go map reads as index 0.\<close>

definition store_response :: "jsonrpcMessage \<Rightarrow> 'r BatchElem \<Rightarrow> 'r BatchElem" where
  "store_response resp b = (case MsgError resp of
     Some e \<Rightarrow> b\<lparr>be_Error := Some (ErrJson e)\<rparr>
   | None \<Rightarrow> (case Result resp of
         None \<Rightarrow> b\<lparr>be_Error := Some ErrNoResult\<rparr>
       | Some j \<Rightarrow> (case be_unmarshal b j of
             Inl err \<Rightarrow> b\<lparr>be_Error := Some err\<rparr>
           | Inr v \<Rightarrow> b\<lparr>be_Error := None, be_Result := Some v\<rparr>)))"

definition elem_index :: "(string \<times> nat) list \<Rightarrow> jsonrpcMessage \<Rightarrow> nat" where
  "elem_index ids resp = (case map_of ids (id_key resp) of None \<Rightarrow> 0 | Some i \<Rightarrow> i)"

text \<open>
  The loop: \<open>n\<close> responses are still expected; \<open>None\<close> when the events received so far are not
  enough and the caller waits.
\<close>

fun batch_wait :: "(string \<times> nat) list \<Rightarrow> nat \<Rightarrow> wait_event list \<Rightarrow> 'r BatchElem list \<Rightarrow>
    (rpc_error option \<times> 'r BatchElem list) outcome option" where
  "batch_wait ids 0 evs b = Some (Ret (None, b))"
| "batch_wait ids (Suc n) [] b = None"
| "batch_wait ids (Suc n) (ev # evs) b = (case op_wait ev of
     (_, Some err) \<Rightarrow> Some (Ret (Some err, b))
   | (None, None) \<Rightarrow> Some (Panicked nil_deref)
   | (Some resp, None) \<Rightarrow>
       (let i = elem_index ids resp in batch_wait ids n evs (b[i := store_response resp (b ! i)])))"

definition BatchCallContext :: "(jsonrpcMessage list \<Rightarrow> rpc_error option) \<Rightarrow> wait_event list \<Rightarrow> 'r BatchElem list \<Rightarrow> u32 \<Rightarrow>
    (rpc_error option \<times> 'r BatchElem list) outcome option \<times> u32" where
  "BatchCallContext send evs b c = (case new_messages b c of
     (Inl err, c') \<Rightarrow> (Some (Ret (Some err, b)), c')
   | (Inr msgs, c') \<Rightarrow> (case send msgs of
         Some err \<Rightarrow> (Some (Ret (Some err, b)), c')
       | None \<Rightarrow> (batch_wait (byID msgs) (length b) evs b, c')))"

definition BatchCall :: "(jsonrpcMessage list \<Rightarrow> rpc_error option) \<Rightarrow> wait_event list \<Rightarrow> 'r BatchElem list \<Rightarrow> u32 \<Rightarrow>
    (rpc_error option \<times> 'r BatchElem list) outcome option \<times> u32" where
  "BatchCall send evs b = BatchCallContext send evs b"

section \<open>Notifications, subscriptions, transports\<close>

definition Client_Notify :: "(jsonrpcMessage \<Rightarrow> rpc_error option) \<Rightarrow> string \<Rightarrow> (rpc_error + json) option \<Rightarrow> u32 \<Rightarrow> rpc_error option \<times> u32" where
  "Client_Notify send method args c = (case newMessage method args c of
     (Inl err, c') \<Rightarrow> (Some err, c')
   | (Inr msg, c') \<Rightarrow> (send (msg\<lparr>ID := None\<rparr>), c'))"

text \<open>The channel argument of \<open>Subscribe\<close> as reflection sees it.\<close>

datatype chan_arg = NotAChannel | ReceiveOnly | NilChannel | WritableChannel

definition Client_Subscribe :: "bool \<Rightarrow> (jsonrpcMessage \<Rightarrow> rpc_error option) \<Rightarrow> wait_event \<Rightarrow> chan_arg \<Rightarrow> string \<Rightarrow>
    (rpc_error + json) option \<Rightarrow> u32 \<Rightarrow> rpc_error option outcome \<times> u32" where
  "Client_Subscribe isHTTP send ev chan ns args c =
     (if chan = NotAChannel \<or> chan = ReceiveOnly then (Panicked ''channel argument of Subscribe: need writable channel'', c)
      else if chan = NilChannel then (Panicked ''channel given to Subscribe must not be nil'', c)
      else if isHTTP then (Ret (Some (ErrString ''notifications not supported'')), c)
      else case newMessage (ns @ subscribeMethodSuffix) args c of
        (Inl err, c') \<Rightarrow> (Ret (Some err), c')
      | (Inr msg, c') \<Rightarrow> (case send msg of
            Some err \<Rightarrow> (Ret (Some err), c')
          | None \<Rightarrow> (Ret (snd (op_wait ev)), c')))"

definition EthSubscribe :: "bool \<Rightarrow> (jsonrpcMessage \<Rightarrow> rpc_error option) \<Rightarrow> wait_event \<Rightarrow> chan_arg \<Rightarrow> (rpc_error + json) option \<Rightarrow> u32 \<Rightarrow>
    rpc_error option outcome \<times> u32" where
  "EthSubscribe isHTTP send ev chan = Client_Subscribe isHTTP send ev chan ''eth''"

definition ShhSubscribe :: "bool \<Rightarrow> (jsonrpcMessage \<Rightarrow> rpc_error option) \<Rightarrow> wait_event \<Rightarrow> chan_arg \<Rightarrow> (rpc_error + json) option \<Rightarrow> u32 \<Rightarrow>
    rpc_error option outcome \<times> u32" where
  "ShhSubscribe isHTTP send ev chan = Client_Subscribe isHTTP send ev chan ''shh''"

definition requestUnsubscribe :: "(jsonrpcMessage \<Rightarrow> rpc_error option) \<Rightarrow> (jsonrpcMessage \<Rightarrow> wait_event) \<Rightarrow> (json \<Rightarrow> rpc_error + 'r) \<Rightarrow>
    string \<Rightarrow> string \<Rightarrow> u32 \<Rightarrow> (rpc_error + 'r) outcome \<times> u32" where
  "requestUnsubscribe send answer unmarshal ns subid =
     CallContext True send answer unmarshal (ns @ unsubscribeMethodSuffix) (Some (Inr (JArr [JStr subid])))"

definition SupportedModules :: "(jsonrpcMessage \<Rightarrow> rpc_error option) \<Rightarrow> (jsonrpcMessage \<Rightarrow> wait_event) \<Rightarrow> (json \<Rightarrow> rpc_error + 'r) \<Rightarrow>
    u32 \<Rightarrow> (rpc_error + 'r) outcome \<times> u32" where
  "SupportedModules send answer unmarshal = CallContext True send answer unmarshal ''rpc_modules'' None"

datatype transport = ViaHTTP | ViaWebsocket | ViaStdIO | ViaIPC

text \<open>\<open>url.Parse\<close> gives the scheme, in lower case, or an error.\<close>

definition DialContext :: "(string \<Rightarrow> rpc_error + string) \<Rightarrow> string \<Rightarrow> rpc_error + transport" where
  "DialContext url_scheme rawurl = (case url_scheme rawurl of
     Inl err \<Rightarrow> Inl err
   | Inr scheme \<Rightarrow>
       if scheme = ''http'' \<or> scheme = ''https'' then Inr ViaHTTP
       else if scheme = ''ws'' \<or> scheme = ''wss'' then Inr ViaWebsocket
       else if scheme = ''stdio'' then Inr ViaStdIO
       else if scheme = [] then Inr ViaIPC
       else Inl (ErrString (''no known transport for URL scheme '' @ go_quote scheme)))"

definition Dial :: "(string \<Rightarrow> rpc_error + string) \<Rightarrow> string \<Rightarrow> rpc_error + transport" where
  "Dial url_scheme rawurl = DialContext url_scheme rawurl"

section \<open>Writing and reconnecting\<close>

text \<open>
  \<open>reconnectFunc\<close> may be nil; \<open>hand_over\<close> is the select that gives the new connection to the
  dispatcher, false when the client has quit, in which case the connection is closed again.
\<close>

record ('w, 'c) link =
  conn_write :: "'c \<Rightarrow> wire \<Rightarrow> ('w, rpc_error option) prog"
  conn_close :: "'c \<Rightarrow> ('w, unit) prog"
  reconnectFunc :: "('w, rpc_error + 'c) prog option"
  hand_over :: "'c \<Rightarrow> ('w, bool) prog"

definition reconnect :: "('w, 'c) link \<Rightarrow> ('w, rpc_error + 'c) prog" where
  "reconnect l = (case reconnectFunc l of
     None \<Rightarrow> returnP (Inl errDead)
   | Some connect \<Rightarrow> bindP connect (\<lambda>res. case res of
         Inl err \<Rightarrow> returnP (Inl err)
       | Inr newconn \<Rightarrow> bindP (hand_over l newconn) (\<lambda>ok.
           if ok then returnP (Inr newconn)
           else bindP (conn_close l newconn) (\<lambda>_. returnP (Inl ErrClientQuit)))))"

text \<open>The result is the error and the new value of \<open>writeConn\<close>.\<close>

definition write_once :: "('w, 'c) link \<Rightarrow> wire \<Rightarrow> 'c option \<Rightarrow> ('w, rpc_error option \<times> 'c option) prog" where
  "write_once l msg writeConn =
     bindP (case writeConn of Some c \<Rightarrow> returnP (Inr c) | None \<Rightarrow> reconnect l) (\<lambda>res. case res of
       Inl err \<Rightarrow> returnP (Some err, None)
     | Inr c \<Rightarrow> bindP (conn_write l c msg) (\<lambda>err. returnP (err, if err = None then Some c else None)))"

text \<open>
  \<open>write(ctx, msg, false)\<close>: a failed write is tried once more, on a new connection; a failed
  reconnection is not.
\<close>

definition client_write :: "('w, 'c) link \<Rightarrow> wire \<Rightarrow> 'c option \<Rightarrow> ('w, rpc_error option \<times> 'c option) prog" where
  "client_write l msg writeConn =
     bindP (case writeConn of Some c \<Rightarrow> returnP (Inr c) | None \<Rightarrow> reconnect l) (\<lambda>res. case res of
       Inl err \<Rightarrow> returnP (Some err, None)
     | Inr c \<Rightarrow> bindP (conn_write l c msg) (\<lambda>err. case err of
           None \<Rightarrow> returnP (None, Some c)
         | Some _ \<Rightarrow> write_once l msg None))"

datatype send_event = Accepted | SendCtxDone rpc_error | ClientClosing

definition client_send :: "send_event \<Rightarrow> ('w, 'c) link \<Rightarrow> wire \<Rightarrow> 'c option \<Rightarrow> ('w, rpc_error option \<times> 'c option) prog" where
  "client_send ev l msg writeConn = (case ev of
     Accepted \<Rightarrow> client_write l msg writeConn
   | SendCtxDone err \<Rightarrow> returnP (Some err, writeConn)
   | ClientClosing \<Rightarrow> returnP (Some ErrClientQuit, writeConn))"

section \<open>Lemmas\<close>

lemma newMessage_ID: "newMessage method args c = (Inr msg, c') \<Longrightarrow> id_key msg = show_nat (unat (c + 1)) \<and> c' = c + 1"
  by (auto simp: newMessage_def nextID_def id_key_def Let_def split: option.splits sum.splits)

lemma new_messages_IDs:
  "new_messages bs c = (Inr msgs, c') \<Longrightarrow>
   map id_key msgs = map (\<lambda>k. show_nat (unat (c + of_nat (Suc k)))) [0..<length bs] \<and> c' = c + of_nat (length bs)"
proof (induction bs arbitrary: c msgs)
  case (Cons b bs)
  from Cons.prems obtain msg msgs' where m: "newMessage (be_Method b) (be_Args b) c = (Inr msg, c + 1)"
    "new_messages bs (c + 1) = (Inr msgs', c')" "msgs = msg # msgs'"
    by (auto split: prod.splits sum.splits dest: newMessage_ID)
  have "map id_key msgs' = map (\<lambda>k. show_nat (unat (c + of_nat (Suc (Suc k))))) [0..<length bs]"
    "c' = c + of_nat (Suc (length bs))"
    using Cons.IH [OF m(2)] by (simp_all add: add.assoc)
  moreover have "[0..<length (b # bs)] = 0 # map Suc [0..<length bs]"
    by (simp add: map_Suc_upt upt_conv_Cons del: upt_Suc)
  ultimately show ?case using newMessage_ID [OF m(1)] m(3) by (simp add: comp_def del: upt_Suc)
qed simp

lemma u32_offset_inj:
  assumes "c + of_nat (Suc i) = c + (of_nat (Suc j) :: u32)" "i < 2 ^ 32" "j < 2 ^ 32"
  shows "i = j"
proof -
  have "(of_nat i :: u32) = of_nat j" using assms(1) by simp
  then have "unat (of_nat i :: u32) = unat (of_nat j :: u32)" by simp
  with assms(2,3) show ?thesis by (simp add: unat_of_nat take_bit_eq_mod)
qed

lemma new_messages_distinct:
  assumes "new_messages bs c = (Inr msgs, c')" "length bs \<le> 2 ^ 32"
  shows "distinct (map id_key msgs)" "length msgs = length bs"
proof -
  note n = new_messages_IDs [OF assms(1)]
  show "length msgs = length bs" using arg_cong [OF conjunct1 [OF n], of length] by simp
  have "inj_on (\<lambda>k. show_nat (unat (c + of_nat (Suc k)))) {0..<length bs}"
  proof (rule inj_onI)
    fix i j assume "i \<in> {0..<length bs}" "j \<in> {0..<length bs}"
      "show_nat (unat (c + of_nat (Suc i))) = show_nat (unat (c + of_nat (Suc j)))"
    moreover from this have "c + of_nat (Suc i) = c + (of_nat (Suc j) :: u32)"
      by (simp only: show_nat_inj word_unat_eq_iff)
    ultimately show "i = j" using assms(2) by (intro u32_offset_inj [of c]) auto
  qed
  then show "distinct (map id_key msgs)" using n by (simp add: distinct_map)
qed

lemma new_messages_single:
  assumes "new_messages bs c = (Inr msgs, c')" and "i < length bs"
  shows "fst (newMessage (be_Method (bs ! i)) (be_Args (bs ! i)) (c + of_nat i)) = Inr (msgs ! i)"
  using assms
proof (induction bs arbitrary: c msgs i)
  case (Cons b bs)
  from Cons.prems(1) obtain msg msgs' where m: "newMessage (be_Method b) (be_Args b) c = (Inr msg, c + 1)"
    "new_messages bs (c + 1) = (Inr msgs', c')" "msgs = msg # msgs'"
    by (auto split: prod.splits sum.splits dest: newMessage_ID)
  show ?case
  proof (cases i)
    case (Suc k)
    with Cons.IH [OF m(2), of k] Cons.prems(2) m(3) show ?thesis by (simp add: add.assoc)
  qed (use m in simp)
qed simp

lemma byID_lookup:
  assumes "distinct (map id_key msgs)" "i < length msgs"
  shows "map_of (byID msgs) (id_key (msgs ! i)) = Some i"
proof -
  have "map_of (fold (\<lambda>(i, msg). AList.update (id_key msg) i) (enumerate n ms) al) (id_key (ms ! i)) = Some (n + i)"
    if "distinct (map id_key ms)" "i < length ms" for n ms al
    using that
  proof (induction ms arbitrary: n i al)
    case (Cons m ms)
    have keep: "id_key m \<notin> id_key ` set ms' \<Longrightarrow> map_of (fold (\<lambda>(i, msg). AList.update (id_key msg) i) (enumerate k ms') al') (id_key m) =
        map_of al' (id_key m)" for k ms' al'
      by (induction ms' arbitrary: k al') (auto simp: update_conv')
    show ?case
    proof (cases i)
      case 0
      with Cons.prems keep [of ms] show ?thesis by (simp add: update_conv')
    next
      case (Suc j)
      with Cons.prems Cons.IH [of j "Suc n"] show ?thesis by simp
    qed
  qed simp
  from this [OF assms, of 0 "[]"] show ?thesis by (simp add: byID_def)
qed

lemma batch_wait_received:
  "batch_wait ids (length rs) (map Received rs @ evs) b =
   Some (Ret (None, fold (\<lambda>r b. b[elem_index ids r := store_response r (b ! elem_index ids r)]) rs b))"
  by (induction rs arbitrary: b) (simp_all add: op_wait_def Let_def)

lemma fold_update_nth:
  assumes "distinct (map f rs)" "r \<in> set rs" "f r < length b"
  shows "fold (\<lambda>r b. b[f r := g r (b ! f r)]) rs b ! f r = g r (b ! f r)"
proof -
  have other: "f r \<notin> f ` set qs \<Longrightarrow> fold (\<lambda>r b. b[f r := g r (b ! f r)]) qs b' ! f r = b' ! f r" for qs b'
    by (induction qs arbitrary: b') auto
  show ?thesis
    using assms
  proof (induction rs arbitrary: b)
    case (Cons q qs)
    show ?case
    proof (cases "q = r")
      case True
      with Cons.prems other [of qs] show ?thesis by auto
    next
      case False
      with Cons.prems have "f q \<noteq> f r" by auto
      with False Cons show ?thesis by simp
    qed
  qed simp
qed

lemma store_response_result:
  "(case response_result (be_unmarshal b) r of
      Inl e \<Rightarrow> be_Error (store_response r b) = Some e
    | Inr v \<Rightarrow> be_Error (store_response r b) = None \<and> be_Result (store_response r b) = Some v)"
  by (simp add: response_result_def store_response_def split: option.splits sum.splits)

section \<open>Properties\<close>

text \<open>Request IDs do not collide within a batch: the IDs of a batch of at most 2^32 requests are
  pairwise different, whatever the counter's value, and the counter has advanced by the size of the
  batch, wrapping around; in a batch with one request more the last ID repeats the first.\<close>

theorem batch_IDs_distinct:
  assumes "new_messages bs c = (Inr msgs, c')"
  shows "(length bs \<le> 2 ^ 32 \<longrightarrow> distinct (map id_key msgs)) \<and> c' = c + of_nat (length bs) \<and>
    (length bs = Suc (2 ^ 32) \<longrightarrow> id_key (msgs ! (2 ^ 32)) = id_key (msgs ! 0))"
proof (intro conjI impI)
  note n = new_messages_IDs [OF assms]
  then show "c' = c + of_nat (length bs)" by simp
  assume l: "length bs = Suc (2 ^ 32)"
  have len: "length msgs = Suc (2 ^ 32)" using arg_cong [OF conjunct1 [OF n], of length] l by (simp del: upt_Suc)
  have "id_key (msgs ! k) = show_nat (unat (c + of_nat (Suc k)))" if "k \<le> 2 ^ 32" for k
  proof -
    have "id_key (msgs ! k) = map id_key msgs ! k" using that len by (intro nth_map [symmetric]) simp
    also have "\<dots> = show_nat (unat (c + of_nat (Suc k)))"
      unfolding conjunct1 [OF n] using that l by (subst nth_map) (simp_all del: upt_Suc of_nat_Suc)
    finally show ?thesis .
  qed
  note this [of "2 ^ 32", OF le_refl] this [of 0, OF le0]
  moreover have "(of_nat (Suc (2 ^ 32)) :: u32) = of_nat (Suc 0)" by simp
  ultimately show "id_key (msgs ! (2 ^ 32)) = id_key (msgs ! 0)" by (simp only:)
qed (rule new_messages_distinct(1) [OF assms])

theorem batch_IDs_distinct_witness:
  "let b = \<lparr>be_Method = ''m'', be_Args = None, be_Dest = DPtr False Inr, be_Result = None, be_Error = None\<rparr>;
       r = new_messages [b, b] (- 1 :: u32) in
     \<exists>msgs. fst r = Inr msgs \<and> distinct (map id_key msgs) \<and> snd r = 1"
proof -
  let ?b = "\<lparr>be_Method = ''m'', be_Args = None, be_Dest = DPtr False Inr, be_Result = None, be_Error = None\<rparr> :: json BatchElem"
  obtain msgs c' where r: "new_messages [?b, ?b] (- 1 :: u32) = (Inr msgs, c')"
    by (simp add: newMessage_def nextID_def Let_def)
  from batch_IDs_distinct [OF r] r show ?thesis by (simp add: Let_def)
qed

lemma batch_responses:
  assumes "new_messages b c = (Inr msgs, c')" and "length b \<le> 2 ^ 32" and "send msgs = None"
    and "mset (map id_key rs) = mset (map id_key msgs)"
  shows "\<exists>b'. BatchCallContext send (map Received rs @ evs) b c = (Some (Ret (None, b')), c') \<and>
    (\<forall>i < length b. \<forall>r \<in> set rs. id_key r = id_key (msgs ! i) \<longrightarrow>
       (case response_result (be_unmarshal (b ! i)) r of
          Inl e \<Rightarrow> be_Error (b' ! i) = Some e
        | Inr v \<Rightarrow> be_Error (b' ! i) = None \<and> be_Result (b' ! i) = Some v))"
proof -
  note d = new_messages_distinct [OF assms(1,2)]
  let ?f = "elem_index (byID msgs)"
  let ?b' = "fold (\<lambda>r b. b[?f r := store_response r (b ! ?f r)]) rs b"
  have keys: "set (map id_key rs) = set (map id_key msgs)" "distinct (map id_key rs)" "length rs = length b"
    using mset_eq_setD [OF assms(4)] mset_eq_imp_distinct_iff [OF assms(4)] mset_eq_length [OF assms(4)] d by simp_all
  have idx: "\<exists>i < length b. id_key r = id_key (msgs ! i) \<and> ?f r = i" if "r \<in> set rs" for r
  proof -
    from that have "id_key r \<in> set (map id_key msgs)" unfolding keys(1) [symmetric] by simp
    then obtain i where i: "i < length msgs" "id_key r = id_key (msgs ! i)" by (auto simp: in_set_conv_nth)
    with byID_lookup [OF d(1) i(1)] d(2) show ?thesis by (auto simp: elem_index_def)
  qed
  have inj: "distinct (map ?f rs)"
  proof -
    have "inj_on ?f (set rs)"
    proof (rule inj_onI)
      fix r q assume rq: "r \<in> set rs" "q \<in> set rs" "?f r = ?f q"
      with idx [of r] idx [of q] have "id_key r = id_key q" by auto
      with rq keys(2) show "r = q" by (auto simp: distinct_map dest: inj_onD)
    qed
    with keys(2) show ?thesis by (simp add: distinct_map)
  qed
  have "BatchCallContext send (map Received rs @ evs) b c = (Some (Ret (None, ?b')), c')"
    using assms(1,3) by (simp add: BatchCallContext_def batch_wait_received flip: keys(3))
  moreover have "?b' ! i = store_response r (b ! i)" if "i < length b" "r \<in> set rs" "id_key r = id_key (msgs ! i)" for i r
  proof -
    have "?f r = i" using byID_lookup [OF d(1), of i] that d(2) by (simp add: elem_index_def)
    then show ?thesis using fold_update_nth [OF inj that(2), of b] that(1) by simp
  qed
  then have "case response_result (be_unmarshal (b ! i)) r of
        Inl e \<Rightarrow> be_Error (?b' ! i) = Some e
      | Inr v \<Rightarrow> be_Error (?b' ! i) = None \<and> be_Result (?b' ! i) = Some v"
    if "i < length b" "r \<in> set rs" "id_key r = id_key (msgs ! i)" for i r
    using store_response_result [of r "b ! i"] that by (simp split: sum.splits)
  ultimately show ?thesis by blast
qed

text \<open>What a single call makes of a response, against what is stored in an element.\<close>

lemma single_and_stored:
  assumes "case response_result (be_unmarshal b) r of
      Inl e \<Rightarrow> be_Error b' = Some e | Inr v \<Rightarrow> be_Error b' = None \<and> be_Result b' = Some v"
  shows "case be_Dest b of
      DNotPtr \<Rightarrow> be_Error b' \<noteq> None
    | DNil \<Rightarrow> (case response_result (Unmarshal_addr DNil) r of
        Inl e \<Rightarrow> be_Error b' = Some e | Inr v \<Rightarrow> v = None \<and> be_Error b' = Some InvalidUnmarshalError)
    | DPtr to_ptr dec \<Rightarrow> if MsgError r = None \<and> Result r = Some JNull \<and> \<not> to_ptr
        then response_result (Unmarshal_addr (be_Dest b)) r = Inr None \<and>
          (case dec JNull of Inl e \<Rightarrow> be_Error b' = Some e | Inr v \<Rightarrow> be_Error b' = None \<and> be_Result b' = Some v)
        else response_result (Unmarshal_addr (be_Dest b)) r = (case be_Error b' of Some e \<Rightarrow> Inl e | None \<Rightarrow> Inr (be_Result b'))"
proof (cases "be_Dest b")
  case (DPtr to_ptr dec)
  then have u: "be_unmarshal b = dec" by (rule_tac ext) (simp add: be_unmarshal_def Unmarshal_into_def)
  show ?thesis
  proof (cases "Result r")
    case (Some j)
    then show ?thesis using assms unfolding DPtr u
      by (cases "dec j") (auto simp: response_result_def Unmarshal_addr_def split: option.splits)
  qed (use assms in \<open>auto simp: DPtr response_result_def split: option.splits\<close>)
qed (use assms in \<open>auto simp: response_result_def be_unmarshal_def Unmarshal_into_def Unmarshal_addr_def split: option.splits\<close>)

text \<open>
  The call \<open>CallContext\<close> for the request of the element \<open>b\<close>, on a connection that takes the message \<open>msg\<close> only and
  answers it with \<open>r\<close>; and how its result compares with the element \<open>elem\<close> after the batch call.
\<close>

definition single_call :: "jsonrpcMessage \<Rightarrow> jsonrpcMessage \<Rightarrow> u32 \<Rightarrow> 'r BatchElem \<Rightarrow> (rpc_error + 'r option) outcome" where
  "single_call msg r c b = fst (CallContext (be_Dest b \<noteq> DNotPtr) (\<lambda>m. if m = msg then None else Some errDead) (\<lambda>_. Received r)
     (Unmarshal_addr (be_Dest b)) (be_Method b) (be_Args b) c)"

definition as_single_call :: "jsonrpcMessage \<Rightarrow> jsonrpcMessage \<Rightarrow> u32 \<Rightarrow> 'r BatchElem \<Rightarrow> 'r BatchElem \<Rightarrow> bool" where
  "as_single_call msg r c b elem \<longleftrightarrow> (let single = single_call msg r c b in
     case be_Dest b of
       DNotPtr \<Rightarrow> (\<exists>e. single = Ret (Inl e)) \<and> be_Error elem \<noteq> None
     | DNil \<Rightarrow> if MsgError r = None \<and> Result r \<noteq> None
         then single = Ret (Inr None) \<and> be_Error elem = Some InvalidUnmarshalError
         else \<exists>e. single = Ret (Inl e) \<and> be_Error elem = Some e
     | DPtr to_ptr dec \<Rightarrow> if MsgError r = None \<and> Result r = Some JNull \<and> \<not> to_ptr
         then single = Ret (Inr None) \<and>
           (case dec JNull of Inl e \<Rightarrow> be_Error elem = Some e | Inr v \<Rightarrow> be_Error elem = None \<and> be_Result elem = Some v)
         else single = Ret (case be_Error elem of Some e \<Rightarrow> Inl e | None \<Rightarrow> Inr (be_Result elem)))"

lemma single_call_received:
  assumes "fst (newMessage (be_Method b) (be_Args b) c) = Inr msg" and "be_Dest b \<noteq> DNotPtr"
  shows "single_call msg r c b = Ret (response_result (Unmarshal_addr (be_Dest b)) r)"
  using assms by (cases "newMessage (be_Method b) (be_Args b) c") (simp add: single_call_def CallContext_def finish_call_def op_wait_def)

lemma as_single_callI:
  assumes "fst (newMessage (be_Method b) (be_Args b) c) = Inr msg"
    and "case response_result (be_unmarshal b) r of
      Inl e \<Rightarrow> be_Error b' = Some e | Inr v \<Rightarrow> be_Error b' = None \<and> be_Result b' = Some v"
  shows "as_single_call msg r c b b'"
proof (cases "be_Dest b")
  case DNotPtr
  then have "\<exists>e. single_call msg r c b = Ret (Inl e)" by (simp add: single_call_def CallContext_def)
  with single_and_stored [OF assms(2)] DNotPtr show ?thesis by (simp add: as_single_call_def)
next
  case DNil
  with single_call_received [OF assms(1)] single_and_stored [OF assms(2)] show ?thesis
    by (auto simp: as_single_call_def response_result_def Unmarshal_addr_def split: option.splits)
next
  case (DPtr to_ptr dec)
  with single_call_received [OF assms(1)] single_and_stored [OF assms(2)] show ?thesis
    by (auto simp: as_single_call_def split: if_splits)
qed

text \<open>C20. A batch call against its calls one by one: if the responses to a batch of at most 2^32 requests arrive, each
  once, in any order, then the call returns without error. For each element, the request in the batch is the one
  \<open>CallContext\<close> would have sent for it with the counter at that place, and with a pointer as destination, the element
  holds exactly what \<open>CallContext\<close> would have returned for its response, the result or the error. The two differ in
  three cases only. With a nil destination and a result, the single call succeeds and ignores the result, the
  element gets an error; something that is not a pointer is refused by the single call before it sends anything,
  and an error of the element; and a null result leaves the destination of a single call untouched (unless it is a
  pointer to a pointer), whereas it is decoded into that of an element.\<close>

theorem batch_equals_single_calls:
  assumes "new_messages b c = (Inr msgs, c')" and "length b \<le> 2 ^ 32" and "send msgs = None"
    and "mset (map id_key rs) = mset (map id_key msgs)"
  shows "\<exists>b'. fst (BatchCallContext send (map Received rs @ evs) b c) = Some (Ret (None, b')) \<and>
    (\<forall>i < length b. \<forall>r \<in> set rs. id_key r = id_key (msgs ! i) \<longrightarrow> as_single_call (msgs ! i) r (c + of_nat i) (b ! i) (b' ! i))"
proof -
  from batch_responses [where send = send and evs = evs, OF assms] obtain b' where
    b': "BatchCallContext send (map Received rs @ evs) b c = (Some (Ret (None, b')), c')"
    and st: "\<And>i r. i < length b \<Longrightarrow> r \<in> set rs \<Longrightarrow> id_key r = id_key (msgs ! i) \<Longrightarrow>
      (case response_result (be_unmarshal (b ! i)) r of
         Inl e \<Rightarrow> be_Error (b' ! i) = Some e | Inr v \<Rightarrow> be_Error (b' ! i) = None \<and> be_Result (b' ! i) = Some v)" by blast
  have "as_single_call (msgs ! i) r (c + of_nat i) (b ! i) (b' ! i)"
    if "i < length b" "r \<in> set rs" "id_key r = id_key (msgs ! i)" for i r
    using as_single_callI [OF new_messages_single [OF assms(1) that(1)] st [OF that]] .
  with b' show ?thesis by auto
qed

definition two_elems :: "json BatchElem list" where
  "two_elems = replicate 2 \<lparr>be_Method = ''m'', be_Args = None, be_Dest = DPtr False Inr, be_Result = None, be_Error = None\<rparr>"

definition response_to :: "nat \<Rightarrow> json \<Rightarrow> jsonrpcMessage" where
  "response_to n j = zero_message\<lparr>Version := vsn, ID := Some (JNum (show_nat n)), Result := Some j\<rparr>"

theorem batch_equals_single_calls_witness:
  "\<exists>b'. fst (BatchCallContext (\<lambda>_. None) (map Received [response_to 2 JNull, response_to 1 (JBool True)]) two_elems 0) =
      Some (Ret (None, b')) \<and> be_Result (b' ! 0) = Some (JBool True) \<and> be_Result (b' ! 1) = Some JNull"
proof -
  let ?rs = "[response_to 2 JNull, response_to 1 (JBool True)]"
  obtain msgs c' where n: "new_messages two_elems 0 = (Inr msgs, c')"
    by (simp add: two_elems_def newMessage_def nextID_def Let_def eval_nat_numeral)
  have k: "map id_key msgs = [show_nat 1, show_nat 2]"
    using new_messages_IDs [OF n] by (simp add: two_elems_def upt_rec)
  have r: "id_key (response_to m j) = show_nat m" for m j by (simp add: id_key_def response_to_def)
  then have m: "mset (map id_key ?rs) = mset (map id_key msgs)" by (simp add: k)
  have i: "id_key (msgs ! 0) = show_nat 1" "id_key (msgs ! 1) = show_nat 2"
    using k by (cases msgs; force)+
  from batch_equals_single_calls [OF n _ _ m, of "\<lambda>_. None" "[]"] obtain b' where
    b': "fst (BatchCallContext (\<lambda>_. None) (map Received ?rs @ []) two_elems 0) = Some (Ret (None, b'))"
    and all: "\<And>i r. i < length two_elems \<Longrightarrow> r \<in> set ?rs \<Longrightarrow> id_key r = id_key (msgs ! i) \<Longrightarrow>
      as_single_call (msgs ! i) r (0 + of_nat i) (two_elems ! i) (b' ! i)"
    by (auto simp: two_elems_def)
  have e: "two_elems ! 0 = \<lparr>be_Method = ''m'', be_Args = None, be_Dest = DPtr False Inr, be_Result = None, be_Error = None\<rparr>"
    "two_elems ! 1 = two_elems ! 0" by (simp_all add: two_elems_def)
  have "single_call (msgs ! 0) (response_to 1 (JBool True)) 0 (two_elems ! 0) = Ret (Inr (Some (JBool True)))"
    using single_call_received [OF new_messages_single [OF n, of 0], of "response_to 1 (JBool True)"]
    by (simp add: two_elems_def response_result_def response_to_def Unmarshal_addr_def zero_message_def)
  with all [of 0 "response_to 1 (JBool True)"] i r e(1) have "be_Result (b' ! 0) = Some (JBool True)"
    by (simp add: as_single_call_def response_to_def zero_message_def two_elems_def split: option.splits)
  moreover from all [of 1 "response_to 2 JNull"] i r e have "be_Result (b' ! 1) = Some JNull"
    by (simp add: as_single_call_def response_to_def zero_message_def two_elems_def)
  ultimately show ?thesis using b' by auto
qed

text \<open>The write path either delivers on a live connection or leaves none: when \<open>write\<close> returns, it
  keeps a connection exactly if it succeeded, so the next write starts by reconnecting; a failed
  first write on an existing connection is repeated on the new one if reconnecting works, and with
  no way to reconnect the error is the loss of the connection.\<close>

theorem client_write_spec:
  assumes "client_write l msg writeConn w = (Ret (err, writeConn'), w')"
  shows "(err = None \<longleftrightarrow> writeConn' \<noteq> None) \<and>
    (\<forall>c e w1. writeConn = Some c \<longrightarrow> conn_write l c msg w = (Ret (Some e), w1) \<longrightarrow>
       (reconnectFunc l = None \<longrightarrow> err = Some errDead \<and> w' = w1) \<and>
       (\<forall>c2 w2 w3. reconnect l w1 = (Ret (Inr c2), w2) \<longrightarrow> conn_write l c2 msg w2 = (Ret None, w3) \<longrightarrow>
          err = None \<and> writeConn' = Some c2 \<and> w' = w3))"
proof (intro conjI allI impI)
  have once: "write_once l msg None v = (Ret (err, wc), v') \<Longrightarrow> err = None \<longleftrightarrow> wc \<noteq> None" for v wc v'
    by (auto simp: write_once_def bindP_def run_simps split: prod.splits outcome.splits sum.splits if_splits)
  then show "err = None \<longleftrightarrow> writeConn' \<noteq> None"
    using assms by (auto simp: client_write_def bindP_def run_simps split: prod.splits outcome.splits sum.splits option.splits)
qed (use assms in \<open>auto simp: client_write_def write_once_def reconnect_def run_simps\<close>)

theorem client_write_spec_witness:
  "let l = \<lparr>conn_write = (\<lambda>c _. returnP (if c = (1::nat) then Some (ErrString ''broken'') else None)),
            conn_close = (\<lambda>_. returnP ()), reconnectFunc = Some (returnP (Inr 2)), hand_over = (\<lambda>_. returnP True)\<rparr> in
     client_write l (WMsg zero_message) (Some 1) () = (Ret (None, Some 2), ())"
proof -
  let ?l = "\<lparr>conn_write = (\<lambda>c _. returnP (if c = (1::nat) then Some (ErrString ''broken'') else None)),
            conn_close = (\<lambda>_. returnP ()), reconnectFunc = Some (returnP (Inr 2)), hand_over = (\<lambda>_. returnP True)\<rparr> :: (unit, nat) link"
  obtain err wc where r: "client_write ?l (WMsg zero_message) (Some 1) () = (Ret (err, wc), ())"
    by (simp add: client_write_def write_once_def reconnect_def run_simps)
  have "reconnect ?l () = (Ret (Inr 2), ())" by (simp add: reconnect_def run_simps)
  with client_write_spec [OF r] r show ?thesis by (simp add: Let_def run_simps)
qed

end
