(* ===== verification/Rpc_Dispatch.thy ===== *)
theory Rpc_Dispatch
  imports Rpc_Client
begin

text \<open>
  The dispatching goroutine of the rpc client (\<open>Client.dispatch\<close> in src/util/rpc/client.go) and
  the callers that hold its send lock, as a step relation. A caller whose request was accepted on
  \<open>reqInit\<close> writes to the connection, may reconnect while doing so, and reports on \<open>reqSent\<close>, a
  channel of capacity one. Which case of the select comes next, and what the network does, is
  free. The fields \<open>started\<close> and \<open>sent_ok\<close> record which requests were accepted and which were
  sent without an error; no step depends on the second.
\<close>

section \<open>State\<close>

record 'v dispatcher =
  d_requests :: "'v requests"
  lastOp :: "nat option"
  sendLocked :: bool
  reading :: bool
  quit :: bool
  writers :: "nat list"
  reqSent :: "rpc_error option list"
  started :: "nat set"
  sent_ok :: "nat set"

definition dispatch_init :: "(nat \<Rightarrow> requestOp) \<Rightarrow> (nat \<Rightarrow> 'v ClientSubscription) \<Rightarrow> 'v dispatcher" where
  "dispatch_init ops subs = \<lparr>d_requests = no_requests ops subs, lastOp = None, sendLocked = False, reading = True, quit = False,
     writers = [], reqSent = [], started = {}, sent_ok = {}\<rparr>"

section \<open>The cases of the select\<close>

definition on_close :: "(nat \<Rightarrow> json option \<Rightarrow> rpc_error + 'v) \<Rightarrow> 'v dispatcher \<Rightarrow> 'v dispatcher" where
  "on_close un d = d\<lparr>quit := True,
     d_requests := (if reading d then cancelAllRequests un (Some ErrClientQuit) None (d_requests d) else d_requests d)\<rparr>"

text \<open>Of a message only its immediate part concerns the requests; calls run on other goroutines.\<close>

definition on_readOp :: "(nat \<Rightarrow> json option \<Rightarrow> rpc_error + 'v) \<Rightarrow> jsonrpcMessage list \<Rightarrow> 'v dispatcher \<Rightarrow> 'v dispatcher" where
  "on_readOp un msgs d = d\<lparr>d_requests := fold (\<lambda>msg h. snd (handleImmediate un msg h)) msgs (d_requests d)\<rparr>"

definition on_readErr :: "(nat \<Rightarrow> json option \<Rightarrow> rpc_error + 'v) \<Rightarrow> rpc_error \<Rightarrow> 'v dispatcher \<Rightarrow> 'v dispatcher" where
  "on_readErr un err d = d\<lparr>d_requests := cancelAllRequests un (Some err) (lastOp d) (d_requests d), reading := False\<rparr>"

text \<open>
  A new connection has a handler of its own, with no requests; a nil \<open>lastOp\<close> would be
  dereferenced.
\<close>

definition on_reconnected :: "(nat \<Rightarrow> json option \<Rightarrow> rpc_error + 'v) \<Rightarrow> 'v dispatcher \<Rightarrow> 'v dispatcher option" where
  "on_reconnected un d = (case lastOp d of
     None \<Rightarrow> None
   | Some op \<Rightarrow>
       (let h = (if reading d then cancelAllRequests un (Some errClientReconnected) (lastOp d) (d_requests d) else d_requests d);
            new = h\<lparr>respWait := [], clientSubs := []\<rparr> in
        Some (d\<lparr>reading := True, d_requests := addRequestOp op new\<rparr>)))"

definition on_reqInit :: "nat \<Rightarrow> 'v dispatcher \<Rightarrow> 'v dispatcher" where
  "on_reqInit op d = d\<lparr>sendLocked := True, lastOp := Some op, d_requests := addRequestOp op (d_requests d)\<rparr>"

definition on_reqSent :: "rpc_error option \<Rightarrow> 'v dispatcher \<Rightarrow> 'v dispatcher" where
  "on_reqSent err d = d\<lparr>d_requests := (case (err, lastOp d) of
       (Some _, Some op) \<Rightarrow> removeRequestOp op (d_requests d) | _ \<Rightarrow> d_requests d), sendLocked := False, lastOp := None\<rparr>"

definition on_reqTimeout :: "nat \<Rightarrow> 'v dispatcher \<Rightarrow> 'v dispatcher" where
  "on_reqTimeout op d = d\<lparr>d_requests := removeRequestOp op (d_requests d)\<rparr>"

section \<open>Steps\<close>

inductive dispatch_step :: "(nat \<Rightarrow> json option \<Rightarrow> rpc_error + 'v) \<Rightarrow> 'v dispatcher \<Rightarrow> 'v dispatcher \<Rightarrow> bool" for un where
  d_close: "\<not> quit d \<Longrightarrow> dispatch_step un d (on_close un d)"
| d_readOp: "\<not> quit d \<Longrightarrow> reading d \<Longrightarrow> dispatch_step un d (on_readOp un msgs d)"
| d_readErr: "\<not> quit d \<Longrightarrow> reading d \<Longrightarrow> dispatch_step un d (on_readErr un err d)"
| d_reconnected: "\<not> quit d \<Longrightarrow> writers d \<noteq> [] \<Longrightarrow> on_reconnected un d = Some d' \<Longrightarrow> dispatch_step un d d'"
| d_reqInit: "\<not> quit d \<Longrightarrow> \<not> sendLocked d \<Longrightarrow> op \<notin> started d \<Longrightarrow> fresh_op (op_store (d_requests d) op) \<Longrightarrow>
     dispatch_step un d ((on_reqInit op d)\<lparr>writers := op # writers d, started := insert op (started d)\<rparr>)"
| d_reqSent: "\<not> quit d \<Longrightarrow> reqSent d = err # errs \<Longrightarrow> dispatch_step un d ((on_reqSent err d)\<lparr>reqSent := errs\<rparr>)"
| d_reqTimeout: "\<not> quit d \<Longrightarrow> op \<in> sent_ok d \<Longrightarrow> dispatch_step un d (on_reqTimeout op d)"
| w_sent: "op \<in> set (writers d) \<Longrightarrow> reqSent d = [] \<Longrightarrow>
     dispatch_step un d (d\<lparr>writers := remove1 op (writers d), reqSent := [err],
       sent_ok := (if err = None then insert op (sent_ok d) else sent_ok d)\<rparr>)"

inductive_cases dispatch_stepE: "dispatch_step un d d'"

section \<open>The send lock\<close>

definition lock_inv :: "'v dispatcher \<Rightarrow> bool" where
  "lock_inv d \<longleftrightarrow> length (writers d) + length (reqSent d) \<le> 1 \<and>
     (sendLocked d \<longleftrightarrow> lastOp d \<noteq> None) \<and> (sendLocked d \<longleftrightarrow> writers d \<noteq> [] \<or> reqSent d \<noteq> []) \<and>
     (\<forall>op \<in> set (writers d). lastOp d = Some op)"

lemmas on_defs = on_close_def on_readOp_def on_readErr_def on_reqInit_def on_reqSent_def on_reqTimeout_def

lemma on_reconnected_fields:
  assumes "on_reconnected un d = Some d'"
  shows "lastOp d' = lastOp d" "sendLocked d' = sendLocked d" "writers d' = writers d" "reqSent d' = reqSent d"
    "started d' = started d" "sent_ok d' = sent_ok d" "quit d' = quit d"
  using assms by (auto simp: on_reconnected_def Let_def split: option.splits)

lemma single_writer: "op \<in> set xs \<Longrightarrow> length xs \<le> Suc 0 \<Longrightarrow> remove1 op xs = []"
  by (cases xs) auto

lemma lock_inv_init: "lock_inv (dispatch_init ops subs)"
  by (simp add: lock_inv_def dispatch_init_def)

lemma lock_inv_step: "lock_inv d \<Longrightarrow> dispatch_step un d d' \<Longrightarrow> lock_inv d'"
  by (erule dispatch_stepE)
    (auto simp: lock_inv_def on_defs on_reconnected_fields single_writer split: if_splits)

interpretation lock_sys: step_system "\<lambda>d. \<exists>ops subs. d = dispatch_init ops subs" "dispatch_step un" lock_inv
  for un :: "nat \<Rightarrow> json option \<Rightarrow> rpc_error + 'v"
  by unfold_locales (auto intro: lock_inv_init lock_inv_step)

section \<open>The requests\<close>

lemma request_inv_readOp: "request_inv h \<Longrightarrow> request_inv (fold (\<lambda>msg h. snd (handleImmediate un msg h)) msgs h)"
  by (induction msgs arbitrary: h) (simp_all add: requests_inv_immediate)

lemma request_inv_forget: "request_inv h \<Longrightarrow> request_inv (h\<lparr>respWait := [], clientSubs := []\<rparr>)"
  by (erule requests_inv_smaller) (simp_all add: waiting_def)

lemma fresh_cancelled: "fresh_op (op_store h op) \<Longrightarrow> fresh_op (op_store (cancelAllRequests un err (Some op) h) op)"
  by (simp add: cancelAllRequests_def cancel_ops_apply)

lemma request_inv_reconnected:
  assumes "request_inv (d_requests d)" "on_reconnected un d = Some d'" "lastOp d = Some op" "fresh_op (op_store (d_requests d) op)"
  shows "request_inv (d_requests d')"
proof -
  let ?h = "if reading d then cancelAllRequests un (Some errClientReconnected) (lastOp d) (d_requests d) else d_requests d"
  have "request_inv (?h\<lparr>respWait := [], clientSubs := []\<rparr>)"
    using assms(1) by (intro request_inv_forget) (simp add: requests_inv_cancel)
  moreover have "fresh_op (op_store (?h\<lparr>respWait := [], clientSubs := []\<rparr>) op)"
    using assms(3,4) by (simp add: fresh_cancelled)
  ultimately have "request_inv (addRequestOp op (?h\<lparr>respWait := [], clientSubs := []\<rparr>))" by (rule request_inv_add)
  then show ?thesis using assms(2,3) by (auto simp: on_reconnected_def Let_def)
qed

lemma request_inv_dispatch:
  assumes "request_inv (d_requests d)" "dispatch_step un d d'"
    and "\<And>op. lastOp d = Some op \<Longrightarrow> on_reconnected un d = Some d' \<Longrightarrow> fresh_op (op_store (d_requests d) op)"
  shows "request_inv (d_requests d')"
  using assms(2)
proof (cases rule: dispatch_step.cases)
  case d_reconnected
  then obtain op where "lastOp d = Some op" by (auto simp: on_reconnected_def split: option.splits)
  with request_inv_reconnected [OF assms(1) d_reconnected(3)] assms(3) d_reconnected(3) show ?thesis by blast
qed (use assms(1) in \<open>auto simp: on_defs requests_inv_cancel request_inv_readOp request_inv_add requests_inv_remove split: option.splits\<close>)

text \<open>
  A request that was accepted, but which no handler waits for and which is not in flight, is
  never answered.
\<close>

definition orphan :: "nat \<Rightarrow> 'v dispatcher \<Rightarrow> bool" where
  "orphan op d \<longleftrightarrow> op \<in> started d \<and> op \<notin> set (writers d) \<and> lastOp d \<noteq> Some op \<and>
     waiting (d_requests d) op = {} \<and> distinct (map fst (respWait (d_requests d)))"

definition untouched :: "nat \<Rightarrow> 'v requests \<Rightarrow> 'v requests \<Rightarrow> bool" where
  "untouched op h h' \<longleftrightarrow> op_store h' op = op_store h op \<and> waiting h' op = {} \<and> distinct (map fst (respWait h'))"

lemma untouched_response:
  assumes "waiting h op = {}" "distinct (map fst (respWait h))"
  shows "untouched op h (handleResponse msg h)"
proof (cases "\<exists>rawid op'. ID msg = Some rawid \<and> map_of (respWait h) (show_json rawid) = Some op'")
  case False
  then have "handleResponse msg h = h" by (auto simp: handleResponse_def split: option.splits)
  with assms show ?thesis by (simp add: untouched_def)
next
  case True
  then obtain rawid op' where m: "ID msg = Some rawid" "map_of (respWait h) (show_json rawid) = Some op'" by blast
  then have "op' \<noteq> op" using assms(1) by (auto simp: waiting_def)
  then have "op_store (handleResponse msg h) op = op_store h op"
    "respWait (handleResponse msg h) = AList.delete (show_json rawid) (respWait h)"
    by (simp_all add: handleResponse_def m Let_def split: option.splits sum.splits)
  with assms show ?thesis by (auto simp: untouched_def waiting_def delete_conv' distinct_delete split: if_splits)
qed

lemma untouched_immediate:
  assumes "waiting h op = {}" "distinct (map fst (respWait h))"
  shows "untouched op h (snd (handleImmediate un msg h))"
proof -
  have "op_store (handleSubscriptionResult un msg h) = op_store h" "respWait (handleSubscriptionResult un msg h) = respWait h"
    by (simp_all add: handleSubscriptionResult_def split: sum.splits prod.splits option.splits)
  with assms have "untouched op h (handleSubscriptionResult un msg h)" by (simp add: untouched_def waiting_def)
  with assms untouched_response [OF assms] show ?thesis by (simp add: handleImmediate_def untouched_def)
qed

lemma untouched_trans: "untouched op h h1 \<Longrightarrow> untouched op h1 h2 \<Longrightarrow> untouched op h h2"
  by (simp add: untouched_def)

lemma untouched_refl: "waiting h op = {} \<Longrightarrow> distinct (map fst (respWait h)) \<Longrightarrow> untouched op h h"
  by (simp add: untouched_def)

lemma untouched_readOp:
  "waiting h op = {} \<Longrightarrow> distinct (map fst (respWait h)) \<Longrightarrow> untouched op h (fold (\<lambda>msg h. snd (handleImmediate un msg h)) msgs h)"
proof (induction msgs arbitrary: h)
  case (Cons msg msgs)
  let ?h = "snd (handleImmediate un msg h)"
  have u: "untouched op h ?h" using Cons.prems by (rule untouched_immediate)
  then have "untouched op ?h (fold (\<lambda>msg h. snd (handleImmediate un msg h)) msgs ?h)"
    by (intro Cons.IH) (simp_all add: untouched_def)
  with u show ?case by (auto intro: untouched_trans)
qed (simp add: untouched_refl)

lemma untouched_cancel:
  assumes "waiting h op = {}" "distinct (map fst (respWait h))"
  shows "untouched op h (cancelAllRequests un err inflight h)"
proof -
  have "op \<notin> snd ` set (respWait h)" using assms by (force simp: waiting_def)
  then show ?thesis by (simp add: untouched_def cancelAllRequests_def cancel_ops_apply waiting_def)
qed

lemma untouched_remove:
  "waiting h op = {} \<Longrightarrow> distinct (map fst (respWait h)) \<Longrightarrow> untouched op h (removeRequestOp op' h)"
  by (simp add: untouched_def waiting_remove) (simp add: removeRequestOp_def distinct_fold_delete)

lemma untouched_add:
  "waiting h op = {} \<Longrightarrow> distinct (map fst (respWait h)) \<Longrightarrow> op' \<noteq> op \<Longrightarrow> untouched op h (addRequestOp op' h)"
  by (simp add: untouched_def waiting_add) (simp add: addRequestOp_def distinct_fold_update)

lemma untouched_reconnected:
  assumes "waiting (d_requests d) op = {}" "distinct (map fst (respWait (d_requests d)))" "lastOp d \<noteq> Some op"
    and "on_reconnected un d = Some d'"
  shows "untouched op (d_requests d) (d_requests d')"
proof -
  let ?h = "if reading d then cancelAllRequests un (Some errClientReconnected) (lastOp d) (d_requests d) else d_requests d"
  let ?n = "?h\<lparr>respWait := [], clientSubs := []\<rparr>"
  obtain op' where op': "lastOp d = Some op'" "d_requests d' = addRequestOp op' ?n"
    using assms(4) by (auto simp: on_reconnected_def Let_def split: option.splits)
  have "untouched op (d_requests d) ?h"
    using assms(1,2) by (simp add: untouched_cancel untouched_refl)
  then have "untouched op (d_requests d) ?n" by (auto simp: untouched_def waiting_def)
  moreover have "untouched op ?n (addRequestOp op' ?n)"
    using op'(1) assms(3) by (intro untouched_add) (auto simp: waiting_def)
  ultimately show ?thesis unfolding op'(2) by (rule untouched_trans)
qed

lemma orphan_step:
  assumes "orphan op d" "dispatch_step un d d'"
  shows "orphan op d' \<and> op_store (d_requests d') op = op_store (d_requests d) op"
proof -
  have o: "waiting (d_requests d) op = {}" "distinct (map fst (respWait (d_requests d)))" "lastOp d \<noteq> Some op"
    "op \<in> started d" "op \<notin> set (writers d)"
    using assms(1) by (simp_all add: orphan_def)
  have "untouched op (d_requests d) (d_requests d')"
    using assms(2)
  proof (cases rule: dispatch_step.cases)
    case d_reconnected
    with untouched_reconnected [OF o(1-3)] show ?thesis by blast
  qed (use o in \<open>auto simp: on_defs untouched_cancel untouched_readOp untouched_remove untouched_refl
        intro: untouched_add split: option.splits\<close>)
  moreover have "op \<in> started d' \<and> op \<notin> set (writers d') \<and> lastOp d' \<noteq> Some op"
    using assms(2)
    by (cases rule: dispatch_step.cases)
      (use o in \<open>auto simp: on_defs on_reconnected_fields dest: in_set_remove1 [THEN iffD1, rotated] notin_set_remove1\<close>)
  ultimately show ?thesis by (simp add: orphan_def untouched_def)
qed

lemma orphan_run:
  "(dispatch_step un)\<^sup>*\<^sup>* d d' \<Longrightarrow> orphan op d \<Longrightarrow> orphan op d' \<and> op_store (d_requests d') op = op_store (d_requests d) op"
  by (induction rule: rtranclp_induct) (use orphan_step in fastforce)+

section \<open>Properties\<close>

text \<open>C16. The send lock works: at every time at most one caller writes to the connection; while it does,
  its request is the one in flight, so a reconnection always finds a request to transfer, and its
  report on \<open>reqSent\<close> finds the channel empty and does not block.\<close>

theorem dispatch_send_lock:
  assumes "(dispatch_step un)\<^sup>*\<^sup>* (dispatch_init ops subs) d"
  shows "length (writers d) \<le> 1 \<and>
    (writers d \<noteq> [] \<longrightarrow> lastOp d = Some (hd (writers d)) \<and> on_reconnected un d \<noteq> None \<and> reqSent d = [] \<and> sendLocked d)"
proof -
  have i: "lock_inv d" using lock_sys.inv_reachable assms by blast
  show ?thesis
  proof (cases "writers d")
    case (Cons op ops)
    with i have "ops = []" "lastOp d = Some op" "reqSent d = []" "sendLocked d" by (auto simp: lock_inv_def)
    with Cons show ?thesis by (simp add: on_reconnected_def Let_def)
  qed simp
qed

definition no_unmarshal :: "nat \<Rightarrow> json option \<Rightarrow> rpc_error + json" where
  "no_unmarshal sub j = Inl (ErrString [])"

definition no_subs :: "nat \<Rightarrow> json ClientSubscription" where
  "no_subs sub = newClientSubscription"

definition accepted :: "nat \<Rightarrow> 'v dispatcher \<Rightarrow> 'v dispatcher" where
  "accepted op d = (on_reqInit op d)\<lparr>writers := op # writers d, started := insert op (started d)\<rparr>"

lemma accepted_step: "(\<And>op. fresh_op (ops op)) \<Longrightarrow> dispatch_step un (dispatch_init ops subs) (accepted op (dispatch_init ops subs))"
  unfolding accepted_def by (rule d_reqInit) (simp_all add: dispatch_init_def no_requests_def)

lemma fresh_one_op: "fresh_op (one_op op)"
  by (simp add: one_op_def fresh_op_def)

theorem dispatch_send_lock_witness:
  "let d = accepted 3 (dispatch_init one_op no_subs) in
     (dispatch_step no_unmarshal)\<^sup>*\<^sup>* (dispatch_init one_op no_subs) d \<and> writers d = [3] \<and> lastOp d = Some 3 \<and> reqSent d = []"
proof -
  let ?d = "accepted 3 (dispatch_init one_op no_subs)"
  have r: "(dispatch_step no_unmarshal)\<^sup>*\<^sup>* (dispatch_init one_op no_subs) ?d"
    by (rule r_into_rtranclp [of "dispatch_step no_unmarshal", OF accepted_step [OF fresh_one_op]])
  have w: "writers ?d = [3]" by (simp add: accepted_def dispatch_init_def)
  show ?thesis unfolding Let_def using dispatch_send_lock [OF r] r w by simp
qed

text \<open>
  Runs in which a reconnection never re-registers a request that has been answered already.
\<close>

definition orderly_step :: "(nat \<Rightarrow> json option \<Rightarrow> rpc_error + 'v) \<Rightarrow> 'v dispatcher \<Rightarrow> 'v dispatcher \<Rightarrow> bool" where
  "orderly_step un d d' \<longleftrightarrow> dispatch_step un d d' \<and>
     (on_reconnected un d = Some d' \<longrightarrow> (\<forall>op. lastOp d = Some op \<longrightarrow> fresh_op (op_store (d_requests d) op)))"

interpretation orderly_sys: step_system "\<lambda>d. \<exists>ops subs. (\<forall>op. fresh_op (ops op)) \<and> d = dispatch_init ops subs"
  "orderly_step un" "\<lambda>d. request_inv (d_requests d)" for un :: "nat \<Rightarrow> json option \<Rightarrow> rpc_error + 'v"
  by unfold_locales
    (auto simp: orderly_step_def dispatch_init_def intro: requests_inv_init request_inv_dispatch)

text \<open>C17. The dispatcher never panics on a request and never blocks on one, across sends, timeouts, read
  errors, reconnections and the close of the client, as long as no reconnection re-registers a
  request that was answered already: no request's channel is closed twice, and none is sent more
  responses than it has IDs.\<close>

theorem dispatch_requests_safe:
  assumes "(orderly_step un)\<^sup>*\<^sup>* (dispatch_init ops subs) d" and "\<And>op. fresh_op (ops op)"
  shows "op_closed (op_store (d_requests d) op) \<le> 1 \<and>
    length (op_resp (op_store (d_requests d) op)) \<le> length (op_ids (op_store (d_requests d) op))"
proof -
  have "request_inv (d_requests d)" using orderly_sys.inv_reachable assms by blast
  from requests_invD(4,5) [OF this, of op] show ?thesis by simp
qed

theorem dispatch_requests_safe_witness:
  "let d = accepted 3 (dispatch_init one_op no_subs) in
     (orderly_step no_unmarshal)\<^sup>*\<^sup>* (dispatch_init one_op no_subs) d \<and> op_closed (op_store (d_requests d) 3) \<le> 1"
proof -
  let ?d = "accepted 3 (dispatch_init one_op no_subs)"
  have "orderly_step no_unmarshal (dispatch_init one_op no_subs) ?d"
    unfolding orderly_step_def using accepted_step [OF fresh_one_op]
    by (simp add: dispatch_init_def)
  then have r: "(orderly_step no_unmarshal)\<^sup>*\<^sup>* (dispatch_init one_op no_subs) ?d" by (rule r_into_rtranclp)
  show ?thesis unfolding Let_def using dispatch_requests_safe [OF r fresh_one_op] r by blast
qed

text \<open>C28. A request can be lost: if a read error is handled after a request has been written and before
  its report on \<open>reqSent\<close>, the request in flight is deregistered without being closed, and no later
  step ever sends to its channel or closes it, so that a caller without a deadline waits forever.\<close>

theorem inflight_request_lost:
  "\<exists>d. (dispatch_step no_unmarshal)\<^sup>*\<^sup>* (dispatch_init one_op no_subs) d \<and> 3 \<in> sent_ok d \<and> \<not> quit d \<and>
     \<not> (\<exists>d'. (dispatch_step no_unmarshal)\<^sup>*\<^sup>* d d' \<and>
          \<not> (op_resp (op_store (d_requests d') 3) = [] \<and> op_closed (op_store (d_requests d') 3) = 0))"
proof -
  let ?R = "dispatch_step no_unmarshal" and ?i = "dispatch_init one_op no_subs"
  let ?a = "accepted 3 ?i"
  let ?b = "?a\<lparr>writers := [], reqSent := [None], sent_ok := {3}\<rparr>"
  let ?c = "on_readErr no_unmarshal (ErrString ''EOF'') ?b"
  let ?d = "(on_reqSent None ?c)\<lparr>reqSent := []\<rparr>"
  have a: "?R ?i ?a" by (rule accepted_step [OF fresh_one_op])
  have b: "?R ?a ?b" using w_sent [of 3 ?a no_unmarshal None] by (simp add: accepted_def dispatch_init_def on_reqInit_def)
  have c: "?R ?b ?c" by (rule d_readErr) (simp_all add: accepted_def dispatch_init_def on_reqInit_def)
  have d: "?R ?c ?d" by (rule d_reqSent) (simp_all add: accepted_def dispatch_init_def on_defs)
  have run: "?R\<^sup>*\<^sup>* ?i ?d" using a b c d by (meson rtranclp.rtrancl_into_rtrancl rtranclp.rtrancl_refl)
  have store: "op_store (d_requests ?d) 3 = one_op 3"
    by (simp add: on_defs accepted_def dispatch_init_def no_requests_def cancelAllRequests_def cancel_ops_apply addRequestOp_def)
  have "orphan 3 ?d"
    by (simp add: orphan_def on_defs accepted_def dispatch_init_def cancelAllRequests_def waiting_def)
  then have "op_store (d_requests d') 3 = one_op 3" if "?R\<^sup>*\<^sup>* ?d d'" for d'
    using orphan_run [OF that] store by simp
  then show ?thesis using run
    by (intro exI [of _ ?d]) (auto simp: one_op_def on_defs accepted_def dispatch_init_def)
qed

definition sub_op :: "nat \<Rightarrow> requestOp" where
  "sub_op op = (one_op op)\<lparr>op_sub := Some op\<rparr>"

definition subscribed :: jsonrpcMessage where
  "subscribed = zero_message\<lparr>Version := vsn, ID := Some (JNum (show_nat 3)), Result := Some (JStr ''0x1'')\<rparr>"

text \<open>C29. A subscription request can be closed twice, which panics: if the server's response arrives before
  the caller, whose write has reported an error, reconnects, the answered request is registered
  again with the new connection, and the response to its second sending closes its channel again.\<close>

theorem resubscription_closes_twice:
  "\<exists>d. (dispatch_step no_unmarshal)\<^sup>*\<^sup>* (dispatch_init sub_op no_subs) d \<and> op_closed (op_store (d_requests d) 3) = 2"
proof -
  let ?R = "dispatch_step no_unmarshal" and ?i = "dispatch_init sub_op no_subs"
  have f: "fresh_op (sub_op op)" for op by (simp add: sub_op_def one_op_def fresh_op_def)
  have ids: "request_keys (sub_op op) = [show_nat op]" for op by (simp add: request_keys_def sub_op_def one_op_def)
  let ?a = "accepted 3 ?i"
  let ?b = "on_readOp no_unmarshal [subscribed] ?a"
  have a: "?R ?i ?a" by (rule accepted_step [OF f])
  have b: "?R ?a ?b" by (rule d_readOp) (simp_all add: accepted_def dispatch_init_def on_reqInit_def)
  have l: "lastOp ?b = Some 3" "writers ?b = [3]" "\<not> quit ?b" by (simp_all add: on_readOp_def accepted_def dispatch_init_def on_reqInit_def)
  then obtain c where oc: "on_reconnected no_unmarshal ?b = Some c" by (simp add: on_reconnected_def Let_def)
  have c: "?R ?b c" by (rule d_reconnected) (use l oc in simp_all)
  let ?d = "on_readOp no_unmarshal [subscribed] c"
  have k: "\<not> isNotification subscribed" "isResponse subscribed" "ID subscribed = Some (JNum (show_nat 3))"
    "MsgError subscribed = None" "Result subscribed = Some (JStr ''0x1'')"
    using show_nat_first [of 3]
    by (auto simp: subscribed_def isNotification_def isResponse_def hasValidID_def first_byte_def zero_message_def is_digit_def)
  have h: "handleImmediate no_unmarshal subscribed q = (True, handleResponse subscribed q)" for q
    by (simp add: handleImmediate_def k)
  have cl: "op_closed (op_store (handleResponse subscribed q) 3) = Suc (op_closed (op_store q 3))"
    "op_ids (op_store (handleResponse subscribed q) 3) = op_ids (op_store q 3)"
    "op_sub (op_store (handleResponse subscribed q) 3) = op_sub (op_store q 3)"
    if "map_of (respWait q) (show_nat 3) = Some 3" "op_sub (op_store q 3) \<noteq> None" for q :: "json requests"
    using that by (auto simp: handleResponse_def k Let_def close_op_def unmarshal_string_def)
  have ra: "map_of (respWait (d_requests ?a)) (show_nat 3) = Some 3" "op_store (d_requests ?a) 3 = sub_op 3"
    by (simp_all add: accepted_def on_reqInit_def dispatch_init_def no_requests_def addRequestOp_def ids)
  have rb: "op_closed (op_store (d_requests ?b) 3) = 1" "op_sub (op_store (d_requests ?b) 3) = Some 3"
    "op_ids (op_store (d_requests ?b) 3) = op_ids (sub_op 3)"
    using cl [OF ra(1)] ra(2) by (simp_all add: on_readOp_def h sub_op_def one_op_def)
  have rc: "map_of (respWait (d_requests c)) (show_nat 3) = Some 3" "op_store (d_requests c) 3 = op_store (d_requests ?b) 3"
    "reading c" "\<not> quit c"
    using oc l rb(3) ids [of 3]
    by (auto simp: on_reconnected_def Let_def addRequestOp_def request_keys_def map_of_fold_update cancelAllRequests_def
        cancel_ops_apply sub_op_def one_op_def)
  have "?R c ?d" by (rule d_readOp) (use rc in simp_all)
  with a b c have "?R\<^sup>*\<^sup>* ?i ?d" by (meson rtranclp.rtrancl_into_rtrancl rtranclp.rtrancl_refl)
  moreover have "op_closed (op_store (d_requests ?d) 3) = 2"
    using cl(1) [OF rc(1)] rc(2) rb by (simp add: on_readOp_def h)
  ultimately show ?thesis by blast
qed

end
