(* ===== verification/Go_Url.thy ===== *)
theory Go_Url
  imports Go_Text
begin

text \<open>
  The parts of Go's package \<open>net/url\<close> that the websocket transport uses: \<open>Parse\<close> with the scheme,
  the opaque part, the host name and the port it finds, and whether it fails. Path, query and
  fragment only count for the errors in their escapes. All errors are one, \<open>None\<close>.
\<close>

definition is_alpha :: "char \<Rightarrow> bool" where
  "is_alpha c \<longleftrightarrow> (let n = of_char c :: nat in 65 \<le> n \<and> n \<le> 90 \<or> 97 \<le> n \<and> n \<le> 122)"

definition is_hex :: "char \<Rightarrow> bool" where
  "is_hex c \<longleftrightarrow> is_digit c \<or> (let n = of_char c :: nat in 65 \<le> n \<and> n \<le> 70 \<or> 97 \<le> n \<and> n \<le> 102)"

definition unhex :: "char \<Rightarrow> nat" where
  "unhex c = (let n = of_char c :: nat in if n \<le> 57 then n - 48 else if n \<le> 70 then n - 55 else n - 87)"

text \<open>Text before and after the first occurrence of a character.\<close>

definition before :: "char \<Rightarrow> string \<Rightarrow> string" where
  "before c s = takeWhile (\<lambda>x. x \<noteq> c) s"

definition after :: "char \<Rightarrow> string \<Rightarrow> string" where
  "after c s = drop 1 (dropWhile (\<lambda>x. x \<noteq> c) s)"

text \<open>The same for the last occurrence; \<open>None\<close> if there is none.\<close>

definition split_last :: "char \<Rightarrow> string \<Rightarrow> (string \<times> string) option" where
  "split_last c s = (if c \<notin> set s then None else
     Some (rev (after c (rev s)), rev (before c (rev s))))"

text \<open>\<open>getScheme\<close>: \<open>None\<close> for a missing scheme before a colon.\<close>

fun scheme_from :: "bool \<Rightarrow> string \<Rightarrow> string option option" where
  "scheme_from first [] = Some None"
| "scheme_from first (c # cs) =
     (if is_alpha c then map_option (map_option ((#) c)) (scheme_from False cs)
      else if is_digit c \<or> c = CHR ''+'' \<or> c = CHR ''-'' \<or> c = CHR ''.'' then
        (if first then Some None else map_option (map_option ((#) c)) (scheme_from False cs))
      else if c = CHR '':'' then (if first then None else Some (Some []))
      else Some None)"

definition getScheme :: "string \<Rightarrow> (string \<times> string) option" where
  "getScheme raw = (case scheme_from True raw of
     None \<Rightarrow> None
   | Some None \<Rightarrow> Some ([], raw)
   | Some (Some scheme) \<Rightarrow> Some (scheme, drop (Suc (length scheme)) raw))"

text \<open>Escapes: two hexadecimal digits have to follow every percent sign.\<close>

fun escapes_ok :: "string \<Rightarrow> bool" where
  "escapes_ok [] = True"
| "escapes_ok (c # cs) = (if c = CHR ''%'' then (case cs of a # b # rest \<Rightarrow> is_hex a \<and> is_hex b \<and> escapes_ok rest | _ \<Rightarrow> False)
     else escapes_ok cs)"

text \<open>
  In a host an escape stands for a byte above 127, or for a percent sign; of the other ASCII
  characters only these may be there.
\<close>

definition host_ascii :: "char \<Rightarrow> bool" where
  "host_ascii c \<longleftrightarrow> is_alpha c \<or> is_digit c \<or> c \<in> set ''-_.~!$&()*+,;=:[]<>'' \<or> c = CHR 0x27 \<or> c = CHR 0x22"

definition host_char :: "char \<Rightarrow> bool" where
  "host_char c \<longleftrightarrow> host_ascii c \<or> 128 \<le> (of_char c :: nat)"

fun unescape_host :: "string \<Rightarrow> string option" where
  "unescape_host [] = Some []"
| "unescape_host (c # cs) =
     (if c = CHR ''%'' then (case cs of
        a # b # rest \<Rightarrow> if is_hex a \<and> is_hex b \<and> (8 \<le> unhex a \<or> a = CHR ''2'' \<and> b = CHR ''5'')
          then map_option ((#) (char_of (16 * unhex a + unhex b))) (unescape_host rest) else None
      | _ \<Rightarrow> None)
      else if host_char c then map_option ((#) c) (unescape_host cs) else None)"

definition validOptionalPort :: "string \<Rightarrow> bool" where
  "validOptionalPort p \<longleftrightarrow> (case p of [] \<Rightarrow> True | c # cs \<Rightarrow> c = CHR '':'' \<and> list_all is_digit cs)"

definition validUserinfo :: "string \<Rightarrow> bool" where
  "validUserinfo s = list_all (\<lambda>c. is_alpha c \<or> is_digit c \<or> c \<in> set ''-._:~!$&()*+,;=%@'' \<or> c = CHR 0x27) s"

text \<open>The zone of an address, from \<open>%25\<close> on, may also have escapes of spaces and host characters.\<close>

fun unescape_zone :: "string \<Rightarrow> string option" where
  "unescape_zone [] = Some []"
| "unescape_zone (c # cs) =
     (if c = CHR ''%'' then (case cs of
        a # b # rest \<Rightarrow>
          (let v = char_of (16 * unhex a + unhex b) in
           if is_hex a \<and> is_hex b \<and> (a = CHR ''2'' \<and> b = CHR ''5'' \<or> v = CHR '' '' \<or> host_ascii v)
           then map_option ((#) v) (unescape_zone rest) else None)
      | _ \<Rightarrow> None)
      else if host_char c then map_option ((#) c) (unescape_zone cs) else None)"

fun find_zone :: "string \<Rightarrow> (string \<times> string) option" where
  "find_zone [] = None"
| "find_zone (c # cs) = (if take 3 (c # cs) = ''%25'' then Some ([], c # cs) else map_option (apfst ((#) c)) (find_zone cs))"

definition parseHost :: "string \<Rightarrow> string option" where
  "parseHost host =
     (if take 1 host = ''['' then (case split_last (CHR '']'') host of
        None \<Rightarrow> None
      | Some (addr, colonPort) \<Rightarrow>
          if \<not> validOptionalPort colonPort then None
          else (case find_zone addr of
              None \<Rightarrow> unescape_host host
            | Some (host1, zone) \<Rightarrow> (case (unescape_host host1, unescape_zone zone, unescape_host (CHR '']'' # colonPort)) of
                  (Some a, Some b, Some d) \<Rightarrow> Some (a @ b @ d)
                | _ \<Rightarrow> None)))
      else (case split_last (CHR '':'') host of
        Some (_, port) \<Rightarrow> if list_all is_digit port then unescape_host host else None
      | None \<Rightarrow> unescape_host host))"

definition parseAuthority :: "string \<Rightarrow> string option" where
  "parseAuthority authority = (case split_last (CHR ''@'') authority of
     None \<Rightarrow> parseHost authority
   | Some (userinfo, host) \<Rightarrow> (case parseHost host of
         None \<Rightarrow> None
       | Some h \<Rightarrow> if validUserinfo userinfo \<and> escapes_ok (before (CHR '':'') userinfo) \<and> escapes_ok (after (CHR '':'') userinfo)
           then Some h else None))"

record URL =
  Scheme :: string
  Opaque :: string
  Host :: string

definition url_of :: "string \<Rightarrow> string \<Rightarrow> string \<Rightarrow> URL" where
  "url_of s opaq h = \<lparr>Scheme = s, Opaque = opaq, Host = h\<rparr>"

definition ctl_byte :: "char \<Rightarrow> bool" where
  "ctl_byte c \<longleftrightarrow> (of_char c :: nat) < 32 \<or> (of_char c :: nat) = 127"

definition url_parse :: "string \<Rightarrow> URL option" where
  "url_parse raw =
     (if list_ex ctl_byte raw then None
      else if raw = ''*'' then Some (url_of [] [] [])
      else case getScheme raw of
        None \<Rightarrow> None
      | Some (scheme0, rest0) \<Rightarrow>
         (let scheme = ToLower scheme0; rest = before (CHR ''?'') rest0 in
          if \<not> HasPrefix rest ''/'' then
            (if scheme \<noteq> [] then Some (url_of scheme rest [])
             else if CHR '':'' \<in> set (before (CHR ''/'') rest) then None
             else if escapes_ok rest then Some (url_of [] [] []) else None)
          else if (scheme \<noteq> [] \<or> \<not> HasPrefix rest ''///'') \<and> HasPrefix rest ''//'' then
            (let authority = before (CHR ''/'') (drop 2 rest); path = drop (length authority) (drop 2 rest) in
             case parseAuthority authority of
               None \<Rightarrow> None
             | Some h \<Rightarrow> if escapes_ok path then Some (url_of scheme [] h) else None)
          else if escapes_ok rest then Some (url_of scheme [] []) else None))"

definition url_Parse :: "string \<Rightarrow> URL option" where
  "url_Parse raw = (case url_parse (before (CHR ''#'') raw) of
     None \<Rightarrow> None
   | Some u \<Rightarrow> if escapes_ok (after (CHR ''#'') raw) then Some u else None)"

text \<open>Host name and port of a URL.\<close>

definition splitHostPort :: "string \<Rightarrow> string \<times> string" where
  "splitHostPort hostPort =
     (let (host, port) = (case split_last (CHR '':'') hostPort of
          Some (h, p) \<Rightarrow> if list_all is_digit p then (h, p) else (hostPort, [])
        | None \<Rightarrow> (hostPort, [])) in
      (if HasPrefix host ''['' \<and> HasSuffix host '']'' then butlast (tl host) else host, port))"

definition Hostname :: "URL \<Rightarrow> string" where "Hostname u = fst (splitHostPort (Host u))"
definition Port :: "URL \<Rightarrow> string" where "Port u = snd (splitHostPort (Host u))"

section \<open>Plain URLs\<close>

text \<open>Host names of letters, digits, hyphens and dots; ports of digits.\<close>

definition plain_char :: "char \<Rightarrow> bool" where
  "plain_char c \<longleftrightarrow> is_alpha c \<or> is_digit c \<or> c = CHR ''-'' \<or> c = CHR ''.''"

definition plain :: "string \<Rightarrow> bool" where
  "plain s \<longleftrightarrow> s \<noteq> [] \<and> list_all plain_char s"

definition plain_scheme :: "string \<Rightarrow> bool" where
  "plain_scheme s \<longleftrightarrow> plain s \<and> is_alpha (hd s)"

definition port_suffix :: "string option \<Rightarrow> string" where
  "port_suffix p = (case p of None \<Rightarrow> [] | Some d \<Rightarrow> CHR '':'' # d)"

definition plain_port :: "string option \<Rightarrow> bool" where
  "plain_port p \<longleftrightarrow> (case p of None \<Rightarrow> True | Some d \<Rightarrow> list_all is_digit d)"

lemma plain_char_excludes:
  assumes "plain_char c"
  shows "c \<noteq> CHR '':''" "c \<noteq> CHR ''/''" "c \<noteq> CHR ''?''" "c \<noteq> CHR ''#''" "c \<noteq> CHR ''@''" "c \<noteq> CHR ''['' " "c \<noteq> CHR ''%''" "c \<noteq> CHR ''*''"
    "\<not> ctl_byte c" "host_char c"
  using assms by (auto simp: plain_char_def is_alpha_def is_digit_def ctl_byte_def host_char_def host_ascii_def Let_def)

lemma digit_plain: "is_digit c \<Longrightarrow> plain_char c"
  by (simp add: plain_char_def)

lemma scheme_from_plain:
  "list_all plain_char s \<Longrightarrow> scheme_from False (s @ CHR '':'' # r) = Some (Some s)"
  by (induction s) (auto simp: plain_char_def is_alpha_def is_digit_def)

lemma scheme_from_True: "plain_scheme s \<Longrightarrow> scheme_from True (s @ CHR '':'' # r) = Some (Some s)"
  using scheme_from_plain [of "tl s" r] by (cases s) (auto simp: plain_scheme_def plain_def)

lemma getScheme_plain: "plain_scheme s \<Longrightarrow> getScheme (s @ CHR '':'' # r) = Some (s, r)"
  by (simp add: getScheme_def scheme_from_True)

lemma scheme_from_none: "list_all plain_char s \<Longrightarrow> scheme_from first s = Some None"
  by (induction s arbitrary: first) (auto simp: plain_char_def)

lemma before_id: "c \<notin> set s \<Longrightarrow> before c s = s"
  by (auto simp: before_def takeWhile_eq_all_conv)

lemma after_none: "c \<notin> set s \<Longrightarrow> after c s = []"
  by (induction s) (auto simp: after_def)

lemma before_append: "c \<notin> set a \<Longrightarrow> before c (a @ c # b) = a"
  by (induction a) (auto simp: before_def)

lemma after_append: "c \<notin> set a \<Longrightarrow> after c (a @ c # b) = b"
  by (induction a) (auto simp: after_def)

lemma unescape_host_id: "list_all (\<lambda>c. c \<noteq> CHR ''%'' \<and> host_char c) s \<Longrightarrow> unescape_host s = Some s"
  by (induction s) auto

lemma escapes_ok_id: "CHR ''%'' \<notin> set s \<Longrightarrow> escapes_ok s"
  by (induction s) auto

lemma split_last_append: "c \<notin> set b \<Longrightarrow> split_last c (a @ c # b) = Some (a, b)"
  by (simp add: split_last_def after_append before_append)

lemma split_last_none: "c \<notin> set s \<Longrightarrow> split_last c s = None"
  by (simp add: split_last_def)

lemma host_port_chars:
  assumes "plain h" "plain_port p" "c \<in> set (h @ port_suffix p)"
  shows "plain_char c \<or> c = CHR '':''"
  using assms digit_plain by (auto simp: plain_def plain_port_def port_suffix_def list_all_iff split: option.splits)

lemma colon_host: "host_char (CHR '':'')" "\<not> ctl_byte (CHR '':'')"
  by (simp_all add: host_char_def host_ascii_def ctl_byte_def)

lemma parseHost_plain:
  assumes "plain h" "plain_port p"
  shows "parseHost (h @ port_suffix p) = Some (h @ port_suffix p)"
proof -
  have "take 1 (h @ port_suffix p) \<noteq> ''[''"
    using assms(1) plain_char_excludes(6) by (cases h) (auto simp: plain_def)
  moreover have "unescape_host (h @ port_suffix p) = Some (h @ port_suffix p)"
    by (rule unescape_host_id) (use host_port_chars [OF assms] plain_char_excludes(7,10) colon_host in \<open>auto simp: list_all_iff\<close>)
  moreover have "(case split_last (CHR '':'') (h @ port_suffix p) of Some (_, port) \<Rightarrow> list_all is_digit port | None \<Rightarrow> True)"
  proof (cases p)
    case None
    then have "CHR '':'' \<notin> set (h @ port_suffix p)" using assms(1) plain_char_excludes(1) by (auto simp: plain_def port_suffix_def list_all_iff)
    then show ?thesis by (simp add: split_last_none)
  next
    case (Some d)
    with assms(2) have d: "list_all is_digit d" by (simp add: plain_port_def)
    then have "CHR '':'' \<notin> set d" using digit_plain plain_char_excludes(1) by (fastforce simp: list_all_iff)
    with Some d show ?thesis by (simp add: port_suffix_def split_last_append)
  qed
  ultimately show ?thesis by (auto simp: parseHost_def split: option.splits)
qed

lemma splitHostPort_plain:
  assumes "plain h" "plain_port p"
  shows "splitHostPort (h @ port_suffix p) = (h, case p of None \<Rightarrow> [] | Some d \<Rightarrow> d)"
proof -
  have "\<not> HasPrefix h ''[''" using assms(1) plain_char_excludes(6) by (cases h) (auto simp: plain_def HasPrefix_def)
  moreover have "CHR '':'' \<notin> set h" using assms(1) plain_char_excludes(1) by (fastforce simp: plain_def list_all_iff)
  moreover have "CHR '':'' \<notin> set d" if "p = Some d" for d
    using assms(2) that digit_plain plain_char_excludes(1) by (fastforce simp: plain_port_def list_all_iff)
  ultimately show ?thesis using assms(2)
    by (cases p) (auto simp: splitHostPort_def port_suffix_def plain_port_def split_last_none split_last_append)
qed

lemma ctl_free: "list_all plain_char s \<Longrightarrow> \<not> list_ex ctl_byte s"
  using plain_char_excludes(9) by (auto simp: list_all_iff list_ex_iff)

text \<open>A scheme, a host and perhaps a port; and a host without a scheme, with and without a port.\<close>

lemma url_Parse_full:
  assumes "plain_scheme s" "plain h" "plain_port p"
  shows "url_Parse (s @ ''://'' @ h @ port_suffix p) = Some (url_of (ToLower s) [] (h @ port_suffix p))"
proof -
  let ?a = "h @ port_suffix p"
  let ?raw = "s @ CHR '':'' # CHR ''/'' # CHR ''/'' # ?a"
  have s: "list_all plain_char s" "s \<noteq> []" using assms(1) by (auto simp: plain_scheme_def plain_def)
  have no: "c \<notin> set ?a" if "\<not> plain_char c" "c \<noteq> CHR '':''" for c using host_port_chars [OF assms(2,3)] that by blast
  have np: "\<not> plain_char (CHR ''#'')" "\<not> plain_char (CHR ''?'')" "\<not> plain_char (CHR ''/'')" "\<not> plain_char (CHR ''@'')"
    using plain_char_excludes by blast+
  have "CHR ''#'' \<notin> set ?raw" using no np s(1) by (auto simp: list_all_iff)
  then have 1: "before (CHR ''#'') ?raw = ?raw" "after (CHR ''#'') ?raw = []" using before_id after_none by blast+
  have "\<not> ctl_byte c" if "c \<in> set ?a" for c using host_port_chars [OF assms(2,3) that] plain_char_excludes(9) colon_host(2) by blast
  then have 2: "\<not> list_ex ctl_byte ?raw" using ctl_free [OF s(1)] colon_host(2)
    by (auto simp: list_ex_iff) (simp add: ctl_byte_def)
  have 3: "?raw \<noteq> ''*''" using s(2) by (cases s) auto
  have 4: "getScheme ?raw = Some (s, CHR ''/'' # CHR ''/'' # ?a)" by (rule getScheme_plain [OF assms(1)])
  have 5: "before (CHR ''?'') (CHR ''/'' # CHR ''/'' # ?a) = CHR ''/'' # CHR ''/'' # ?a" using no np by (intro before_id) auto
  have 6: "before (CHR ''/'') ?a = ?a" using no np by (intro before_id) auto
  have 7: "parseAuthority ?a = Some ?a" using no np by (simp add: parseAuthority_def split_last_none parseHost_plain [OF assms(2,3)])
  have 8: "ToLower s \<noteq> []" using s(2) by (simp add: ToLower_def)
  have "url_parse ?raw = Some (url_of (ToLower s) [] ?a)"
    unfolding url_parse_def using 2 3 4 5 6 7 8 by (simp add: HasPrefix_def Let_def)
  then show ?thesis using 1 by (simp add: url_Parse_def)
qed

lemma url_Parse_bare:
  assumes "plain h"
  shows "url_Parse h = Some (url_of [] [] [])"
proof -
  have h: "list_all plain_char h" "h \<noteq> []" using assms by (auto simp: plain_def)
  have no: "c \<notin> set h" if "\<not> plain_char c" for c using h that by (auto simp: list_all_iff)
  have np: "\<not> plain_char (CHR ''#'')" "\<not> plain_char (CHR ''?'')" "\<not> plain_char (CHR ''/'')" "\<not> plain_char (CHR '':'')"
    "\<not> plain_char (CHR ''%'')" "\<not> plain_char (CHR ''*'')"
    using plain_char_excludes by blast+
  have "h \<noteq> ''*''" "\<not> HasPrefix h ''/''" using no np h(2) by (cases h; auto simp: HasPrefix_def)+
  then show ?thesis using ctl_free [OF h(1)] no np
    by (simp add: url_Parse_def url_parse_def before_id after_none getScheme_def scheme_from_none [OF h(1)] escapes_ok_id Let_def)
qed

lemma url_Parse_host_port:
  assumes "plain h" "list_all is_digit d"
  shows "url_Parse (h @ CHR '':'' # d) = (if is_alpha (hd h) then Some (url_of (ToLower h) d []) else None)"
proof -
  let ?raw = "h @ CHR '':'' # d"
  have h: "list_all plain_char h" "h \<noteq> []" using assms by (auto simp: plain_def)
  have c: "plain_char x \<or> x = CHR '':''" if "x \<in> set ?raw" for x using that h(1) assms(2) digit_plain by (auto simp: list_all_iff)
  have np: "\<not> plain_char (CHR ''#'')" "\<not> plain_char (CHR ''?'')" "\<not> plain_char (CHR ''/'')" "\<not> plain_char (CHR ''%'')" "\<not> plain_char (CHR ''*'')"
    using plain_char_excludes by blast+
  have 1: "before (CHR ''#'') ?raw = ?raw" "after (CHR ''#'') ?raw = []"
    using c [of "CHR ''#''"] np by (auto intro!: before_id after_none)
  have 2: "\<not> list_ex ctl_byte ?raw" using c plain_char_excludes(9) colon_host(2) by (fastforce simp: list_ex_iff)
  have 3: "?raw \<noteq> ''*''" using h by (cases h) auto
  show ?thesis
  proof (cases "is_alpha (hd h)")
    case True
    then have "getScheme ?raw = Some (h, d)" using assms(1) by (intro getScheme_plain) (simp add: plain_scheme_def)
    moreover have "before (CHR ''?'') d = d" using c [of "CHR ''?''"] np by (intro before_id) auto
    moreover have "\<not> HasPrefix d ''/''" using c [of "CHR ''/''"] np by (cases d) (auto simp: HasPrefix_def)
    moreover have "ToLower h \<noteq> []" using h by (simp add: ToLower_def)
    ultimately show ?thesis using True 1 2 3 by (simp add: url_Parse_def url_parse_def Let_def)
  next
    case False
    then have "scheme_from True ?raw = Some None" using h by (cases h) (auto simp: plain_char_def)
    then have "getScheme ?raw = Some ([], ?raw)" by (simp add: getScheme_def)
    moreover have "before (CHR ''?'') ?raw = ?raw" using c [of "CHR ''?''"] np by (intro before_id) auto
    moreover have "before (CHR ''/'') ?raw = ?raw" using c [of "CHR ''/''"] np by (intro before_id) auto
    moreover have "\<not> HasPrefix ?raw ''/''" using c [of "CHR ''/''"] np h by (cases h) (auto simp: HasPrefix_def)
    ultimately show ?thesis using False 1 2 3 by (simp add: url_Parse_def url_parse_def Let_def)
  qed
qed

lemma ToLower_Cons: "ToLower (c # s) = lower_char c # ToLower s"
  by (simp add: ToLower_def)

lemma lower_alpha: "is_alpha (lower_char c) \<longleftrightarrow> is_alpha c"
  by (auto simp: is_alpha_def lower_char_def Let_def)

lemma lower_other: "\<not> is_alpha c \<Longrightarrow> lower_char c = c"
  by (auto simp: is_alpha_def lower_char_def Let_def)

lemma lower_digit: "is_digit c \<Longrightarrow> lower_char c = c"
  by (auto simp: is_digit_def lower_char_def Let_def)

lemma plain_lower: "plain_char c \<Longrightarrow> plain_char (lower_char c)"
  by (cases "is_alpha c") (auto simp: plain_char_def lower_alpha lower_other)

lemma ToLower_plain [simp]: "plain s \<Longrightarrow> plain (ToLower s)" "plain_scheme s \<Longrightarrow> plain_scheme (ToLower s)"
  using plain_lower by (auto simp: plain_def plain_scheme_def ToLower_def list_all_iff hd_map lower_alpha)

lemma ToLower_digits: "list_all is_digit d \<Longrightarrow> ToLower d = d"
  by (induction d) (simp_all add: ToLower_def lower_digit)

lemma ToLower_port: "plain_port p \<Longrightarrow> ToLower (port_suffix p) = port_suffix p"
  by (auto simp: plain_port_def port_suffix_def ToLower_digits lower_char_def ToLower_def [of "_ # _"] simp flip: ToLower_def
      split: option.splits)

end
