(* ===== verification/Rpc_Service.thy ===== *)
theory Rpc_Service
  imports Rpc_Json "HOL-Library.AList"
begin

text \<open>
  The registry of services (src/util/rpc/service.go): which methods of a registered object
  become callbacks and subscriptions, how they are found by name, and the call of a callback
  with its recovery from panics. Of a Go function \<open>reflect\<close> shows the parameter and result
  types; calling it is a program over the world. Go maps are association lists.
\<close>

section \<open>Functions and callbacks\<close>

text \<open>What a Go function can be given and can return.\<close>

datatype ('c, 'v) goarg = ArgRcvr | ArgCtx 'c | ArgVal 'v

datatype 'v goresult = RNil | RVal 'v | RErr "rpc_error option"

record ('w, 'c, 'v) gofunc =
  fn_In :: "gotype list"
  fn_Out :: "gotype list"
  fn_Call :: "('c, 'v) goarg list \<Rightarrow> ('w, 'v goresult list) prog"

record ('w, 'c, 'v) gomethod =
  m_Name :: string
  m_Exported :: bool
  m_Func :: "('w, 'c, 'v) gofunc"

record ('w, 'c, 'v) receiver =
  type_name :: string
  methods :: "('w, 'c, 'v) gomethod list"

record ('w, 'c, 'v) callback =
  cb_fn :: "('w, 'c, 'v) gofunc"
  cb_rcvr :: bool
  cb_argTypes :: "gotype list"
  cb_hasCtx :: bool
  cb_errPos :: "nat option"
  cb_isSubscribe :: bool

record ('w, 'c, 'v) service =
  svc_name :: string
  svc_callbacks :: "(string \<times> ('w, 'c, 'v) callback) list"
  svc_subscriptions :: "(string \<times> ('w, 'c, 'v) callback) list"

type_synonym ('w, 'c, 'v) serviceRegistry = "(string \<times> ('w, 'c, 'v) service) list"

text \<open>\<open>t.Elem()\<close> as long as \<open>t\<close> is a pointer type.\<close>

fun strip_ptr :: "gotype \<Rightarrow> gotype" where
  "strip_ptr (PtrTo t) = strip_ptr t"
| "strip_ptr t = t"

definition isContextType :: "gotype \<Rightarrow> bool" where
  "isContextType t \<longleftrightarrow> strip_ptr t = ContextType"

definition isErrorType :: "gotype \<Rightarrow> bool" where
  "isErrorType t \<longleftrightarrow> (case strip_ptr t of ErrorType \<Rightarrow> True | NamedType _ implements \<Rightarrow> implements | _ \<Rightarrow> False)"

definition isSubscriptionType :: "gotype \<Rightarrow> bool" where
  "isSubscriptionType t \<longleftrightarrow> strip_ptr t = SubscriptionType"

definition isPubSub :: "('w, 'c, 'v) gofunc \<Rightarrow> bool" where
  "isPubSub methodType \<longleftrightarrow>
     (if length (fn_In methodType) < 2 \<or> length (fn_Out methodType) \<noteq> 2 then False
      else isContextType (fn_In methodType ! 1) \<and> isSubscriptionType (fn_Out methodType ! 0) \<and>
           isErrorType (fn_Out methodType ! 1))"

definition formatName :: "string \<Rightarrow> string" where
  "formatName name = (case name of [] \<Rightarrow> [] | c # cs \<Rightarrow> lower_char c # cs)"

definition makeArgTypes :: "('w, 'c, 'v) callback \<Rightarrow> ('w, 'c, 'v) callback" where
  "makeArgTypes c =
     (let ins = fn_In (cb_fn c);
          firstArg = (if cb_rcvr c then 1 else 0);
          hasCtx = (length ins > firstArg \<and> ins ! firstArg = ContextType) in
      c\<lparr>cb_hasCtx := hasCtx, cb_argTypes := drop (if hasCtx then firstArg + 1 else firstArg) ins\<rparr>)"

definition newCallback :: "bool \<Rightarrow> ('w, 'c, 'v) gofunc \<Rightarrow> ('w, 'c, 'v) callback option" where
  "newCallback receiver fn =
     (let c = makeArgTypes \<lparr>cb_fn = fn, cb_rcvr = receiver, cb_argTypes = [], cb_hasCtx = False, cb_errPos = None,
                cb_isSubscribe = isPubSub fn\<rparr>;
          outs = fn_Out fn in
      if length outs > 2 then None
      else if length outs = 1 \<and> isErrorType (outs ! 0) then Some (c\<lparr>cb_errPos := Some 0\<rparr>)
      else if length outs = 2 then
        (if isErrorType (outs ! 0) \<or> \<not> isErrorType (outs ! 1) then None else Some (c\<lparr>cb_errPos := Some 1\<rparr>))
      else Some c)"

definition add_method :: "('w, 'c, 'v) gomethod \<Rightarrow> (string \<times> ('w, 'c, 'v) callback) list \<Rightarrow> (string \<times> ('w, 'c, 'v) callback) list" where
  "add_method m cbs = (if \<not> m_Exported m then cbs
     else case newCallback True (m_Func m) of None \<Rightarrow> cbs | Some cb \<Rightarrow> AList.update (formatName (m_Name m)) cb cbs)"

definition suitableCallbacks :: "('w, 'c, 'v) receiver \<Rightarrow> (string \<times> ('w, 'c, 'v) callback) list" where
  "suitableCallbacks rcvr = fold add_method (methods rcvr) []"

section \<open>Registration and lookup\<close>

definition add_callback :: "string \<times> ('w, 'c, 'v) callback \<Rightarrow> ('w, 'c, 'v) service \<Rightarrow> ('w, 'c, 'v) service" where
  "add_callback ncb svc =
     (if cb_isSubscribe (snd ncb) then svc\<lparr>svc_subscriptions := AList.update (fst ncb) (snd ncb) (svc_subscriptions svc)\<rparr>
      else svc\<lparr>svc_callbacks := AList.update (fst ncb) (snd ncb) (svc_callbacks svc)\<rparr>)"

definition registerName :: "string \<Rightarrow> ('w, 'c, 'v) receiver \<Rightarrow> ('w, 'c, 'v) serviceRegistry \<Rightarrow>
    rpc_error + ('w, 'c, 'v) serviceRegistry" where
  "registerName name rcvr services =
     (if name = [] then Inl (ErrString (''no service name for type '' @ type_name rcvr))
      else let callbacks = suitableCallbacks rcvr in
        if length callbacks = 0 then
          Inl (ErrString (''service '' @ type_name rcvr @ '' doesn'' @ [CHR 0x27] @ ''t have any suitable methods/subscriptions to expose''))
        else let svc = (case map_of services name of
                 Some svc \<Rightarrow> svc
               | None \<Rightarrow> \<lparr>svc_name = name, svc_callbacks = [], svc_subscriptions = []\<rparr>) in
          Inr (AList.update name (fold add_callback callbacks svc) services))"

text \<open>Both the server and the client register the services of their connections.\<close>

definition Server_RegisterName :: "string \<Rightarrow> ('w, 'c, 'v) receiver \<Rightarrow> ('w, 'c, 'v) serviceRegistry \<Rightarrow>
    rpc_error + ('w, 'c, 'v) serviceRegistry" where
  "Server_RegisterName name rcvr services = registerName name rcvr services"

definition Client_RegisterName :: "string \<Rightarrow> ('w, 'c, 'v) receiver \<Rightarrow> ('w, 'c, 'v) serviceRegistry \<Rightarrow>
    rpc_error + ('w, 'c, 'v) serviceRegistry" where
  "Client_RegisterName name rcvr services = registerName name rcvr services"

definition lookup_callback :: "('w, 'c, 'v) serviceRegistry \<Rightarrow> string \<Rightarrow> ('w, 'c, 'v) callback option" where
  "lookup_callback services method =
     (let elem = SplitN2 method (CHR ''_'') in
      if length elem \<noteq> 2 then None
      else case map_of services (elem ! 0) of None \<Rightarrow> None | Some svc \<Rightarrow> map_of (svc_callbacks svc) (elem ! 1))"

definition lookup_subscription :: "('w, 'c, 'v) serviceRegistry \<Rightarrow> string \<Rightarrow> string \<Rightarrow> ('w, 'c, 'v) callback option" where
  "lookup_subscription services service name =
     (case map_of services service of None \<Rightarrow> None | Some svc \<Rightarrow> map_of (svc_subscriptions svc) name)"

section \<open>Calls\<close>

text \<open>
  The result of a call and its error. A panic of the callback, or of looking at its results,
  is recovered into an error; the log entry it writes is left out.
\<close>

definition call_results :: "('w, 'c, 'v) callback \<Rightarrow> 'v goresult list \<Rightarrow> ('w, 'v goresult \<times> rpc_error option) prog" where
  "call_results c results =
     (if length results = 0 then returnP (RNil, None)
      else case cb_errPos c of
        None \<Rightarrow> returnP (results ! 0, None)
      | Some pos \<Rightarrow>
          if pos \<ge> length results then panicP ''index out of range''
          else case results ! pos of
            RErr (Some err) \<Rightarrow> returnP (RNil, Some err)
          | _ \<Rightarrow> returnP (results ! 0, None))"

definition recoverP :: "('w, 'a) prog \<Rightarrow> (string \<Rightarrow> 'a) \<Rightarrow> ('w, 'a) prog" where
  "recoverP m handle w = (case m w of (Panicked e, w') \<Rightarrow> (Ret (handle e), w') | r \<Rightarrow> r)"

definition callback_call :: "('w, 'c, 'v) callback \<Rightarrow> 'c \<Rightarrow> 'v list \<Rightarrow> ('w, 'v goresult \<times> rpc_error option) prog" where
  "callback_call c ctx args =
     (let fullargs = (if cb_rcvr c then [ArgRcvr] else []) @ (if cb_hasCtx c then [ArgCtx ctx] else []) @ map ArgVal args in
      recoverP (bindP (fn_Call (cb_fn c) fullargs) (call_results c))
        (\<lambda>_. (RNil, Some (ErrString ''method handler crashed''))))"

section \<open>Lemmas\<close>

lemma fold_add_callback:
  "distinct (map fst cbs) \<Longrightarrow>
   map_of (svc_callbacks (fold add_callback cbs svc)) m =
     (case map_of cbs m of Some cb \<Rightarrow> if cb_isSubscribe cb then map_of (svc_callbacks svc) m else Some cb
      | None \<Rightarrow> map_of (svc_callbacks svc) m) \<and>
   map_of (svc_subscriptions (fold add_callback cbs svc)) m =
     (case map_of cbs m of Some cb \<Rightarrow> if cb_isSubscribe cb then Some cb else map_of (svc_subscriptions svc) m
      | None \<Rightarrow> map_of (svc_subscriptions svc) m)"
proof (induction cbs arbitrary: svc)
  case (Cons c cbs)
  then have "map_of cbs (fst c) = None" by (simp add: map_of_eq_None_iff)
  with Cons show ?case
    by (cases c) (auto simp: add_callback_def update_conv split: option.splits)
qed simp

lemma distinct_suitable: "distinct (map fst (suitableCallbacks rcvr))"
proof -
  have "distinct (map fst cbs) \<Longrightarrow> distinct (map fst (fold add_method ms cbs))"
    for ms :: "('a, 'b, 'c) gomethod list" and cbs
    by (induction ms arbitrary: cbs) (simp_all add: add_method_def distinct_update split: option.splits)
  from this [of "[]"] show ?thesis by (simp add: suitableCallbacks_def)
qed

lemma lookup_callback_split:
  "CHR ''_'' \<notin> set ns \<Longrightarrow> lookup_callback services (ns @ CHR ''_'' # m) =
     (case map_of services ns of None \<Rightarrow> None | Some svc \<Rightarrow> map_of (svc_callbacks svc) m)"
  by (simp add: lookup_callback_def SplitN2_append Let_def split: option.split)

lemmas lookup_simps = lookup_callback_split lookup_subscription_def update_conv fold_add_callback [OF distinct_suitable]

section \<open>Properties\<close>

text \<open>C22. Registration and lookup agree: after \<open>registerName\<close> has succeeded, a method of the
  namespace is found as the registered object's callback if it has one of that name that is
  not a subscription, a subscription if it has a subscription of that name, and everything
  else, other namespaces included, is found as before.\<close>

theorem register_lookup:
  assumes "registerName name rcvr services = Inr services'" and "CHR ''_'' \<notin> set ns"
  shows "lookup_callback services' (ns @ ''_'' @ m) =
      (case map_of (suitableCallbacks rcvr) m of
         Some cb \<Rightarrow> if ns = name \<and> \<not> cb_isSubscribe cb then Some cb else lookup_callback services (ns @ ''_'' @ m)
       | None \<Rightarrow> lookup_callback services (ns @ ''_'' @ m)) \<and>
    lookup_subscription services' ns m =
      (case map_of (suitableCallbacks rcvr) m of
         Some cb \<Rightarrow> if ns = name \<and> cb_isSubscribe cb then Some cb else lookup_subscription services ns m
       | None \<Rightarrow> lookup_subscription services ns m)"
proof -
  obtain svc where r: "services' = AList.update name (fold add_callback (suitableCallbacks rcvr) svc) services"
    and svc: "svc = (case map_of services name of Some svc \<Rightarrow> svc
                | None \<Rightarrow> \<lparr>svc_name = name, svc_callbacks = [], svc_subscriptions = []\<rparr>)"
    using assms(1) by (auto simp: registerName_def Let_def split: if_splits)
  show ?thesis
    using assms(2) by (cases "ns = name") (auto simp: r svc lookup_simps split: option.splits)
qed

definition echo_fn :: "(unit, unit, int) gofunc" where
  "echo_fn = \<lparr>fn_In = [NamedType ''*Svc'' False, ContextType, NamedType ''int'' False],
     fn_Out = [NamedType ''int'' False, ErrorType],
     fn_Call = (\<lambda>args. case args of [ArgRcvr, ArgCtx _, ArgVal v] \<Rightarrow> returnP [RVal v, RErr None] | _ \<Rightarrow> panicP ''arguments'')\<rparr>"

definition echo_service :: "(unit, unit, int) receiver" where
  "echo_service = \<lparr>type_name = ''*Svc'', methods = [\<lparr>m_Name = ''Echo'', m_Exported = True, m_Func = echo_fn\<rparr>]\<rparr>"

definition echo_callback :: "(unit, unit, int) callback" where
  "echo_callback = \<lparr>cb_fn = echo_fn, cb_rcvr = True, cb_argTypes = [NamedType ''int'' False], cb_hasCtx = True,
     cb_errPos = Some 1, cb_isSubscribe = False\<rparr>"

lemma echo_newCallback: "newCallback True echo_fn = Some echo_callback"
  by (simp add: newCallback_def makeArgTypes_def echo_callback_def Let_def isPubSub_def isErrorType_def
      isContextType_def isSubscriptionType_def echo_fn_def)

lemma echo_suitable: "suitableCallbacks echo_service = [(''echo'', echo_callback)]"
proof -
  have "formatName ''Echo'' = ''echo''" by code_simp
  then show ?thesis by (simp add: suitableCallbacks_def echo_service_def add_method_def echo_newCallback)
qed

theorem register_lookup_witness:
  "\<exists>services'. registerName ''test'' echo_service [] = Inr services' \<and>
     lookup_callback services' (''test'' @ ''_'' @ ''echo'') = Some echo_callback"
proof -
  obtain services' where r: "registerName ''test'' echo_service [] = Inr services'"
    by (simp add: registerName_def echo_suitable)
  have "\<not> cb_isSubscribe echo_callback" by (simp add: echo_callback_def)
  with register_lookup [OF r, of "''test''" "''echo''"] r show ?thesis by (simp add: echo_suitable)
qed

text \<open>A function is suitable as a callback exactly when it returns nothing, one value, or a value
  that is not an error followed by an error; the position of the error and the number of
  arguments that a call must supply are then determined by its type.\<close>

theorem newCallback_spec:
  "(newCallback rcvr fn \<noteq> None \<longleftrightarrow>
      (case fn_Out fn of [] \<Rightarrow> True | [_] \<Rightarrow> True | [a, b] \<Rightarrow> \<not> isErrorType a \<and> isErrorType b | _ \<Rightarrow> False)) \<and>
   (\<forall>cb. newCallback rcvr fn = Some cb \<longrightarrow>
      cb_fn cb = fn \<and> (cb_errPos cb = Some i \<longrightarrow> isErrorType (fn_Out fn ! i) \<and> Suc i = length (fn_Out fn)) \<and>
      fn_In fn = take (length (fn_In fn) - length (cb_argTypes cb)) (fn_In fn) @ cb_argTypes cb \<and>
      (cb_hasCtx cb \<longrightarrow> fn_In fn ! (if rcvr then 1 else 0) = ContextType))"
proof -
  have d: "xs = take (length xs - (length xs - n)) xs @ drop n xs" for xs :: "gotype list" and n
    by (cases "n \<le> length xs") simp_all
  show ?thesis
    using d [of "fn_In fn"]
    by (auto simp: newCallback_def makeArgTypes_def Let_def split: list.splits if_splits)
qed

theorem newCallback_spec_witness:
  "newCallback True echo_fn = Some echo_callback \<and> cb_errPos echo_callback = Some 1 \<and> isErrorType (fn_Out echo_fn ! 1) \<and>
   fn_In echo_fn ! 1 = ContextType"
proof -
  have e: "cb_errPos echo_callback = Some 1" "cb_hasCtx echo_callback" by (simp_all add: echo_callback_def)
  show ?thesis using newCallback_spec [of True echo_fn 1] echo_newCallback e by auto
qed

text \<open>A crashing method handler never brings the server down: whatever the called function does,
  a call ends in a result or an error (or the end of the process), a panic being turned into
  the error \<open>method handler crashed\<close>; an error that the function returns at its error position
  is passed on.\<close>

theorem callback_call_recovers:
  "(\<nexists>e. fst (callback_call c ctx args w) = Panicked e) \<and>
   (fn_Call (cb_fn c) ((if cb_rcvr c then [ArgRcvr] else []) @ (if cb_hasCtx c then [ArgCtx ctx] else []) @ map ArgVal args) w =
      (Panicked e, w1) \<longrightarrow> callback_call c ctx args w = (Ret (RNil, Some (ErrString ''method handler crashed'')), w1)) \<and>
   (fn_Call (cb_fn c) ((if cb_rcvr c then [ArgRcvr] else []) @ (if cb_hasCtx c then [ArgCtx ctx] else []) @ map ArgVal args) w =
      (Ret (rs @ [RErr (Some err)]), w1) \<longrightarrow> cb_errPos c = Some (length rs) \<longrightarrow>
      callback_call c ctx args w = (Ret (RNil, Some err), w1))"
  by (auto simp: callback_call_def recoverP_def Let_def call_results_def run_simps nth_append
      split: prod.splits outcome.splits)

theorem callback_call_recovers_witness:
  "callback_call echo_callback () [1, 2] () = (Ret (RNil, Some (ErrString ''method handler crashed'')), ())"
  using callback_call_recovers [of echo_callback "()" "[1, 2]" "()" "''arguments''" "()"]
  by (simp add: echo_callback_def echo_fn_def run_simps)

end
