(* ===== verification/Rpc_Handler.thy ===== *)
theory Rpc_Handler
  imports Rpc_Service Rpc_Requests
begin

text \<open>
  The connection handler (src/util/rpc/handler.go): how a message or a batch is classified, how
  a call is resolved, run and answered, and the subscriptions of the server. Its state has the
  client's half (theory \<open>Rpc_Requests\<close>), the connection, the notifiers created by subscription
  calls, the active subscriptions with what was done to their error channels, and the
  application's own state. Callbacks are programs over this state, so a subscription method can
  use its notifier, whose number is the context. The goroutine that serves a call is run to its
  end as one program; how it interleaves with notifications is the subject of the relation
  \<open>server_step\<close> in \<open>Rpc_Subscription\<close>, and with other calls of \<open>calls_step\<close> in \<open>Rpc_Calls\<close>. Logging
  is left out, and the counters are those of \<open>Rpc_Streams\<close>.
\<close>

section \<open>State\<close>

datatype sub_signal = ErrClosed | ErrSent "rpc_error option"

record ('x, 'v) hstate =
  h_requests :: "'v requests"
  h_conn :: conn
  h_notifiers :: "Notifier list"
  h_serverSubs :: "string list"
  h_suberr :: "(string \<times> sub_signal) list"
  h_app :: 'x

text \<open>
  The fixed part: the registry, whether subscriptions are allowed, and the functions of
  \<open>encoding/json\<close> and \<open>reflect\<close> at the types of the application: decoding and zero values of
  arguments, encoding of results, and the two Go values that \<open>unsubscribe\<close> handles.
\<close>

record ('x, 'v) handler =
  h_reg :: "(('x, 'v) hstate, nat option, 'v) serviceRegistry"
  allowSubscribe :: bool
  h_decode :: "gotype \<Rightarrow> json \<Rightarrow> rpc_error + 'v"
  h_zero :: "gotype \<Rightarrow> 'v"
  h_marshal :: "'v goresult \<Rightarrow> rpc_error + json"
  h_id :: "'v \<Rightarrow> string"
  h_bool :: "bool \<Rightarrow> 'v"
  h_sub_unmarshal :: "nat \<Rightarrow> json option \<Rightarrow> rpc_error + 'v"

definition ErrNotificationsUnsupported :: rpc_error where
  "ErrNotificationsUnsupported = ErrString ''notifications not supported''"

definition ErrSubscriptionNotFound :: rpc_error where
  "ErrSubscriptionNotFound = ErrString ''subscription not found''"

definition lift_conn :: "(conn, 'a) prog \<Rightarrow> (('x, 'v) hstate, 'a) prog" where
  "lift_conn m s = (case m (h_conn s) of (out, c) \<Rightarrow> (out, s\<lparr>h_conn := c\<rparr>))"

text \<open>A new handler has no requests, no subscriptions and no notifiers; \<open>app\<close> is the state of the application.\<close>

definition newHandler :: "(nat \<Rightarrow> requestOp) \<Rightarrow> (nat \<Rightarrow> 'v ClientSubscription) \<Rightarrow> conn \<Rightarrow> 'x \<Rightarrow> ('x, 'v) hstate" where
  "newHandler ops subs conn app = \<lparr>h_requests = \<lparr>respWait = [], op_store = ops, clientSubs = [], sub_store = subs\<rparr>, h_conn = conn,
     h_notifiers = [], h_serverSubs = [], h_suberr = [], h_app = app\<rparr>"

text \<open>The context of a callback holds at most the notifier of its subscription.\<close>

definition NotifierFromContext :: "nat option \<Rightarrow> nat option \<times> bool" where
  "NotifierFromContext ctx = (ctx, ctx \<noteq> None)"

section \<open>Calls\<close>

definition unsubscribe :: "string \<Rightarrow> (('x, 'v) hstate, bool \<times> rpc_error option) prog" where
  "unsubscribe subid s =
     (if subid \<notin> set (h_serverSubs s) then (Ret (False, Some ErrSubscriptionNotFound), s)
      else (Ret (True, None), s\<lparr>h_serverSubs := filter (\<lambda>i. i \<noteq> subid) (h_serverSubs s),
              h_suberr := h_suberr s @ [(subid, ErrClosed)]\<rparr>))"

definition unsubscribe_fn :: "('x, 'v) handler \<Rightarrow> (('x, 'v) hstate, nat option, 'v) gofunc" where
  "unsubscribe_fn h = \<lparr>fn_In = [ContextType, NamedType ''rpc.ID'' False], fn_Out = [NamedType ''bool'' False, ErrorType],
     fn_Call = (\<lambda>args. case args of
        [ArgCtx _, ArgVal v] \<Rightarrow> bindP (unsubscribe (h_id h v)) (\<lambda>(ok, err). returnP [RVal (h_bool h ok), RErr err])
      | _ \<Rightarrow> panicP ''reflect: Call'')\<rparr>"

definition unsubscribeCb :: "('x, 'v) handler \<Rightarrow> (('x, 'v) hstate, nat option, 'v) callback option" where
  "unsubscribeCb h = newCallback False (unsubscribe_fn h)"

definition runMethod :: "('x, 'v) handler \<Rightarrow> nat option \<Rightarrow> jsonrpcMessage \<Rightarrow> (('x, 'v) hstate, nat option, 'v) callback \<Rightarrow>
    'v list \<Rightarrow> (('x, 'v) hstate, jsonrpcMessage) prog" where
  "runMethod h ctx msg callb args =
     bindP (callback_call callb ctx args) (\<lambda>(result, err). returnP (case err of
       Some e \<Rightarrow> errorResponse msg e
     | None \<Rightarrow> response (h_marshal h) msg result))"

text \<open>
  The result is the answer and the notifiers of the call so far (\<open>cp.notifiers\<close>). A notifier is
  installed after the arguments have been parsed.
\<close>

definition new_notifier :: "string \<Rightarrow> (('x, 'v) hstate, nat) prog" where
  "new_notifier ns s = (Ret (length (h_notifiers s)), s\<lparr>h_notifiers := h_notifiers s @ [new_Notifier ns]\<rparr>)"

definition handleSubscribe :: "('x, 'v) handler \<Rightarrow> nat list \<Rightarrow> jsonrpcMessage \<Rightarrow> (('x, 'v) hstate, jsonrpcMessage \<times> nat list) prog" where
  "handleSubscribe h cp msg =
     (if \<not> allowSubscribe h then returnP (errorResponse msg ErrNotificationsUnsupported, cp)
      else case parseSubscriptionName (Params msg) of
        Inl err \<Rightarrow> returnP (errorResponse msg (invalidParamsError (Error err)), cp)
      | Inr name \<Rightarrow>
          (case lookup_subscription (h_reg h) (namespace msg) name of
             None \<Rightarrow> returnP (errorResponse msg (subscriptionNotFoundError (namespace msg) name), cp)
           | Some callb \<Rightarrow>
               (case parsePositionalArguments (h_decode h) (h_zero h) (Params msg) (StringType # cb_argTypes callb) of
                  Inl err \<Rightarrow> returnP (errorResponse msg (invalidParamsError (Error err)), cp)
                | Inr args \<Rightarrow>
                    bindP (new_notifier (namespace msg)) (\<lambda>n.
                    bindP (runMethod h (Some n) msg callb (tl args)) (\<lambda>answer.
                    returnP (answer, cp @ [n]))))))"

definition handleCall :: "('x, 'v) handler \<Rightarrow> nat list \<Rightarrow> jsonrpcMessage \<Rightarrow> (('x, 'v) hstate, jsonrpcMessage \<times> nat list) prog" where
  "handleCall h cp msg =
     (if isSubscribe msg then handleSubscribe h cp msg
      else case (if isUnsubscribe msg then unsubscribeCb h else lookup_callback (h_reg h) (Method msg)) of
        None \<Rightarrow> returnP (errorResponse msg (methodNotFoundError (Method msg)), cp)
      | Some callb \<Rightarrow>
          (case parsePositionalArguments (h_decode h) (h_zero h) (Params msg) (cb_argTypes callb) of
             Inl err \<Rightarrow> returnP (errorResponse msg (invalidParamsError (Error err)), cp)
           | Inr args \<Rightarrow> bindP (runMethod h None msg callb args) (\<lambda>answer. returnP (answer, cp))))"

definition handleCallMsg :: "('x, 'v) handler \<Rightarrow> nat list \<Rightarrow> jsonrpcMessage \<Rightarrow>
    (('x, 'v) hstate, jsonrpcMessage option \<times> nat list) prog" where
  "handleCallMsg h cp msg =
     (if isNotification msg then bindP (handleCall h cp msg) (\<lambda>(_, cp'). returnP (None, cp'))
      else if isCall msg then bindP (handleCall h cp msg) (\<lambda>(resp, cp'). returnP (Some resp, cp'))
      else if hasValidID msg then returnP (Some (errorResponse msg (invalidRequestError ''invalid request'')), cp)
      else returnP (Some (errorMessage (invalidRequestError ''invalid request'')), cp))"

section \<open>Messages and batches\<close>

fun addSubscriptions :: "nat list \<Rightarrow> ('x, 'v) hstate \<Rightarrow> ('x, 'v) hstate" where
  "addSubscriptions [] s = s"
| "addSubscriptions (n # nn) s =
     (let (sub, n') = takeSubscription (h_notifiers s ! n);
          s1 = s\<lparr>h_notifiers := (h_notifiers s)[n := n']\<rparr> in
      addSubscriptions nn (case sub of
          None \<Rightarrow> s1
        | Some subid \<Rightarrow> s1\<lparr>h_serverSubs := (if subid \<in> set (h_serverSubs s1) then h_serverSubs s1 else h_serverSubs s1 @ [subid])\<rparr>))"

fun activate_all :: "nat list \<Rightarrow> (('x, 'v) hstate, unit) prog" where
  "activate_all [] = returnP ()"
| "activate_all (n # nn) =
     bindP (\<lambda>s. case activate (h_notifiers s ! n) (h_conn s) of
         (Ret (_, n'), c) \<Rightarrow> (Ret (), s\<lparr>h_notifiers := (h_notifiers s)[n := n'], h_conn := c\<rparr>)
       | (Panicked e, c) \<Rightarrow> (Panicked e, s\<lparr>h_conn := c\<rparr>)
       | (Exited x, c) \<Rightarrow> (Exited x, s\<lparr>h_conn := c\<rparr>)) (\<lambda>_. activate_all nn)"

definition reply :: "wire option \<Rightarrow> nat list \<Rightarrow> (('x, 'v) hstate, unit) prog" where
  "reply answer cp =
     bindP (\<lambda>s. (Ret (), addSubscriptions cp s)) (\<lambda>_.
     bindP (case answer of None \<Rightarrow> returnP () | Some a \<Rightarrow> bindP (lift_conn (write_message a)) (\<lambda>_. returnP ())) (\<lambda>_.
     activate_all cp))"

definition immediate :: "('x, 'v) handler \<Rightarrow> jsonrpcMessage \<Rightarrow> (('x, 'v) hstate, bool) prog" where
  "immediate h msg s = (let (handled, rq) = handleImmediate (h_sub_unmarshal h) msg (h_requests s) in
     (Ret handled, s\<lparr>h_requests := rq\<rparr>))"

definition handleMsg :: "('x, 'v) handler \<Rightarrow> jsonrpcMessage \<Rightarrow> (('x, 'v) hstate, unit) prog" where
  "handleMsg h msg =
     bindP (immediate h msg) (\<lambda>ok. if ok then returnP ()
       else bindP (handleCallMsg h [] msg) (\<lambda>(answer, cp). reply (map_option WMsg answer) cp))"

fun filter_calls :: "('x, 'v) handler \<Rightarrow> jsonrpcMessage list \<Rightarrow> (('x, 'v) hstate, jsonrpcMessage list) prog" where
  "filter_calls h [] = returnP []"
| "filter_calls h (msg # msgs) =
     bindP (immediate h msg) (\<lambda>handled. bindP (filter_calls h msgs) (\<lambda>calls.
       returnP (if handled then calls else msg # calls)))"

fun handle_calls :: "('x, 'v) handler \<Rightarrow> nat list \<Rightarrow> jsonrpcMessage list \<Rightarrow>
    (('x, 'v) hstate, jsonrpcMessage list \<times> nat list) prog" where
  "handle_calls h cp [] = returnP ([], cp)"
| "handle_calls h cp (msg # msgs) =
     bindP (handleCallMsg h cp msg) (\<lambda>(answer, cp1). bindP (handle_calls h cp1 msgs) (\<lambda>(answers, cp2).
       returnP ((case answer of None \<Rightarrow> answers | Some a \<Rightarrow> a # answers), cp2)))"

definition handleBatch :: "('x, 'v) handler \<Rightarrow> jsonrpcMessage list \<Rightarrow> (('x, 'v) hstate, unit) prog" where
  "handleBatch h msgs =
     (if length msgs = 0 then
        bindP (lift_conn (write_message (WMsg (errorMessage (invalidRequestError ''empty batch''))))) (\<lambda>_. returnP ())
      else bindP (filter_calls h msgs) (\<lambda>calls.
        if length calls = 0 then returnP ()
        else bindP (handle_calls h [] calls) (\<lambda>(answers, cp).
          reply (if length answers > 0 then Some (WBatch answers) else None) cp)))"

section \<open>The end of a connection\<close>

definition cancelServerSubscriptions :: "rpc_error option \<Rightarrow> ('x, 'v) hstate \<Rightarrow> ('x, 'v) hstate" where
  "cancelServerSubscriptions err s =
     s\<lparr>h_suberr := h_suberr s @ concat (map (\<lambda>subid. [(subid, ErrSent err), (subid, ErrClosed)]) (h_serverSubs s)),
       h_serverSubs := []\<rparr>"

definition handler_close :: "('x, 'v) handler \<Rightarrow> rpc_error option \<Rightarrow> nat option \<Rightarrow> ('x, 'v) hstate \<Rightarrow> ('x, 'v) hstate" where
  "handler_close h err inflightReq s =
     cancelServerSubscriptions err (s\<lparr>h_requests := cancelAllRequests (h_sub_unmarshal h) err inflightReq (h_requests s)\<rparr>)"

section \<open>Lemmas\<close>

text \<open>A well-formed answer to a message.\<close>

definition answers :: "jsonrpcMessage \<Rightarrow> jsonrpcMessage \<Rightarrow> bool" where
  "answers msg r \<longleftrightarrow> Version r = vsn \<and> Method r = [] \<and> Params r = None \<and> (Result r = None \<longleftrightarrow> MsgError r \<noteq> None) \<and>
     ID r = (if hasValidID msg then ID msg else Some JNull)"

lemma answers_error [simp]: "hasValidID msg \<Longrightarrow> answers msg (errorResponse msg e)"
  "\<not> hasValidID msg \<Longrightarrow> answers msg (errorMessage e)"
  by (simp_all add: answers_def errorResponse_def errorMessage_def zero_message_def)

lemma answers_response [simp]: "hasValidID msg \<Longrightarrow> answers msg (response marshal msg v)"
  by (auto simp: answers_def response_def errorResponse_def errorMessage_def zero_message_def split: sum.splits)

lemma answers_isResponse: "answers msg r \<Longrightarrow> isResponse r"
  by (auto simp: answers_def isResponse_def hasValidID_def split: if_splits)

lemma bindP_RetE:
  assumes "bindP m f w = (Ret y, w')"
  obtains x w1 where "m w = (Ret x, w1)" "f x w1 = (Ret y, w')"
  using assms by (auto simp: bindP_def split: prod.splits outcome.splits)

lemma bindP_PanickedE:
  assumes "bindP m f w = (Panicked e, w')"
  obtains "m w = (Panicked e, w')" | x w1 where "m w = (Ret x, w1)" "f x w1 = (Panicked e, w')"
  using assms by (auto simp: bindP_def split: prod.splits outcome.splits)

lemma callback_call_no_panic: "callback_call c ctx args w \<noteq> (Panicked e, w')"
  by (auto simp: callback_call_def recoverP_def Let_def split: prod.splits outcome.splits)

lemma runMethod_no_panic: "runMethod h ctx msg callb args w \<noteq> (Panicked e, w')"
  unfolding runMethod_def
  by (auto elim!: bindP_PanickedE simp: callback_call_no_panic run_simps split: prod.splits)

lemma runMethod_answers:
  "hasValidID msg \<Longrightarrow> runMethod h ctx msg callb args w = (Ret r, w') \<Longrightarrow> answers msg r"
  unfolding runMethod_def by (auto elim!: bindP_RetE simp: run_simps split: prod.splits option.splits)

lemma handleSubscribe_no_panic: "handleSubscribe h cp msg w \<noteq> (Panicked e, w')"
  unfolding handleSubscribe_def
  by (auto elim!: bindP_PanickedE simp: runMethod_no_panic new_notifier_def run_simps split: sum.splits option.splits)

lemma handleSubscribe_answers:
  "hasValidID msg \<Longrightarrow> handleSubscribe h cp msg w = (Ret (r, cp'), w') \<Longrightarrow> answers msg r"
  unfolding handleSubscribe_def
  by (auto elim!: bindP_RetE simp: run_simps split: sum.splits option.splits if_splits dest: runMethod_answers)

lemma handleCall_no_panic: "handleCall h cp msg w \<noteq> (Panicked e, w')"
  unfolding handleCall_def
  by (auto elim!: bindP_PanickedE simp: runMethod_no_panic handleSubscribe_no_panic run_simps split: sum.splits option.splits)

lemma handleCall_answers:
  "hasValidID msg \<Longrightarrow> handleCall h cp msg w = (Ret (r, cp'), w') \<Longrightarrow> answers msg r"
  unfolding handleCall_def
  by (auto elim!: bindP_RetE simp: run_simps split: sum.splits option.splits if_splits
      dest: runMethod_answers handleSubscribe_answers)

lemma handleCallMsg_no_panic: "handleCallMsg h cp msg w \<noteq> (Panicked e, w')"
  unfolding handleCallMsg_def
  by (auto elim!: bindP_PanickedE simp: handleCall_no_panic run_simps split: prod.splits)

lemma handleCallMsg_answer:
  assumes "handleCallMsg h cp msg w = (Ret (answer, cp'), w')"
  shows "if isNotification msg then answer = None else \<exists>r. answer = Some r \<and> answers msg r"
proof (cases "isNotification msg")
  case True
  with assms show ?thesis by (auto simp: handleCallMsg_def run_simps elim!: bindP_RetE)
next
  case False
  show ?thesis
  proof (cases "isCall msg")
    case True
    then have "hasValidID msg" by (simp add: isCall_def)
    with False True assms show ?thesis
      by (auto simp: handleCallMsg_def run_simps elim!: bindP_RetE dest: handleCall_answers)
  qed (use False assms in \<open>auto simp: handleCallMsg_def run_simps split: if_splits\<close>)
qed

lemma handle_calls_answers:
  "handle_calls h cp msgs w = (Ret (rs, cp'), w') \<Longrightarrow> list_all2 answers (filter (\<lambda>m. \<not> isNotification m) msgs) rs"
proof (induction msgs arbitrary: cp rs w cp' w')
  case Nil
  then show ?case by (simp add: run_simps)
next
  case (Cons msg msgs)
  then obtain answer cp1 w1 rs1 cp2 w2 where 1: "handleCallMsg h cp msg w = (Ret (answer, cp1), w1)"
    and 2: "handle_calls h cp1 msgs w1 = (Ret (rs1, cp2), w2)"
    and rs: "rs = (case answer of None \<Rightarrow> rs1 | Some a \<Rightarrow> a # rs1)"
    by (auto elim!: bindP_RetE simp: run_simps)
  from Cons.IH [OF 2] handleCallMsg_answer [OF 1] rs show ?case by (auto split: if_splits)
qed

lemma filter_calls_result:
  "filter_calls h msgs w = (Ret calls, w') \<Longrightarrow>
   calls = filter (\<lambda>m. \<not> isResponse m \<and> \<not> (isNotification m \<and> HasSuffix (Method m) notificationMethodSuffix)) msgs"
proof (induction msgs arbitrary: w calls w')
  case (Cons m ms)
  have "\<not> (isNotification m \<and> isResponse m)" by (auto simp: isNotification_def isResponse_def)
  with Cons show ?case
    by (auto elim!: bindP_RetE simp: immediate_def handleImmediate_def run_simps Let_def split: if_splits prod.splits)
qed (simp add: run_simps)

text \<open>The callback of all unsubscribe calls.\<close>

lemma unsubscribeCb_eq:
  "unsubscribeCb h = Some \<lparr>cb_fn = unsubscribe_fn h, cb_rcvr = False, cb_argTypes = [NamedType ''rpc.ID'' False],
     cb_hasCtx = True, cb_errPos = Some 1, cb_isSubscribe = False\<rparr>"
  by (simp add: unsubscribeCb_def newCallback_def makeArgTypes_def unsubscribe_fn_def isErrorType_def isPubSub_def
      isContextType_def Let_def)

lemma unsubscribe_conn: "fn_Call (unsubscribe_fn h) args w = (out, w') \<Longrightarrow> h_conn w' = h_conn w"
  by (auto simp: unsubscribe_fn_def unsubscribe_def bindP_def run_simps split: list.splits goarg.splits if_splits)

text \<open>What a function of an application leaves as it is on the connection, the service of a call leaves so too.\<close>

definition fn_keeps :: "(conn \<Rightarrow> 'f) \<Rightarrow> (('x, 'v) hstate, nat option, 'v) callback \<Rightarrow> bool" where
  "fn_keeps f cb \<longleftrightarrow> (\<forall>args w out w'. fn_Call (cb_fn cb) args w = (out, w') \<longrightarrow> f (h_conn w') = f (h_conn w))"

lemma callback_call_keeps:
  assumes "fn_keeps f cb" and "callback_call cb ctx args w = (out, w')"
  shows "f (h_conn w') = f (h_conn w)"
proof -
  have "h_conn w2 = h_conn w1" if "call_results cb rs w1 = (out, w2)" for rs w1 w2 out
    using that by (auto simp: call_results_def run_simps split: if_splits option.splits goresult.splits)
  then show ?thesis using assms
    by (auto simp: fn_keeps_def callback_call_def recoverP_def bindP_def Let_def split: prod.splits outcome.splits)
qed

lemma runMethod_keeps: "fn_keeps f cb \<Longrightarrow> runMethod h ctx msg cb args w = (Ret r, w') \<Longrightarrow> f (h_conn w') = f (h_conn w)"
  by (auto simp: runMethod_def run_simps elim!: bindP_RetE dest: callback_call_keeps split: prod.splits)

definition services_keep :: "(conn \<Rightarrow> 'f) \<Rightarrow> ('x, 'v) handler \<Rightarrow> bool" where
  "services_keep f h \<longleftrightarrow> (\<forall>method cb. lookup_callback (h_reg h) method = Some cb \<longrightarrow> fn_keeps f cb) \<and>
     (\<forall>ns name cb. allowSubscribe h \<longrightarrow> lookup_subscription (h_reg h) ns name = Some cb \<longrightarrow> fn_keeps f cb)"

lemma handleSubscribe_keeps:
  "services_keep f h \<Longrightarrow> handleSubscribe h cp msg w = (Ret (r, cp'), w') \<Longrightarrow>
   f (h_conn w') = f (h_conn w) \<and> (\<not> allowSubscribe h \<longrightarrow> cp' = cp)"
  by (auto simp: handleSubscribe_def services_keep_def new_notifier_def run_simps elim!: bindP_RetE
      dest!: runMethod_keeps [rotated, where f = f] split: if_splits sum.splits option.splits)

lemma handleCall_keeps:
  assumes "services_keep f h" and "handleCall h cp msg w = (Ret (r, cp'), w')"
  shows "f (h_conn w') = f (h_conn w) \<and> (\<not> allowSubscribe h \<longrightarrow> cp' = cp)"
proof (cases "isSubscribe msg")
  case True
  with assms show ?thesis by (simp add: handleCall_def handleSubscribe_keeps)
next
  case False
  let ?cb = "if isUnsubscribe msg then unsubscribeCb h else lookup_callback (h_reg h) (Method msg)"
  have "fn_keeps f cb" if "?cb = Some cb" for cb
    using that assms(1) unsubscribe_conn [of h]
    by (auto simp: services_keep_def unsubscribeCb_eq fn_keeps_def split: if_splits)
  then have "f (h_conn w2) = f (h_conn w1)" if "?cb = Some cb" "runMethod h None msg cb args w1 = (Ret r1, w2)" for cb args w1 w2 r1
    using runMethod_keeps that by blast
  with False assms(2) show ?thesis
    by (auto simp: handleCall_def run_simps elim!: bindP_RetE split: option.splits sum.splits)
qed

lemma handleCallMsg_keeps:
  "services_keep f h \<Longrightarrow> handleCallMsg h cp msg w = (Ret (a, cp'), w') \<Longrightarrow>
   f (h_conn w') = f (h_conn w) \<and> (\<not> allowSubscribe h \<longrightarrow> cp' = cp)"
  by (auto simp: handleCallMsg_def run_simps elim!: bindP_RetE dest: handleCall_keeps split: if_splits)

lemma immediate_conn: "immediate h msg w = (out, w') \<Longrightarrow> h_conn w' = h_conn w"
  by (auto simp: immediate_def Let_def split: prod.splits)

lemma filter_calls_conn: "filter_calls h msgs w = (Ret calls, w') \<Longrightarrow> h_conn w' = h_conn w"
  by (induction msgs arbitrary: w calls) (auto simp: run_simps elim!: bindP_RetE dest: immediate_conn)

lemma calls_not_filtered: "list_all isCall msgs \<Longrightarrow> filter_calls h msgs w = (Ret msgs, w)"
proof (induction msgs arbitrary: w)
  case (Cons m ms)
  then have "\<not> isNotification m" "\<not> isResponse m"
    by (auto simp: isCall_def isNotification_def isResponse_def hasValidID_def split: option.splits)
  then have "immediate h m w = (Ret False, w)" by (simp add: immediate_def handleImmediate_def)
  with Cons show ?case by (simp add: bindP_def run_simps)
qed (simp add: run_simps)

lemma handle_calls_keeps:
  "services_keep f h \<Longrightarrow> handle_calls h cp msgs w = (Ret (rs, cp'), w') \<Longrightarrow> f (h_conn w') = f (h_conn w)"
  by (induction msgs arbitrary: cp w rs) (auto simp: run_simps elim!: bindP_RetE dest!: handleCallMsg_keeps)

lemma batch_served:
  assumes "list_all isCall msgs" and "msgs \<noteq> []" and "services_keep (\<lambda>c. c) h" and "handle_calls h [] msgs w = (Ret (rs, []), w1)"
    and "write_fails (h_conn w) (attempts (h_conn w)) = None"
  shows "\<exists>w2. handleBatch h msgs w = (Ret (), w2) \<and> written (h_conn w2) = written (h_conn w) @ [WBatch rs] \<and> list_all2 answers msgs rs"
proof -
  have "filter (\<lambda>m. \<not> isNotification m) msgs = msgs"
    using assms(1) by (auto simp: filter_id_conv list_all_iff isCall_def isNotification_def hasValidID_def split: option.splits)
  with handle_calls_answers [OF assms(4)] have a: "list_all2 answers msgs rs" by simp
  with assms(2) have "rs \<noteq> []" by auto
  moreover have "h_conn w1 = h_conn w" by (rule handle_calls_keeps [OF assms(3,4)])
  ultimately show ?thesis using assms a calls_not_filtered [OF assms(1), of h w]
    by (simp add: handleBatch_def bindP_def reply_def run_simps lift_conn_def write_message_def)
qed

section \<open>Properties\<close>

text \<open>Every request gets exactly one answer and nothing else does: serving a message never panics,
  whatever the called method does; a notification gets no answer; every other message, valid
  or not, gets one that is itself a well-formed response, with either a result or an error
  and with the message's ID, or the null ID if it has no valid one.\<close>

theorem one_answer_per_request:
  "(\<nexists>e. fst (handleCallMsg h cp msg w) = Panicked e) \<and>
   (handleCallMsg h cp msg w = (Ret (answer, cp'), w') \<longrightarrow>
     (if isNotification msg then answer = None
      else \<exists>r. answer = Some r \<and> isResponse r \<and> (Result r = None \<longleftrightarrow> MsgError r \<noteq> None) \<and>
             ID r = (if hasValidID msg then ID msg else Some JNull)))"
proof -
  have "\<nexists>e. fst (handleCallMsg h cp msg w) = Panicked e"
    using handleCallMsg_no_panic [of h cp msg w] by (cases "handleCallMsg h cp msg w") auto
  moreover have "answers msg r \<Longrightarrow> isResponse r \<and> (Result r = None \<longleftrightarrow> MsgError r \<noteq> None) \<and>
      ID r = (if hasValidID msg then ID msg else Some JNull)" for r
    using answers_isResponse by (auto simp: answers_def)
  ultimately show ?thesis using handleCallMsg_answer [of h cp msg w answer cp' w'] by (auto split: if_splits)
qed

text \<open>A batch is answered by one array with the answers in the order of the requests: its messages
  that are responses or subscription notifications are taken out first, and of the rest every one
  but the notifications has its answer at its place; if there is none, nothing is written.\<close>

theorem batch_answers_in_order:
  assumes "msgs \<noteq> []" and "filter_calls h msgs w = (Ret calls, w1)" and "calls \<noteq> []"
    and "handle_calls h [] calls w1 = (Ret (rs, cp), w2)"
  shows "handleBatch h msgs w = reply (if rs = [] then None else Some (WBatch rs)) cp w2 \<and>
    list_all2 answers (filter (\<lambda>m. \<not> isNotification m \<and> \<not> isResponse m) msgs) rs"
proof
  show "handleBatch h msgs w = reply (if rs = [] then None else Some (WBatch rs)) cp w2"
    using assms by (simp add: handleBatch_def)
  have "filter (\<lambda>m. \<not> isNotification m) calls = filter (\<lambda>m. \<not> isNotification m \<and> \<not> isResponse m) msgs"
    unfolding filter_calls_result [OF assms(2)] by (simp add: conj_commute) (meson)
  with handle_calls_answers [OF assms(4)]
  show "list_all2 answers (filter (\<lambda>m. \<not> isNotification m \<and> \<not> isResponse m) msgs) rs" by simp
qed

text \<open>A handler without services, with integers as values.\<close>

definition test_handler :: "(unit, int) handler" where
  "test_handler = \<lparr>h_reg = [], allowSubscribe = True, h_decode = (\<lambda>_ j. case j of JStr s \<Rightarrow> Inr (int (length s)) | _ \<Rightarrow> Inl (ErrString ''type'')),
     h_zero = (\<lambda>_. 0), h_marshal = (\<lambda>_. Inr (JBool True)), h_id = (\<lambda>v. replicate (nat v) (CHR ''1'')),
     h_bool = (\<lambda>b. if b then 1 else 0), h_sub_unmarshal = (\<lambda>_ _. Inl (ErrString []))\<rparr>"

definition handler_state0 :: "string list \<Rightarrow> (unit, int) hstate" where
  "handler_state0 subs = \<lparr>h_requests = no_requests one_op (\<lambda>_. newClientSubscription),
     h_conn = \<lparr>written = [], attempts = 0, write_fails = \<lambda>_. None\<rparr>, h_notifiers = [], h_serverSubs = subs, h_suberr = [], h_app = ()\<rparr>"

definition call_message :: "string \<Rightarrow> string \<Rightarrow> json list \<Rightarrow> jsonrpcMessage" where
  "call_message n method args = zero_message\<lparr>Version := vsn, ID := Some (JNum n), Method := method, Params := Some (JArr args)\<rparr>"

lemma test_call:
  "n = ''1'' \<or> n = ''2'' \<Longrightarrow> handleCallMsg test_handler cp (call_message n ''foo_bar'' []) s =
     (Ret (Some (errorResponse (call_message n ''foo_bar'' []) (methodNotFoundError ''foo_bar'')), cp), s)"
  by (auto simp: handleCallMsg_def handleCall_def test_handler_def call_message_def isNotification_def isCall_def hasValidID_def
      isSubscribe_def isUnsubscribe_def HasSuffix_def first_byte_def lookup_callback_def SplitN2_def zero_message_def run_simps Let_def)

theorem one_answer_per_request_witness:
  "\<exists>r. handleCallMsg test_handler [] (call_message ''1'' ''foo_bar'' []) (handler_state0 []) = (Ret (Some r, []), handler_state0 []) \<and>
     isResponse r \<and> ID r = Some (JNum ''1'')"
proof -
  let ?m = "call_message ''1'' ''foo_bar'' []"
  let ?r = "errorResponse ?m (methodNotFoundError ''foo_bar'')"
  have v: "\<not> isNotification ?m" "hasValidID ?m" "ID ?m = Some (JNum ''1'')"
    by (simp_all add: isNotification_def hasValidID_def call_message_def first_byte_def)
  from one_answer_per_request [of test_handler "[]" ?m "handler_state0 []" "Some ?r" "[]" "handler_state0 []"]
  show ?thesis by (simp add: test_call v)
qed

theorem batch_answers_in_order_witness:
  "let m = call_message ''1'' ''foo_bar'' []; r = errorResponse m (methodNotFoundError ''foo_bar'') in
     handleBatch test_handler [zero_message, m] (handler_state0 []) =
       reply (Some (WBatch [errorMessage (invalidRequestError ''invalid request''), r])) [] (handler_state0 []) \<and>
     list_all2 answers [zero_message, m] [errorMessage (invalidRequestError ''invalid request''), r]"
proof -
  let ?m = "call_message ''1'' ''foo_bar'' []"
  let ?rs = "[errorMessage (invalidRequestError ''invalid request''), errorResponse ?m (methodNotFoundError ''foo_bar'')]"
  have k: "\<not> isNotification zero_message" "\<not> isResponse zero_message" "\<not> isNotification ?m" "\<not> isResponse ?m"
    by (simp_all add: isNotification_def isResponse_def hasValidID_def call_message_def zero_message_def)
  have f: "filter_calls test_handler [zero_message, ?m] (handler_state0 []) = (Ret [zero_message, ?m], handler_state0 [])"
  proof -
    have "immediate test_handler zero_message s = (Ret False, s)" "immediate test_handler ?m s = (Ret False, s)" for s
      using k by (auto simp: immediate_def handleImmediate_def)
    then show ?thesis by (simp add: bindP_def returnP_def)
  qed
  have z: "handleCallMsg test_handler [] zero_message s = (Ret (Some (errorMessage (invalidRequestError ''invalid request'')), []), s)" for s
    by (simp add: handleCallMsg_def isNotification_def isCall_def hasValidID_def zero_message_def run_simps)
  have c: "handle_calls test_handler [] [zero_message, ?m] (handler_state0 []) = (Ret (?rs, []), handler_state0 [])"
    by (simp add: z test_call run_simps)
  show ?thesis using batch_answers_in_order [OF _ f _ c] by (simp add: k Let_def)
qed

lemma unsubscribe_method: "\<not> HasSuffix (ns @ unsubscribeMethodSuffix) subscribeMethodSuffix"
  by (simp add: HasSuffix_def)

text \<open>An unsubscribe call ends a subscription exactly once: if the subscription is active, the call
  closes its error channel once, removes it and answers true; a further call with the same ID
  changes nothing and answers that the subscription was not found.\<close>

theorem unsubscribe_once:
  assumes "Method msg = ns @ unsubscribeMethodSuffix" and "Params msg = Some (JArr [j])"
    and "h_decode h (NamedType ''rpc.ID'' False) j = Inr v" and "h_id h v \<in> set (h_serverSubs s)"
  shows "\<exists>s'. handleCall h cp msg s = (Ret (response (h_marshal h) msg (RVal (h_bool h True)), cp), s') \<and>
    h_suberr s' = h_suberr s @ [(h_id h v, ErrClosed)] \<and> set (h_serverSubs s') = set (h_serverSubs s) - {h_id h v} \<and>
    handleCall h cp msg s' = (Ret (errorResponse msg ErrSubscriptionNotFound, cp), s')"
proof -
  have m: "\<not> isSubscribe msg" "isUnsubscribe msg"
    using unsubscribe_method by (simp_all add: isSubscribe_def isUnsubscribe_def assms(1))
  have a: "parsePositionalArguments (h_decode h) (h_zero h) (Params msg) [NamedType ''rpc.ID'' False] = Inr [v]"
    by (simp add: assms(2,3) parsePositionalArguments_def argval_IsNil_def)
  have c: "handleCall h cp msg t =
      (case unsubscribe (h_id h v) t of (Ret (ok, err), t') \<Rightarrow>
         (Ret (case err of Some e \<Rightarrow> errorResponse msg e | None \<Rightarrow> response (h_marshal h) msg (RVal (h_bool h ok)), cp), t'))" for t
    by (cases "h_id h v \<in> set (h_serverSubs t)")
      (simp_all add: handleCall_def m unsubscribeCb_eq a runMethod_def callback_call_def unsubscribe_fn_def recoverP_def
        call_results_def unsubscribe_def run_simps)
  let ?s' = "snd (unsubscribe (h_id h v) s)"
  have "h_id h v \<notin> set (h_serverSubs ?s')" by (simp add: unsubscribe_def)
  then show ?thesis using assms(4) by (intro exI [of _ ?s']) (auto simp: c unsubscribe_def)
qed

theorem unsubscribe_once_witness:
  "\<exists>s'. handleCall test_handler [] (call_message ''1'' ''eth_unsubscribe'' [JStr ''abc'']) (handler_state0 [''111'']) =
       (Ret (response (h_marshal test_handler) (call_message ''1'' ''eth_unsubscribe'' [JStr ''abc'']) (RVal 1), []), s') \<and>
     h_suberr s' = [(''111'', ErrClosed)] \<and> h_serverSubs s' = []"
proof -
  have "replicate (nat 3) (CHR ''1'') = ''111''" by (simp add: eval_nat_numeral)
  then show ?thesis
    using unsubscribe_once [of "call_message ''1'' ''eth_unsubscribe'' [JStr ''abc'']" "''eth''" "JStr ''abc''" test_handler 3
        "handler_state0 [''111'']" "[]"]
    by (auto simp: call_message_def test_handler_def handler_state0_def)
qed

end
