(* ===== verification/Rpc_Server.thy ===== *)
theory Rpc_Server
  imports Rpc_Handler
begin

text \<open>
  The rpc server (src/util/rpc/server.go and src/util/rpc/endpoints.go): registration of services,
  the list of modules, the service of a single request as used for HTTP, the start of an endpoint,
  and the service of codecs against \<open>Stop\<close>, as a step relation. What the operating system does
  when a listener is opened is a parameter.
\<close>

section \<open>Services\<close>

definition MetadataApi :: string where "MetadataApi = ''rpc''"

text \<open>The receiver that offers the method \<open>Modules\<close> is an argument; an error is dropped.\<close>

definition NewServer :: "('w, 'c, 'v) receiver \<Rightarrow> ('w, 'c, 'v) serviceRegistry" where
  "NewServer rpcService = (case registerName MetadataApi rpcService [] of Inl _ \<Rightarrow> [] | Inr services \<Rightarrow> services)"

definition Modules :: "('w, 'c, 'v) serviceRegistry \<Rightarrow> (string \<times> string) list" where
  "Modules services = map (\<lambda>(name, _). (name, ''1.0'')) services"

record ('w, 'c, 'v) API =
  api_Namespace :: string
  api_Version :: string
  api_Service :: "('w, 'c, 'v) receiver"
  api_Public :: bool
  api_Authenticated :: bool

fun register_apis :: "('w, 'c, 'v) API list \<Rightarrow> ('w, 'c, 'v) serviceRegistry \<Rightarrow> rpc_error + ('w, 'c, 'v) serviceRegistry" where
  "register_apis [] services = Inr services"
| "register_apis (api # apis) services = (case registerName (api_Namespace api) (api_Service api) services of
     Inl err \<Rightarrow> Inl err
   | Inr services' \<Rightarrow> register_apis apis services')"

text \<open>\<open>ipcListen\<close> gives a listener or an error.\<close>

definition StartIPCEndpoint :: "('w, 'c, 'v) receiver \<Rightarrow> (string \<Rightarrow> rpc_error + 'l) \<Rightarrow> string \<Rightarrow> ('w, 'c, 'v) API list \<Rightarrow>
    rpc_error + 'l \<times> ('w, 'c, 'v) serviceRegistry" where
  "StartIPCEndpoint rpcService ipcListen ipcEndpoint apis =
     (case register_apis apis (NewServer rpcService) of
        Inl err \<Rightarrow> Inl err
      | Inr services \<Rightarrow> (case ipcListen ipcEndpoint of
            Inl err \<Rightarrow> Inl err
          | Inr listener \<Rightarrow> Inr (listener, services)))"

section \<open>Single requests\<close>

definition EOF :: rpc_error where "EOF = ErrString ''EOF''"

text \<open>A deferred call is made however the body ends.\<close>

definition deferP :: "('w \<Rightarrow> 'w) \<Rightarrow> ('w, 'a) prog \<Rightarrow> ('w, 'a) prog" where
  "deferP f m w = (case m w of (out, w') \<Rightarrow> (out, f w'))"

text \<open>\<open>decoded\<close> is what the codec reads.\<close>

definition serveSingleRequest :: "bool \<Rightarrow> ('x, 'v) handler \<Rightarrow> rpc_error + json \<Rightarrow> (('x, 'v) hstate, unit) prog" where
  "serveSingleRequest running h0 decoded =
     (if \<not> running then returnP ()
      else let h = h0\<lparr>allowSubscribe := False\<rparr> in
        deferP (handler_close h (Some EOF) None) (case readBatch decoded of
            Inl err \<Rightarrow>
              if err \<noteq> EOF then bindP (lift_conn (write_message (WMsg (errorMessage (invalidMessageError ''parse error''))))) (\<lambda>_. returnP ())
              else returnP ()
          | Inr (reqs, batch) \<Rightarrow> if batch then handleBatch h reqs else handleMsg h (reqs ! 0)))"

section \<open>Serving codecs and stopping\<close>

text \<open>
  A goroutine in \<open>ServeCodec\<close> has not looked at the flag yet, has found the server running, has
  added its codec to the set and serves until the codec is closed, or has returned.
\<close>

datatype serve_pc = Entering | Checked | Serving | Returned

record server =
  srv_run :: bool
  srv_codecs :: "nat set"
  srv_codec :: "nat \<Rightarrow> jsonCodec"
  srv_pc :: "nat \<Rightarrow> serve_pc"

definition server_init :: "(nat \<Rightarrow> jsonCodec) \<Rightarrow> server" where
  "server_init cs = \<lparr>srv_run = True, srv_codecs = {}, srv_codec = cs, srv_pc = (\<lambda>_. Entering)\<rparr>"

definition close_codec :: "nat \<Rightarrow> server \<Rightarrow> server" where
  "close_codec k s = s\<lparr>srv_codec := (srv_codec s)(k := codec_close (srv_codec s k))\<rparr>"

text \<open>
  The set of codecs is a third-party set: \<open>Each S f\<close> is the list of the elements of \<open>S\<close> that its
  method \<open>Each\<close> visits when the callback answers \<open>f\<close>. As documented, the iteration stops at the
  first element for which the callback answers true. The callback of \<open>Stop\<close> always does.
  The store of the flag and the iteration are one step: whatever another goroutine does between
  them, it can as well do before.
\<close>

type_synonym each = "nat set \<Rightarrow> (nat \<Rightarrow> bool) \<Rightarrow> nat list"

definition each_law :: "each \<Rightarrow> bool" where
  "each_law Each \<longleftrightarrow> (\<forall>S f. finite S \<longrightarrow> distinct (Each S f) \<and> set (Each S f) \<subseteq> S \<and>
     (\<forall>i < length (Each S f) - 1. \<not> f (Each S f ! i)) \<and> (set (Each S f) = S \<or> (Each S f \<noteq> [] \<and> f (last (Each S f)))))"

definition Stop :: "each \<Rightarrow> server \<Rightarrow> server" where
  "Stop Each s = (if srv_run s then fold close_codec (Each (srv_codecs s) (\<lambda>c. True)) (s\<lparr>srv_run := False\<rparr>) else s)"

inductive serve_step :: "each \<Rightarrow> server \<Rightarrow> server \<Rightarrow> bool" for Each where
  s_refuse: "srv_pc s k = Entering \<Longrightarrow> \<not> srv_run s \<Longrightarrow>
     serve_step Each s ((close_codec k s)\<lparr>srv_pc := (srv_pc s)(k := Returned)\<rparr>)"
| s_check: "srv_pc s k = Entering \<Longrightarrow> srv_run s \<Longrightarrow> serve_step Each s (s\<lparr>srv_pc := (srv_pc s)(k := Checked)\<rparr>)"
| s_add: "srv_pc s k = Checked \<Longrightarrow>
     serve_step Each s (s\<lparr>srv_codecs := insert k (srv_codecs s), srv_pc := (srv_pc s)(k := Serving)\<rparr>)"
| s_peer: "srv_pc s k = Serving \<Longrightarrow> serve_step Each s (close_codec k s)"
| s_return: "srv_pc s k = Serving \<Longrightarrow> closed_once (srv_codec s k) \<Longrightarrow>
     serve_step Each s ((close_codec k s)\<lparr>srv_codecs := srv_codecs s - {k}, srv_pc := (srv_pc s)(k := Returned)\<rparr>)"
| s_stop: "serve_step Each s (Stop Each s)"

inductive_cases serve_stepE: "serve_step Each s t"

section \<open>Lemmas\<close>

definition closings :: "jsonCodec \<Rightarrow> nat" where
  "closings c = length (filter (\<lambda>e. e = CloseChClosed) (conn_events c))"

lemmas codec_close_simps [simp] = json_codec.closed_close json_codec.close_idem

definition codec_ok :: "jsonCodec \<Rightarrow> bool" where
  "codec_ok c \<longleftrightarrow> closings c = (if closed_once c then 1 else 0)"

lemma codec_ok_close [simp]: "codec_ok c \<Longrightarrow> codec_ok (codec_close c)"
  by (simp add: codec_ok_def codec_close_def closings_def)

definition serve_inv :: "server \<Rightarrow> bool" where
  "serve_inv s \<longleftrightarrow> (\<forall>k. codec_ok (srv_codec s k) \<and> (k \<in> srv_codecs s \<longleftrightarrow> srv_pc s k = Serving) \<and>
     (srv_pc s k = Returned \<longrightarrow> closed_once (srv_codec s k)))"

lemma fold_close_codec [simp]:
  "srv_run (fold close_codec ks s) = srv_run s" "srv_codecs (fold close_codec ks s) = srv_codecs s"
  "srv_pc (fold close_codec ks s) = srv_pc s"
  by (induction ks arbitrary: s) (simp_all add: close_codec_def)

lemma fold_close_codec_codec:
  "srv_codec (fold close_codec ks s) k = (if k \<in> set ks then codec_close (srv_codec s k) else srv_codec s k)"
  by (induction ks arbitrary: s) (simp_all add: close_codec_def)

lemma serve_inv_step: "serve_inv s \<Longrightarrow> serve_step Each s t \<Longrightarrow> serve_inv t"
  by (erule serve_stepE) (auto simp: serve_inv_def close_codec_def Stop_def fold_close_codec_codec)

interpretation serve_sys: step_system "\<lambda>s. \<exists>ra. s = server_init (\<lambda>k. NewFuncCodec (ra k))" "serve_step Each" serve_inv for Each
proof unfold_locales
  show "serve_inv s" if "\<exists>ra. s = server_init (\<lambda>k. NewFuncCodec (ra k))" for s
    using that by (auto simp: serve_inv_def server_init_def codec_ok_def closings_def NewFuncCodec_def)
qed (rule serve_inv_step)

text \<open>
  The services of an application reach the connection only through a notifier: their functions
  leave the connection and the set of notifiers alone.
\<close>

definition service_local :: "('x, 'v) handler \<Rightarrow> bool" where
  "service_local h \<longleftrightarrow> (\<forall>method cb args w out w'. lookup_callback (h_reg h) method = Some cb \<longrightarrow>
     fn_Call (cb_fn cb) args w = (out, w') \<longrightarrow> h_conn w' = h_conn w)"

lemma service_local_keep: "service_local h \<Longrightarrow> \<not> allowSubscribe h \<Longrightarrow> services_keep (\<lambda>c. c) h"
  unfolding service_local_def services_keep_def fn_keeps_def by blast

lemma handleCallMsg_conn:
  "service_local h \<Longrightarrow> \<not> allowSubscribe h \<Longrightarrow> handleCallMsg h cp msg w = (Ret (a, cp'), w') \<Longrightarrow> cp' = cp \<and> h_conn w' = h_conn w"
  using handleCallMsg_keeps [OF service_local_keep] by blast

lemma handle_calls_conn:
  "service_local h \<Longrightarrow> \<not> allowSubscribe h \<Longrightarrow> handle_calls h cp msgs w = (Ret (rs, cp'), w') \<Longrightarrow> cp' = cp \<and> h_conn w' = h_conn w"
  by (induction msgs arbitrary: cp w rs) (auto simp: run_simps elim!: bindP_RetE dest!: handleCallMsg_conn)

text \<open>At most one message was written.\<close>

definition wrote :: "wire list \<Rightarrow> ('x, 'v) hstate \<Rightarrow> ('x, 'v) hstate \<Rightarrow> bool" where
  "wrote ws s s' \<longleftrightarrow> written (h_conn s') = written (h_conn s) @ ws"

lemma write_wrote: "lift_conn (write_message a) s = (Ret e, s') \<Longrightarrow> wrote (if e = None then [a] else []) s s'"
  by (auto simp: lift_conn_def write_message_def wrote_def split: option.splits prod.splits)

lemma reply_wrote: "reply answer [] s = (Ret (), s') \<Longrightarrow> \<exists>ws. wrote ws s s' \<and> length ws \<le> 1"
  by (auto simp: reply_def run_simps wrote_def elim!: bindP_RetE dest!: write_wrote split: option.splits if_splits)

lemma lift_write_Ret: "\<exists>e s'. lift_conn (write_message a) s = (Ret e, s')"
  by (auto simp: lift_conn_def write_message_def split: option.splits)

lemma handler_close_conn [simp]: "h_conn (handler_close h e i s) = h_conn s"
  by (simp add: handler_close_def cancelServerSubscriptions_def)

lemma deferP_RetE:
  assumes "deferP f m w = (Ret a, w')"
  obtains w1 where "m w = (Ret a, w1)" "w' = f w1"
  using assms by (auto simp: deferP_def split: prod.splits)

lemma handleMsg_wrote:
  assumes "service_local h" "\<not> allowSubscribe h" "handleMsg h msg s = (Ret (), s')"
  shows "\<exists>ws. wrote ws s s' \<and> length ws \<le> 1"
  using assms(3)
  by (auto simp: handleMsg_def wrote_def run_simps elim!: bindP_RetE dest!: reply_wrote handleCallMsg_conn [OF assms(1,2)] immediate_conn
      split: if_splits)

lemma handleBatch_wrote:
  assumes "service_local h" "\<not> allowSubscribe h" "handleBatch h msgs s = (Ret (), s')"
  shows "\<exists>ws. wrote ws s s' \<and> length ws \<le> 1"
  using assms(3)
  by (auto simp: handleBatch_def wrote_def run_simps elim!: bindP_RetE dest!: reply_wrote handle_calls_conn [OF assms(1,2)] filter_calls_conn write_wrote
      split: if_splits)

lemma handleMsg_call:
  assumes "service_local h" "\<not> allowSubscribe h" "isCall msg" "write_fails (h_conn s) (attempts (h_conn s)) = None"
    and "handleMsg h msg s = (Ret (), s')"
  shows "\<exists>r. wrote [WMsg r] s s' \<and> answers msg r"
proof -
  have "\<not> isNotification msg" "\<not> isResponse msg"
    using assms(3) by (auto simp: isCall_def isNotification_def isResponse_def hasValidID_def split: option.splits)
  then have "immediate h msg s = (Ret False, s)" by (auto simp: immediate_def handleImmediate_def)
  with assms(5) obtain answer cp w where c: "handleCallMsg h [] msg s = (Ret (answer, cp), w)"
    and rep: "reply (map_option WMsg answer) cp w = (Ret (), s')"
    by (auto simp: handleMsg_def elim!: bindP_RetE)
  from handleCallMsg_answer [OF c] \<open>\<not> isNotification msg\<close> obtain r where r: "answer = Some r" "answers msg r" by auto
  have "cp = []" "h_conn w = h_conn s" using handleCallMsg_conn [OF assms(1,2) c] by auto
  with assms(4) rep r show ?thesis
    by (auto simp: reply_def run_simps lift_conn_def write_message_def wrote_def)
qed

lemma service_local_allow [simp]: "service_local (h\<lparr>allowSubscribe := b\<rparr>) = service_local h"
  by (simp add: service_local_def)

lemma handler_close_subs [simp]: "h_serverSubs (handler_close h e i s) = []"
  by (simp add: handler_close_def cancelServerSubscriptions_def)

lemma each_lawD:
  assumes "each_law Each" "finite S"
  shows "distinct (Each S f)" "set (Each S f) \<subseteq> S" "\<And>i. Suc i < length (Each S f) \<Longrightarrow> \<not> f (Each S f ! i)"
    "set (Each S f) = S \<or> Each S f \<noteq> [] \<and> f (last (Each S f))"
proof -
  from assms have "distinct (Each S f) \<and> set (Each S f) \<subseteq> S \<and>
     (\<forall>i < length (Each S f) - 1. \<not> f (Each S f ! i)) \<and> (set (Each S f) = S \<or> (Each S f \<noteq> [] \<and> f (last (Each S f))))"
    unfolding each_law_def by blast
  then show "distinct (Each S f)" "set (Each S f) \<subseteq> S" "\<And>i. Suc i < length (Each S f) \<Longrightarrow> \<not> f (Each S f ! i)"
    "set (Each S f) = S \<or> Each S f \<noteq> [] \<and> f (last (Each S f))" by auto
qed

lemma each_law_empty: "each_law Each \<Longrightarrow> Each {} f = []"
  using each_lawD(2) [of Each "{}" f] by simp

lemma each_law_True:
  assumes "each_law Each" "finite S" "S \<noteq> {}"
  shows "\<exists>k \<in> S. Each S (\<lambda>c. True) = [k]"
proof -
  let ?ks = "Each S (\<lambda>c. True)"
  have "\<not> Suc 0 < length ?ks" using each_lawD(3) [OF assms(1,2), where f = "\<lambda>c. True"] by blast
  moreover have "?ks \<noteq> []" using each_lawD(4) [OF assms(1,2), of "\<lambda>c. True"] assms(3) by auto
  ultimately obtain k where "?ks = [k]" by (cases ?ks; cases "tl ?ks") auto
  then show ?thesis using each_lawD(2) [OF assms(1,2), of "\<lambda>c. True"] by auto
qed

lemma registerName_names:
  assumes "registerName name rcvr services = Inr services'"
  shows "fst ` set services' = insert name (fst ` set services)" "name \<noteq> []" "suitableCallbacks rcvr \<noteq> []"
    "distinct (map fst services) \<Longrightarrow> distinct (map fst services')"
proof -
  obtain svc where u: "services' = AList.update name svc services" and "name \<noteq> []" "suitableCallbacks rcvr \<noteq> []"
    using assms by (auto simp: registerName_def Let_def split: if_splits)
  then show "name \<noteq> []" "suitableCallbacks rcvr \<noteq> []" by auto
  show "fst ` set services' = insert name (fst ` set services)" unfolding u dom_update by simp
  show "distinct (map fst services')" if "distinct (map fst services)" unfolding u by (rule distinct_update [OF that])
qed

lemma register_apis_names:
  "register_apis apis services = Inr services' \<Longrightarrow>
   fst ` set services' = fst ` set services \<union> api_Namespace ` set apis \<and>
   (distinct (map fst services) \<longrightarrow> distinct (map fst services'))"
proof (induction apis arbitrary: services)
  case (Cons api apis)
  then obtain s1 where "registerName (api_Namespace api) (api_Service api) services = Inr s1" "register_apis apis s1 = Inr services'"
    by (auto simp: case_sum_Inr_iff)
  with Cons.IH [of s1] registerName_names [of "api_Namespace api" "api_Service api" services s1] show ?case by auto
qed simp

lemma register_apis_error:
  assumes "api \<in> set apis" "api_Namespace api = [] \<or> suitableCallbacks (api_Service api) = []"
  shows "\<exists>err. register_apis apis services = Inl err"
proof (cases "register_apis apis services")
  case (Inr services')
  with assms show ?thesis
  proof (induction apis arbitrary: services)
    case (Cons a apis)
    then show ?case by (auto simp: case_sum_Inr_iff dest: registerName_names(2,3))
  qed simp
qed simp

section \<open>Properties\<close>

text \<open>A request over HTTP is answered at most once: whatever the body of the request is, serving it
  writes at most one message, and afterwards no subscription is active; a body that is one call
  is answered by exactly one response with the ID of the call; a body that cannot be decoded, other
  than an empty one, by a parse error; and a server that is stopped writes nothing.\<close>

theorem single_request_one_reply:
  assumes "service_local h" and "serveSingleRequest running h decoded s = (Ret (), s')"
  shows "(\<exists>ws. written (h_conn s') = written (h_conn s) @ ws \<and> length ws \<le> 1) \<and>
    (running \<longrightarrow> h_serverSubs s' = []) \<and> (\<not> running \<longrightarrow> s' = s) \<and>
    (running \<and> readBatch decoded = Inr ([msg], False) \<and> isCall msg \<and> write_fails (h_conn s) (attempts (h_conn s)) = None \<longrightarrow>
       (\<exists>r. written (h_conn s') = written (h_conn s) @ [WMsg r] \<and> answers msg r)) \<and>
    (running \<and> decoded = Inl err \<and> err \<noteq> EOF \<and> write_fails (h_conn s) (attempts (h_conn s)) = None \<longrightarrow>
       written (h_conn s') = written (h_conn s) @ [WMsg (errorMessage (invalidMessageError ''parse error''))])"
proof (cases running)
  case False
  with assms(2) show ?thesis by (auto simp: serveSingleRequest_def run_simps intro: exI [of _ "[]"])
next
  case True
  let ?h = "h\<lparr>allowSubscribe := False\<rparr>"
  have l: "service_local ?h" using assms(1) by simp
  show ?thesis
  proof (cases "readBatch decoded")
    case (Inl e)
    then have "decoded = Inl e" by (auto simp: readBatch_def split: sum.splits prod.splits)
    with True Inl assms(2) show ?thesis
      by (auto simp: serveSingleRequest_def run_simps elim!: deferP_RetE bindP_RetE
          simp: lift_conn_def write_message_def split: if_splits option.splits)
  next
    case (Inr rb)
    obtain reqs batch where rb: "rb = (reqs, batch)" by fastforce
    from True Inr rb assms(2) obtain s1 where s1: "(if batch then handleBatch ?h reqs else handleMsg ?h (reqs ! 0)) s = (Ret (), s1)"
      and s': "s' = handler_close ?h (Some EOF) None s1"
      by (auto simp: serveSingleRequest_def Let_def elim!: deferP_RetE)
    have "\<exists>ws. wrote ws s s1 \<and> length ws \<le> 1"
      using s1 handleBatch_wrote [OF l] handleMsg_wrote [OF l] by (cases batch) auto
    moreover have "\<exists>r. wrote [WMsg r] s s1 \<and> answers msg r"
      if "rb = ([msg], False)" "isCall msg" "write_fails (h_conn s) (attempts (h_conn s)) = None"
      using handleMsg_call [OF l _ that(2,3), of s1] s1 rb that(1) by auto
    moreover have "decoded \<noteq> Inl err" using Inr by (auto simp: readBatch_def)
    ultimately show ?thesis using True Inr by (auto simp: s' wrote_def)
  qed
qed

theorem single_request_one_reply_witness:
  "\<exists>r. written (h_conn (snd (serveSingleRequest True test_handler
       (Inr (JObj [(''jsonrpc'', JStr ''2.0''), (''id'', JNum ''1''), (''method'', JStr ''foo_bar'')])) (handler_state0 [])))) = [WMsg r] \<and>
     ID r = Some (JNum ''1'')"
proof -
  let ?j = "JObj [(''jsonrpc'', JStr ''2.0''), (''id'', JNum ''1''), (''method'', JStr ''foo_bar'')]"
  let ?m = "zero_message\<lparr>Version := ''2.0'', ID := Some (JNum ''1''), Method := ''foo_bar''\<rparr>"
  have d: "readBatch (Inr ?j) = Inr ([?m], False)"
    by code_simp
  have c: "isCall ?m" by (simp add: isCall_def hasValidID_def first_byte_def)
  have l: "service_local test_handler" by (auto simp: service_local_def test_handler_def lookup_callback_def Let_def split: if_splits)
  let ?out = "serveSingleRequest True test_handler (Inr ?j) (handler_state0 [])"
  have k: "\<not> isNotification ?m" "\<not> isResponse ?m" by (simp_all add: isNotification_def isResponse_def zero_message_def)
  have im: "immediate h ?m s = (Ret False, s)" for h :: "(unit, int) handler" and s
    using k by (auto simp: immediate_def handleImmediate_def)
  have hc: "handleCallMsg (test_handler\<lparr>allowSubscribe := False\<rparr>) [] ?m s = (Ret (Some (errorResponse ?m (methodNotFoundError ''foo_bar'')), []), s)" for s
    by (simp add: handleCallMsg_def k c handleCall_def test_handler_def isSubscribe_def isUnsubscribe_def HasSuffix_def
        lookup_callback_def SplitN2_def run_simps Let_def)
  have "fst ?out = Ret ()"
    by (simp add: serveSingleRequest_def d Let_def deferP_def handleMsg_def bindP_def im hc run_simps reply_def lift_conn_def write_message_def handler_state0_def)
  then have "?out = (Ret (), snd ?out)" by (cases ?out) simp
  from single_request_one_reply [OF l this, of ?m EOF] d c show ?thesis
    by (auto simp: handler_state0_def answers_def hasValidID_def first_byte_def)
qed

text \<open>C21. Serving connections: in every reachable state the channel of a codec has been closed at
  most once, whoever closes it (the peer, \<open>Stop\<close>, or the goroutine that serves it); exactly
  the codecs being served are in the server's set; and when \<open>ServeCodec\<close> has returned, its codec
  is closed. This does not depend on how the set is iterated.\<close>

theorem codecs_closed_once:
  assumes "(serve_step Each)\<^sup>*\<^sup>* (server_init (\<lambda>k. NewFuncCodec (ra k))) s"
  shows "closings (srv_codec s k) \<le> 1 \<and> (k \<in> srv_codecs s \<longleftrightarrow> srv_pc s k = Serving) \<and>
    (srv_pc s k = Returned \<longrightarrow> closings (srv_codec s k) = 1)"
proof -
  have "serve_inv s" by (rule serve_sys.inv_reachable [OF _ assms]) blast
  then show ?thesis by (auto simp: serve_inv_def codec_ok_def)
qed

text \<open>C25. \<open>Stop\<close> does not close all connections: of the codecs in the server's set it closes exactly
  one, because its callback answers true, which ends the iteration over the set; the others stay
  as they are, and every further \<open>Stop\<close> does nothing.\<close>

theorem Stop_closes_one_codec:
  assumes "each_law Each" and "finite (srv_codecs s)" and "srv_codecs s \<noteq> {}" and "srv_run s"
  shows "(\<exists>k \<in> srv_codecs s. srv_codec (Stop Each s) = (srv_codec s)(k := codec_close (srv_codec s k))) \<and>
    srv_codecs (Stop Each s) = srv_codecs s \<and> Stop Each (Stop Each s) = Stop Each s"
proof -
  obtain k where k: "Each (srv_codecs s) (\<lambda>c. True) = [k]" "k \<in> srv_codecs s"
    using each_law_True [OF assms(1-3)] by blast
  then show ?thesis using assms(4)
    by (auto simp: Stop_def close_codec_def fun_eq_iff)
qed

text \<open>The iteration in increasing order is one that the documentation allows.\<close>

fun visit :: "(nat \<Rightarrow> bool) \<Rightarrow> nat list \<Rightarrow> nat list" where
  "visit f [] = []"
| "visit f (k # ks) = k # (if f k then [] else visit f ks)"

definition each_sorted :: each where
  "each_sorted S f = visit f (sorted_list_of_set S)"

lemma visit_subset: "set (visit f ks) \<subseteq> set ks"
  by (induction ks) auto

lemma visit_distinct: "distinct ks \<Longrightarrow> distinct (visit f ks)"
  using visit_subset by (induction ks) fastforce+

lemma visit_stops: "Suc i < length (visit f ks) \<Longrightarrow> \<not> f (visit f ks ! i)"
  by (induction ks arbitrary: i) (auto simp: nth_Cons split: nat.splits if_splits)

lemma visit_all: "set (visit f ks) = set ks \<or> visit f ks \<noteq> [] \<and> f (last (visit f ks))"
  by (induction ks) auto

lemma each_sorted_law: "each_law each_sorted"
  unfolding each_law_def each_sorted_def
proof (intro allI impI conjI)
  fix S :: "nat set" and f
  assume S: "finite S"
  let ?ks = "sorted_list_of_set S"
  show "distinct (visit f ?ks)" by (simp add: visit_distinct)
  show "set (visit f ?ks) \<subseteq> S" using visit_subset [of f ?ks] S by simp
  show "\<not> f (visit f ?ks ! i)" if "i < length (visit f ?ks) - 1" for i using that by (simp add: visit_stops)
  show "set (visit f ?ks) = S \<or> visit f ?ks \<noteq> [] \<and> f (last (visit f ?ks))" using visit_all [of f ?ks] S by simp
qed

theorem Stop_closes_one_codec_witness:
  "let s = \<lparr>srv_run = True, srv_codecs = {1, 2}, srv_codec = \<lambda>_. NewFuncCodec None, srv_pc = \<lambda>_. Serving\<rparr> in
     \<exists>k \<in> {1, 2}. \<not> closed_once (srv_codec (Stop each_sorted s) k)"
proof -
  let ?s = "\<lparr>srv_run = True, srv_codecs = {1, 2}, srv_codec = \<lambda>_. NewFuncCodec None, srv_pc = \<lambda>_. Serving\<rparr>"
  from Stop_closes_one_codec [OF each_sorted_law, of ?s] obtain k
    where "srv_codec (Stop each_sorted ?s) = (srv_codec ?s)(k := codec_close (srv_codec ?s k))" by auto
  then show ?thesis by (cases "k = 1") (simp_all add: NewFuncCodec_def)
qed

theorem codecs_closed_once_witness:
  "\<exists>s. (serve_step each_sorted)\<^sup>*\<^sup>* (server_init (\<lambda>k. NewFuncCodec None)) s \<and> srv_pc s 0 = Returned \<and> closings (srv_codec s 0) = 1"
proof -
  let ?i = "server_init (\<lambda>k. NewFuncCodec None)"
  let ?c = "?i\<lparr>srv_pc := (srv_pc ?i)(0 := Checked)\<rparr>"
  let ?a = "?c\<lparr>srv_codecs := insert 0 (srv_codecs ?c), srv_pc := (srv_pc ?c)(0 := Serving)\<rparr>"
  let ?p = "Stop each_sorted ?a"
  let ?r = "(close_codec 0 ?p)\<lparr>srv_codecs := srv_codecs ?p - {0}, srv_pc := (srv_pc ?p)(0 := Returned)\<rparr>"
  have "serve_step each_sorted ?i ?c" by (rule s_check) (simp_all add: server_init_def)
  moreover have "serve_step each_sorted ?c ?a" by (rule s_add) simp
  moreover have "serve_step each_sorted ?a ?p" by (rule s_stop)
  moreover have "serve_step each_sorted ?p ?r"
    by (rule s_return) (simp_all add: Stop_def each_sorted_def close_codec_def server_init_def)
  ultimately have "(serve_step each_sorted)\<^sup>*\<^sup>* ?i ?r" by (meson converse_rtranclp_into_rtranclp rtranclp.rtrancl_refl)
  then show ?thesis using codecs_closed_once [of each_sorted "\<lambda>k. None" ?r 0] by (intro exI [of _ ?r]) simp
qed

text \<open>\<open>Stop\<close> can miss a connection that is just being accepted: \<open>ServeCodec\<close> looks at the
  flag before it adds its codec to the set, so in some run the server has been stopped and a
  codec is served all the same, open, with nothing left that would close it but its peer.\<close>

theorem served_after_Stop:
  assumes "each_law Each"
  shows "\<exists>s. (serve_step Each)\<^sup>*\<^sup>* (server_init (\<lambda>k. NewFuncCodec None)) s \<and>
    \<not> srv_run s \<and> srv_pc s 0 = Serving \<and> closings (srv_codec s 0) = 0 \<and> Stop Each s = s"
proof -
  let ?i = "server_init (\<lambda>k. NewFuncCodec None)"
  let ?c = "?i\<lparr>srv_pc := (srv_pc ?i)(0 := Checked)\<rparr>"
  let ?t = "?c\<lparr>srv_run := False\<rparr>"
  let ?s = "?t\<lparr>srv_codecs := insert 0 (srv_codecs ?t), srv_pc := (srv_pc ?t)(0 := Serving)\<rparr>"
  have "serve_step Each ?i ?c" by (rule s_check) (simp_all add: server_init_def)
  moreover have "serve_step Each ?c ?t"
    using s_stop [of Each ?c] by (simp add: Stop_def server_init_def each_law_empty [OF assms])
  moreover have "serve_step Each ?t ?s" by (rule s_add) simp
  ultimately have "(serve_step Each)\<^sup>*\<^sup>* ?i ?s" by (meson converse_rtranclp_into_rtranclp rtranclp.rtrancl_refl)
  then show ?thesis
    by (intro exI [of _ ?s]) (simp add: Stop_def server_init_def closings_def NewFuncCodec_def)
qed

theorem served_after_Stop_witness:
  "\<exists>s. (serve_step each_sorted)\<^sup>*\<^sup>* (server_init (\<lambda>k. NewFuncCodec None)) s \<and> \<not> srv_run s \<and> srv_pc s 0 = Serving"
  using served_after_Stop [OF each_sorted_law] by blast

text \<open>An endpoint offers what was registered: if its start succeeds, the list of modules has every
  namespace given once, and the module \<open>rpc\<close> of the server itself, all with version 1.0; if some
  service has no namespace or no suitable method, the start fails and no listener is opened,
  whatever the operating system would say.\<close>

theorem StartIPCEndpoint_modules:
  assumes "suitableCallbacks rpcService \<noteq> []"
  shows "(StartIPCEndpoint rpcService ipcListen endpoint apis = Inr (l, services) \<longrightarrow>
      set (Modules services) = (\<lambda>name. (name, ''1.0'')) ` insert ''rpc'' (api_Namespace ` set apis) \<and> distinct (map fst (Modules services))) \<and>
    (api \<in> set apis \<and> (api_Namespace api = [] \<or> suitableCallbacks (api_Service api) = []) \<longrightarrow>
      (\<exists>err. \<forall>listen. StartIPCEndpoint rpcService listen endpoint apis = (Inl err :: rpc_error + 'l \<times> _)))"
proof -
  have m: "map fst (Modules services) = map fst services" "set (Modules services) = (\<lambda>name. (name, ''1.0'')) ` fst ` set services"
    for services :: "('a, 'b, 'c) serviceRegistry" by (simp_all add: Modules_def image_image split_def)
  obtain s0 where s0: "registerName MetadataApi rpcService [] = Inr s0" using assms by (auto simp: registerName_def MetadataApi_def)
  then have n: "NewServer rpcService = s0" "fst ` set s0 = {''rpc''}" "distinct (map fst s0)"
    using registerName_names [OF s0] by (auto simp: NewServer_def MetadataApi_def)
  have "set (Modules services) = (\<lambda>name. (name, ''1.0'')) ` insert ''rpc'' (api_Namespace ` set apis) \<and> distinct (map fst (Modules services))"
    if "StartIPCEndpoint rpcService ipcListen endpoint apis = Inr (l, services)"
  proof -
    have "register_apis apis s0 = Inr services" using that n(1) by (auto simp: StartIPCEndpoint_def split: sum.splits)
    from register_apis_names [OF this] n(2,3) have "fst ` set services = insert ''rpc'' (api_Namespace ` set apis)" "distinct (map fst services)"
      by simp_all
    then show ?thesis unfolding m by simp
  qed
  moreover have "\<exists>err. \<forall>listen. StartIPCEndpoint rpcService listen endpoint apis = (Inl err :: rpc_error + 'l \<times> _)"
    if "api \<in> set apis" "api_Namespace api = [] \<or> suitableCallbacks (api_Service api) = []"
    using register_apis_error [OF that, of s0] n(1) by (auto simp: StartIPCEndpoint_def)
  ultimately show ?thesis by blast
qed

theorem StartIPCEndpoint_modules_witness:
  "\<exists>services. StartIPCEndpoint echo_service Inr ''/tmp/x'' [\<lparr>api_Namespace = ''eth'', api_Version = ''1.0'', api_Service = echo_service, api_Public = True, api_Authenticated = False\<rparr>] = Inr (''/tmp/x'', services) \<and>
     set (Modules services) = {(''rpc'', ''1.0''), (''eth'', ''1.0'')}"
proof -
  let ?r = "StartIPCEndpoint echo_service Inr ''/tmp/x'' [\<lparr>api_Namespace = ''eth'', api_Version = ''1.0'', api_Service = echo_service, api_Public = True, api_Authenticated = False\<rparr>]"
  have c: "suitableCallbacks echo_service \<noteq> []" by (simp add: echo_suitable)
  obtain s0 where "NewServer echo_service = s0" by blast
  moreover obtain services where "registerName ''eth'' echo_service s0 = Inr services" by (simp add: registerName_def echo_suitable Let_def)
  ultimately have s: "?r = Inr (''/tmp/x'', services)" by (simp add: StartIPCEndpoint_def)
  from conjunct1 [OF StartIPCEndpoint_modules [OF c, of Inr "''/tmp/x''" "[\<lparr>api_Namespace = ''eth'', api_Version = ''1.0'', api_Service = echo_service, api_Public = True, api_Authenticated = False\<rparr>]" "''/tmp/x''" services]] s
  have "set (Modules services) = {(''rpc'', ''1.0''), (''eth'', ''1.0'')}" by simp
  with s show ?thesis by blast
qed

end
