(* ===== verification/Go_Json.thy ===== *)
theory Go_Json
  imports Go_Text
begin

text \<open>
  The scanner of Go's package \<open>encoding/json\<close>: the first JSON value of a text and what comes after
  it, as a decoder reads it from a stream. Numbers are kept as text, strings are decoded with
  their escapes and surrogate pairs, and values may be nested 10000 deep. Bytes above 127 in a
  string are taken as they are. The first argument of the mutually recursive functions is fuel;
  twice the length of the text is enough for every text (\<open>fuel_enough\<close>).
\<close>

section \<open>Scanning\<close>

definition json_space :: "char \<Rightarrow> bool" where
  "json_space c \<longleftrightarrow> c = CHR '' '' \<or> c = CHR 0x09 \<or> c = CHR 0x0A \<or> c = CHR 0x0D"

definition skip_space :: "string \<Rightarrow> string" where
  "skip_space s = dropWhile json_space s"

text \<open>Numbers: an integer without leading zeros, a fraction and an exponent.\<close>

definition scan_digits :: "string \<Rightarrow> (string \<times> string) option" where
  "scan_digits s = (if takeWhile is_digit s = [] then None else Some (takeWhile is_digit s, dropWhile is_digit s))"

definition scan_int :: "string \<Rightarrow> (string \<times> string) option" where
  "scan_int s = (case s of c # cs \<Rightarrow> if c = CHR ''0'' then Some (''0'', cs) else scan_digits s | [] \<Rightarrow> None)"

definition scan_frac :: "string \<Rightarrow> (string \<times> string) option" where
  "scan_frac s = (case s of
     c # cs \<Rightarrow> if c = CHR ''.'' then map_option (apfst ((#) c)) (scan_digits cs) else Some ([], s)
   | [] \<Rightarrow> Some ([], s))"

definition scan_exp :: "string \<Rightarrow> (string \<times> string) option" where
  "scan_exp s = (case s of
     c # cs \<Rightarrow>
       if c = CHR ''e'' \<or> c = CHR ''E'' then
         (case cs of
            d # ds \<Rightarrow> if d = CHR ''+'' \<or> d = CHR ''-'' then map_option (apfst (\<lambda>x. c # d # x)) (scan_digits ds)
                     else map_option (apfst ((#) c)) (scan_digits cs)
          | [] \<Rightarrow> None)
       else Some ([], s)
   | [] \<Rightarrow> Some ([], s))"

definition scan_unsigned :: "string \<Rightarrow> (string \<times> string) option" where
  "scan_unsigned s = (case scan_int s of
     None \<Rightarrow> None
   | Some (i, s1) \<Rightarrow> (case scan_frac s1 of
         None \<Rightarrow> None
       | Some (f, s2) \<Rightarrow> (case scan_exp s2 of
             None \<Rightarrow> None
           | Some (e, s3) \<Rightarrow> Some (i @ f @ e, s3))))"

definition scan_number :: "string \<Rightarrow> (string \<times> string) option" where
  "scan_number s = (case s of
     c # cs \<Rightarrow> if c = CHR ''-'' then map_option (apfst ((#) c)) (scan_unsigned cs) else scan_unsigned s
   | [] \<Rightarrow> None)"

text \<open>Strings: the UTF-8 bytes of a code point, and the escapes. A lone surrogate gives U+FFFD.\<close>

definition utf8 :: "nat \<Rightarrow> string" where
  "utf8 n = map char_of
     (if n < 128 then [n]
      else if n < 2048 then [192 + n div 64, 128 + n mod 64]
      else if n < 65536 then [224 + n div 4096, 128 + n div 64 mod 64, 128 + n mod 64]
      else [240 + n div 262144, 128 + n div 4096 mod 64, 128 + n div 64 mod 64, 128 + n mod 64])"

definition hex_num :: "char \<Rightarrow> nat option" where
  "hex_num c = (let n = of_char c :: nat in
     if 48 \<le> n \<and> n \<le> 57 then Some (n - 48) else if 65 \<le> n \<and> n \<le> 70 then Some (n - 55)
     else if 97 \<le> n \<and> n \<le> 102 then Some (n - 87) else None)"

fun hex4 :: "string \<Rightarrow> (nat \<times> string) option" where
  "hex4 (a # b # c # d # rest) = (case (hex_num a, hex_num b, hex_num c, hex_num d) of
     (Some w, Some x, Some y, Some z) \<Rightarrow> Some (4096 * w + 256 * x + 16 * y + z, rest)
   | _ \<Rightarrow> None)"
| "hex4 _ = None"

text \<open>The decoded code point after \<open>\u\<close> and the rest; a high surrogate takes a second escape with it.\<close>

definition low_surrogate :: "string \<Rightarrow> (nat \<times> string) option" where
  "low_surrogate s = (case s of
     a # b # rest \<Rightarrow>
       if a = CHR 0x5C \<and> b = CHR ''u'' then
         (case hex4 rest of Some (n, r) \<Rightarrow> if 56320 \<le> n \<and> n < 57344 then Some (n, r) else None | None \<Rightarrow> None)
       else None
   | _ \<Rightarrow> None)"

definition scan_u :: "string \<Rightarrow> (nat \<times> string) option" where
  "scan_u s = (case hex4 s of
     None \<Rightarrow> None
   | Some (n, r) \<Rightarrow>
       if n < 55296 \<or> 57344 \<le> n then Some (n, r)
       else if n < 56320 then
         (case low_surrogate r of
            Some (m, r') \<Rightarrow> Some (65536 + (n - 55296) * 1024 + (m - 56320), r')
          | None \<Rightarrow> Some (65533, r))
       else Some (65533, r))"

definition simple_escape :: "char \<Rightarrow> char option" where
  "simple_escape c =
     (if c = CHR 0x22 \<or> c = CHR 0x5C \<or> c = CHR ''/'' then Some c
      else if c = CHR ''b'' then Some (CHR 0x08) else if c = CHR ''f'' then Some (CHR 0x0C)
      else if c = CHR ''n'' then Some (CHR 0x0A) else if c = CHR ''r'' then Some (CHR 0x0D)
      else if c = CHR ''t'' then Some (CHR 0x09) else None)"

text \<open>The rest of a string after its opening quote; the number is fuel.\<close>

fun scan_string :: "nat \<Rightarrow> string \<Rightarrow> (string \<times> string) option" where
  "scan_string (Suc n) (c # cs) =
     (if c = CHR 0x22 then Some ([], cs)
      else if c = CHR 0x5C then
        (case cs of
           [] \<Rightarrow> None
         | e # es \<Rightarrow>
             if e = CHR ''u'' then (case scan_u es of
                 None \<Rightarrow> None
               | Some (u, r) \<Rightarrow> map_option (apfst ((@) (utf8 u))) (scan_string n r))
             else (case simple_escape e of
                 None \<Rightarrow> None
               | Some x \<Rightarrow> map_option (apfst ((#) x)) (scan_string n es)))
      else if (of_char c :: nat) < 32 then None
      else map_option (apfst ((#) c)) (scan_string n cs))"
| "scan_string _ _ = None"

definition parse_string :: "string \<Rightarrow> (string \<times> string) option" where
  "parse_string s = scan_string (length s) s"

section \<open>Values\<close>

definition strip_prefix :: "string \<Rightarrow> string \<Rightarrow> string option" where
  "strip_prefix p s = (if take (length p) s = p then Some (drop (length p) s) else None)"

definition scan_atom :: "string \<Rightarrow> (json \<times> string) option" where
  "scan_atom s = (case s of
     [] \<Rightarrow> None
   | c # cs \<Rightarrow>
       if c = CHR 0x22 then map_option (apfst JStr) (parse_string cs)
       else if c = CHR ''n'' then map_option (Pair JNull) (strip_prefix ''null'' s)
       else if c = CHR ''t'' then map_option (Pair (JBool True)) (strip_prefix ''true'' s)
       else if c = CHR ''f'' then map_option (Pair (JBool False)) (strip_prefix ''false'' s)
       else map_option (apfst JNum) (scan_number s))"

definition expect :: "char \<Rightarrow> string \<Rightarrow> string option" where
  "expect c s = (case skip_space s of x # r \<Rightarrow> if x = c then Some r else None | [] \<Rightarrow> None)"

fun parse_value :: "nat \<Rightarrow> nat \<Rightarrow> string \<Rightarrow> (json \<times> string) option"
  and parse_elems :: "nat \<Rightarrow> nat \<Rightarrow> string \<Rightarrow> (json list \<times> string) option"
  and parse_members :: "nat \<Rightarrow> nat \<Rightarrow> string \<Rightarrow> ((string \<times> json) list \<times> string) option" where
  "parse_value 0 d s = None"
| "parse_value (Suc n) d s = (case skip_space s of
     [] \<Rightarrow> None
   | c # cs \<Rightarrow>
       if c = CHR ''['' then
         (case d of 0 \<Rightarrow> None | Suc d' \<Rightarrow>
           (case expect (CHR '']'') cs of
              Some r \<Rightarrow> Some (JArr [], r)
            | None \<Rightarrow> map_option (apfst JArr) (parse_elems n d' cs)))
       else if c = CHR ''{'' then
         (case d of 0 \<Rightarrow> None | Suc d' \<Rightarrow>
           (case expect (CHR ''}'') cs of
              Some r \<Rightarrow> Some (JObj [], r)
            | None \<Rightarrow> map_option (apfst JObj) (parse_members n d' cs)))
       else scan_atom (c # cs))"
| "parse_elems 0 d s = None"
| "parse_elems (Suc n) d s = (case parse_value n d s of
     None \<Rightarrow> None
   | Some (v, r) \<Rightarrow> (case expect (CHR '','') r of
         Some r' \<Rightarrow> map_option (apfst ((#) v)) (parse_elems n d r')
       | None \<Rightarrow> map_option (Pair [v]) (expect (CHR '']'') r)))"
| "parse_members 0 d s = None"
| "parse_members (Suc n) d s = (case expect (CHR 0x22) s of
     None \<Rightarrow> None
   | Some s1 \<Rightarrow> (case parse_string s1 of
         None \<Rightarrow> None
       | Some (k, s2) \<Rightarrow> (case expect (CHR '':'') s2 of
             None \<Rightarrow> None
           | Some s3 \<Rightarrow> (case parse_value n d s3 of
                 None \<Rightarrow> None
               | Some (v, r) \<Rightarrow> (case expect (CHR '','') r of
                     Some r' \<Rightarrow> map_option (apfst ((#) (k, v))) (parse_members n d r')
                   | None \<Rightarrow> map_option (Pair [(k, v)]) (expect (CHR ''}'') r))))))"

definition maxNestingDepth :: nat where "maxNestingDepth = 10000"

definition parse_json :: "string \<Rightarrow> (json \<times> string) option" where
  "parse_json s = parse_value (2 * length s) maxNestingDepth s"

text \<open>
  What a JSON value has to satisfy to be read back from its text: numbers in the syntax of JSON,
  strings and keys of ASCII characters, and at most \<open>d\<close> arrays and objects inside one another.
\<close>

definition ascii :: "string \<Rightarrow> bool" where
  "ascii s \<longleftrightarrow> list_all (\<lambda>c. (of_char c :: nat) < 128) s"

fun text_json :: "nat \<Rightarrow> json \<Rightarrow> bool" where
  "text_json d (JNum s) = (scan_number s = Some (s, []))"
| "text_json d (JStr s) = ascii s"
| "text_json d (JArr xs) = (0 < d \<and> list_all (text_json (d - 1)) xs)"
| "text_json d (JObj fs) = (0 < d \<and> list_all (\<lambda>(k, v). ascii k \<and> text_json (d - 1) v) fs)"
| "text_json d _ = True"

text \<open>A text that does not continue a number written before it.\<close>

definition number_end :: "string \<Rightarrow> bool" where
  "number_end s \<longleftrightarrow> (case s of [] \<Rightarrow> True | c # _ \<Rightarrow> \<not> is_digit c \<and> c \<notin> set ''.eE'')"

section \<open>Reading back numbers and strings\<close>

lemma number_end_simps [simp]: "number_end []" "number_end (c # s) \<longleftrightarrow> \<not> is_digit c \<and> c \<notin> set ''.eE''"
  by (simp_all add: number_end_def)

lemma prefix_fun: "(@) [c] = (#) c"
  by (simp add: fun_eq_iff)

lemma number_end_stop: "number_end rest \<Longrightarrow> takeWhile is_digit rest = [] \<and> dropWhile is_digit rest = rest"
  by (cases rest) auto

lemma scan_digits_append: "scan_digits s = Some (x, r) \<Longrightarrow> number_end rest \<Longrightarrow> scan_digits (s @ rest) = Some (x, r @ rest)"
  using number_end_stop [of rest]
  by (cases "\<forall>c \<in> set s. is_digit c")
    (auto simp: scan_digits_def takeWhile_append dropWhile_append takeWhile_eq_all_conv [THEN iffD2] split: if_splits)

lemma scan_int_append: "scan_int s = Some (x, r) \<Longrightarrow> number_end rest \<Longrightarrow> scan_int (s @ rest) = Some (x, r @ rest)"
  using scan_digits_append [of s x r rest] by (cases s) (auto simp: scan_int_def split: if_splits)

lemma scan_frac_append: "scan_frac s = Some (x, r) \<Longrightarrow> number_end rest \<Longrightarrow> scan_frac (s @ rest) = Some (x, r @ rest)"
  by (cases s; cases rest) (auto simp: scan_frac_def scan_digits_append split: if_splits)

lemma scan_exp_append:
  assumes "scan_exp s = Some (x, r)" and "number_end rest"
  shows "scan_exp (s @ rest) = Some (x, r @ rest)"
proof (cases s)
  case Nil
  with assms show ?thesis by (cases rest) (auto simp: scan_exp_def)
next
  case (Cons c cs)
  have "scan_digits (d # ds @ rest) = Some (y, r @ rest)" if "scan_digits (d # ds) = Some (y, r)" for d ds y
    using scan_digits_append [OF that assms(2)] by simp
  with Cons assms show ?thesis
    by (cases cs) (auto simp: scan_exp_def scan_digits_append split: if_splits)
qed

lemma scan_unsigned_append:
  assumes "scan_unsigned s = Some (x, r)" and "number_end rest"
  shows "scan_unsigned (s @ rest) = Some (x, r @ rest)"
proof -
  from assms(1) obtain i s1 f s2 e where "scan_int s = Some (i, s1)" "scan_frac s1 = Some (f, s2)" "scan_exp s2 = Some (e, r)"
    and x: "x = i @ f @ e"
    by (auto simp: scan_unsigned_def split: option.splits prod.splits)
  with assms(2) show ?thesis
    by (simp add: scan_unsigned_def scan_int_append scan_frac_append scan_exp_append)
qed

lemma scan_number_append:
  "scan_number s = Some (x, r) \<Longrightarrow> number_end rest \<Longrightarrow> scan_number (s @ rest) = Some (x, r @ rest)"
  using scan_unsigned_append [of s x r rest]
  by (cases s) (auto simp: scan_number_def scan_unsigned_append split: if_splits)

lemma hex_num_digit [simp]: "n < 16 \<Longrightarrow> hex_num (hex_digit n) = Some n"
  by (auto simp: hex_num_def hex_digit_def Let_def)

lemma scan_escape:
  assumes "(of_char c :: nat) < 128"
  shows "scan_string (Suc n) (json_escape c @ t) = map_option (apfst ((#) c)) (scan_string n t)"
proof -
  let ?n = "of_char c :: nat"
  have d: "?n div 16 < 16" "?n mod 16 < 16" "16 * (?n div 16) + ?n mod 16 = ?n" using assms by auto
  have u: "scan_u (''00'' @ hex_digit (?n div 16) # hex_digit (?n mod 16) # t) = Some (?n, t)"
  proof -
    have "hex_num CHR ''0'' = Some 0" by code_simp
    with d assms show ?thesis by (simp add: scan_u_def)
  qed
  have c8: "utf8 ?n = [c]" using assms by (simp add: utf8_def)
  have eq: "c = d" if "?n = of_char d" for d using that by (simp only: of_char_eq_iff)
  consider "c = CHR 0x22 \<or> c = CHR 0x5C \<or> ?n = 10 \<or> ?n = 13 \<or> ?n = 9 \<or> ?n = 8 \<or> ?n = 12"
    | (hex) "\<not> (c = CHR 0x22 \<or> c = CHR 0x5C \<or> ?n = 10 \<or> ?n = 13 \<or> ?n = 9 \<or> ?n = 8 \<or> ?n = 12)" "?n < 32 \<or> ?n \<in> {60, 62, 38}"
    | (plain) "\<not> (c = CHR 0x22 \<or> c = CHR 0x5C)" "\<not> (?n < 32 \<or> ?n \<in> {60, 62, 38})" by blast
  then show ?thesis
  proof cases
    case 1
    then show ?thesis
      using eq [of "CHR 0x0A"] eq [of "CHR 0x0D"] eq [of "CHR 0x09"] eq [of "CHR 0x08"] eq [of "CHR 0x0C"]
      by (auto simp: json_escape_def simple_escape_def Let_def)
  next
    case hex
    then have "json_escape c = CHR 0x5C # CHR ''u'' # ''00'' @ [hex_digit (?n div 16), hex_digit (?n mod 16)]"
      by (simp add: json_escape_def Let_def hex_encode_def)
    with u c8 show ?thesis by (simp add: prefix_fun)
  next
    case plain
    then show ?thesis by (simp add: json_escape_def Let_def)
  qed
qed

lemma scan_string_escape:
  "ascii s \<Longrightarrow> length s < n \<Longrightarrow> scan_string n (concat (map json_escape s) @ CHR 0x22 # rest) = Some (s, rest)"
proof (induction s arbitrary: n)
  case Nil
  then show ?case by (cases n) auto
next
  case (Cons c s)
  then obtain m where n: "n = Suc m" by (cases n) auto
  with Cons show ?case by (simp add: ascii_def scan_escape)
qed

lemma length_json_escape: "1 \<le> length (json_escape c)"
  by (auto simp: json_escape_def Let_def)

lemma length_escaped: "length s \<le> length (concat (map json_escape s))"
  by (induction s) (use length_json_escape in \<open>auto simp: add_mono intro: le_trans\<close>)

lemma parse_quoted: "ascii s \<Longrightarrow> parse_string (concat (map json_escape s) @ CHR 0x22 # rest) = Some (s, rest)"
  unfolding parse_string_def by (rule scan_string_escape) (use length_escaped [of s] in auto)

section \<open>Reading back values\<close>

lemma skip_space_Cons [simp]: "\<not> json_space c \<Longrightarrow> skip_space (c # s) = c # s"
  by (simp add: skip_space_def)

lemma expect_Cons: "\<not> json_space c \<Longrightarrow> expect x (c # s) = (if c = x then Some s else None)"
  by (simp add: expect_def)

lemma json_space_punct [simp]:
  "\<not> json_space CHR '',''" "\<not> json_space CHR '']''" "\<not> json_space CHR ''}''" "\<not> json_space CHR ''[''" "\<not> json_space CHR ''{''"
  "\<not> json_space CHR '':''" "\<not> json_space CHR 0x22" "\<not> json_space CHR ''n''" "\<not> json_space CHR ''t''" "\<not> json_space CHR ''f''"
  by (simp_all add: json_space_def)

lemma punct_not_digit [simp]: "\<not> is_digit CHR '',''" "\<not> is_digit CHR '']''" "\<not> is_digit CHR ''}''" "\<not> is_digit CHR 0x0A"
  by (simp_all add: is_digit_def)

text \<open>The first character of a number, and of any value.\<close>

lemma scan_number_first:
  assumes "scan_number s = Some (x, r)"
  shows "\<exists>c cs. s = c # cs \<and> (c = CHR ''-'' \<or> is_digit c)"
proof (cases s)
  case Nil
  with assms show ?thesis by (simp add: scan_number_def)
next
  case (Cons c cs)
  have "is_digit CHR ''0''" by code_simp
  with Cons assms show ?thesis
    by (auto simp: scan_number_def scan_unsigned_def scan_int_def scan_digits_def split: if_splits)
qed

definition value_start :: "char \<Rightarrow> bool" where
  "value_start c \<longleftrightarrow> c = CHR ''-'' \<or> is_digit c \<or> c \<in> set ''ntf[{'' \<or> c = CHR 0x22"

lemma value_start_not: "value_start c \<Longrightarrow> \<not> json_space c \<and> c \<noteq> CHR '']'' \<and> c \<noteq> CHR ''}'' \<and> c \<noteq> CHR '',''"
  by (auto simp: value_start_def json_space_def is_digit_def)

lemma show_json_start: "text_json d j \<Longrightarrow> \<exists>c cs. show_json j = c # cs \<and> value_start c"
  by (cases j) (auto simp: value_start_def json_quote_def dest!: scan_number_first)

lemma show_json_nonempty: "text_json d j \<Longrightarrow> 0 < length (show_json j)"
  using show_json_start by fastforce

lemma parse_number:
  assumes "scan_number s = Some (s, [])" and "number_end rest" and "0 < n"
  shows "parse_value n d (s @ rest) = Some (JNum s, rest)"
proof -
  from assms(3) obtain m where n: "n = Suc m" by (cases n) auto
  from scan_number_first [OF assms(1)] obtain c cs where s: "s = c # cs" and c: "c = CHR ''-'' \<or> is_digit c" by blast
  then have "\<not> json_space c" "c \<notin> set ''[{ntf''" "c \<noteq> CHR 0x22" by (auto simp: json_space_def is_digit_def)
  moreover have "scan_number (c # cs @ rest) = Some (s, rest)" using scan_number_append [OF assms(1,2)] s by simp
  ultimately show ?thesis by (simp add: n s scan_atom_def)
qed

lemma parse_elems_show:
  assumes "\<And>x n rest. x \<in> set xs \<Longrightarrow> length (show_json x) \<le> n \<Longrightarrow> number_end rest \<Longrightarrow> parse_value n d (show_json x @ rest) = Some (x, rest)"
    and "xs \<noteq> []" and "length (join_commas (map show_json xs)) < n"
  shows "parse_elems n d (join_commas (map show_json xs) @ CHR '']'' # rest) = Some (xs, rest)"
  using assms
proof (induction xs arbitrary: n rule: induct_list012)
  case (2 x)
  then obtain m where "n = Suc m" by (cases n) auto
  with 2 show ?case by (simp add: expect_Cons)
next
  case (3 x y ys)
  then obtain m where n: "n = Suc m" by (cases n) auto
  with 3 have "parse_elems m d (join_commas (map show_json (y # ys)) @ CHR '']'' # rest) = Some (y # ys, rest)"
    by (intro "3.IH") auto
  with 3(3,5) n show ?case by (simp add: expect_Cons)
qed simp

lemma parse_members_show:
  assumes "\<And>k v n rest. (k, v) \<in> set fs \<Longrightarrow> length (show_json v) \<le> n \<Longrightarrow> number_end rest \<Longrightarrow> parse_value n d (show_json v @ rest) = Some (v, rest)"
    and "fs \<noteq> []" and "list_all (ascii \<circ> fst) fs"
    and "length (join_commas (map (\<lambda>(k, v). json_quote k @ '':'' @ show_json v) fs)) < n"
  shows "parse_members n d (join_commas (map (\<lambda>(k, v). json_quote k @ '':'' @ show_json v) fs) @ CHR ''}'' # rest) = Some (fs, rest)"
  using assms
proof (induction fs arbitrary: n rule: induct_list012)
  case (2 x)
  then obtain m where "n = Suc m" by (cases n) auto
  with 2 show ?case by (cases x) (simp add: expect_Cons json_quote_def parse_quoted)
next
  case (3 x y ys)
  then obtain m where n: "n = Suc m" by (cases n) auto
  let ?t = "\<lambda>fs. join_commas (map (\<lambda>(k, v). json_quote k @ '':'' @ show_json v) fs)"
  have "parse_members m d (?t (y # ys) @ CHR ''}'' # rest) = Some (y # ys, rest)"
    using "3.prems" n by (intro "3.IH") (auto split: prod.splits)
  moreover obtain k v where x: "x = (k, v)" by (cases x)
  moreover have "parse_value m d (show_json v @ CHR '','' # t) = Some (v, CHR '','' # t)" for t
    using "3.prems"(4) x n by (intro "3.prems"(1)) auto
  moreover have "ascii k" using "3.prems"(3) x by simp
  ultimately show ?case by (simp add: n expect_Cons json_quote_def parse_quoted)
qed simp

lemma join_commas_start: "text_json d x \<Longrightarrow> \<exists>c cs. join_commas (map show_json (x # xs)) = c # cs \<and> value_start c"
  using show_json_start [of d x] by (cases xs) auto

lemma parse_show:
  "text_json d j \<Longrightarrow> length (show_json j) \<le> n \<Longrightarrow> number_end rest \<Longrightarrow> parse_value n d (show_json j @ rest) = Some (j, rest)"
proof (induction j arbitrary: n d rest)
  case (JNum s)
  then have "0 < n" using show_json_nonempty [of d "JNum s"] by (cases n) auto
  with JNum show ?case by (simp add: parse_number)
next
  case (JStr s)
  then obtain m where "n = Suc m" by (cases n) (auto simp: json_quote_def)
  with JStr show ?case by (simp add: json_quote_def scan_atom_def parse_quoted)
next
  case (JArr xs)
  then obtain m e where n: "n = Suc m" and d: "d = Suc e" by (cases n; cases d) auto
  show ?case
  proof (cases xs)
    case Nil
    then show ?thesis by (simp add: n d expect_Cons)
  next
    case (Cons x ys)
    with JArr.prems d have "text_json e x" by simp
    then obtain c cs where c: "join_commas (map show_json xs) = c # cs" "value_start c"
      using join_commas_start [of e x ys] Cons by auto
    have "parse_elems m e (join_commas (map show_json xs) @ CHR '']'' # rest) = Some (xs, rest)"
      using JArr Cons n d by (intro parse_elems_show) (auto simp: list_all_iff)
    with c value_start_not [OF c(2)] show ?thesis by (simp add: n d expect_Cons)
  qed
next
  case (JObj fs)
  then obtain m e where n: "n = Suc m" and d: "d = Suc e" by (cases n; cases d) auto
  let ?t = "join_commas (map (\<lambda>(k, v). json_quote k @ '':'' @ show_json v) fs)"
  show ?case
  proof (cases fs)
    case Nil
    then show ?thesis by (simp add: n d expect_Cons)
  next
    case (Cons f gs)
    then obtain cs where c: "?t = CHR 0x22 # cs" by (cases f; cases gs) (auto simp: json_quote_def)
    have v: "parse_value n e (show_json v @ rest) = Some (v, rest)"
      if "(k, v) \<in> set fs" "length (show_json v) \<le> n" "number_end rest" for k v n rest
    proof (rule JObj.IH [OF that(1), of v])
      show "text_json e v" using JObj.prems(1) d that(1) by (auto simp: list_all_iff)
    qed (use that in auto)
    have "parse_members m e (?t @ CHR ''}'' # rest) = Some (fs, rest)"
      using JObj.prems Cons n d by (intro parse_members_show v) (auto simp: list_all_iff)
    with c show ?thesis by (simp add: n d expect_Cons)
  qed
next
  case JNull
  then show ?case by (cases n) (auto simp: scan_atom_def strip_prefix_def)
next
  case (JBool b)
  then show ?case by (cases n; cases b) (auto simp: scan_atom_def strip_prefix_def)
qed

text \<open>JSON text reads back: the compact text of a value, with whatever follows it, is scanned into
  that value and the rest, for every value whose numbers are JSON numbers, whose strings and keys are
  ASCII, and which is nested at most 10000 deep; strings may hold quotes, backslashes and control
  characters, which the text has as escapes.\<close>

theorem json_text_roundtrip:
  "text_json maxNestingDepth j \<Longrightarrow> number_end rest \<Longrightarrow> parse_json (show_json j @ rest) = Some (j, rest)"
  unfolding parse_json_def by (rule parse_show) simp_all

theorem json_text_roundtrip_witness:
  "let j = JObj [(''a'', JArr [JNum ''-1.5e+3'', JStr [CHR 0x22, CHR 0x01, CHR ''<''], JNull]), (''b'', JBool True)] in
   parse_json (show_json j @ [CHR 0x0A]) = Some (j, [CHR 0x0A])"
proof -
  have "scan_number ''-1.5e+3'' = Some (''-1.5e+3'', [])" by code_simp
  then show ?thesis
    unfolding Let_def by (intro json_text_roundtrip) (simp_all add: maxNestingDepth_def ascii_def)
qed

section \<open>Fuel\<close>

lemma skip_space_length: "length (skip_space s) \<le> length s"
  by (simp add: skip_space_def length_dropWhile_le)

lemma expect_length: "expect c s = Some r \<Longrightarrow> length r < length s"
  using skip_space_length [of s] by (auto simp: expect_def split: list.splits if_splits)

lemma scan_digits_length: "scan_digits s = Some (x, r) \<Longrightarrow> length r < length s"
proof -
  assume a: "scan_digits s = Some (x, r)"
  have "length (takeWhile is_digit s) + length (dropWhile is_digit s) = length s"
    by (metis length_append takeWhile_dropWhile_id)
  with a show ?thesis by (auto simp: scan_digits_def simp flip: length_greater_0_conv split: if_splits)
qed

lemma scan_int_length: "scan_int s = Some (x, r) \<Longrightarrow> length r < length s"
  by (cases s) (auto simp: scan_int_def dest: scan_digits_length split: if_splits)

lemma scan_frac_length: "scan_frac s = Some (x, r) \<Longrightarrow> length r \<le> length s"
  by (cases s) (auto simp: scan_frac_def dest!: scan_digits_length split: if_splits)

lemma scan_exp_length: "scan_exp s = Some (x, r) \<Longrightarrow> length r \<le> length s"
  by (cases s) (auto simp: scan_exp_def dest!: scan_digits_length split: if_splits list.splits)

lemma scan_number_length: "scan_number s = Some (x, r) \<Longrightarrow> length r < length s"
proof -
  have u: "length q < length t" if "scan_unsigned t = Some (y, q)" for t y q
    using that by (auto simp: scan_unsigned_def dest!: scan_int_length scan_frac_length scan_exp_length split: option.splits)
  assume "scan_number s = Some (x, r)"
  then show ?thesis by (cases s) (auto simp: scan_number_def dest!: u split: if_splits)
qed

lemma hex4_length: "hex4 s = Some (n, r) \<Longrightarrow> length r < length s"
  by (induction s rule: hex4.induct) (auto split: option.splits)

lemma scan_u_length: "scan_u s = Some (n, r) \<Longrightarrow> length r < length s"
proof -
  have l: "length q < length t" if "low_surrogate t = Some (m, q)" for t m q
    using that by (auto simp: low_surrogate_def dest!: hex4_length split: list.splits if_splits option.splits)
  assume "scan_u s = Some (n, r)"
  then show ?thesis by (auto simp: scan_u_def dest!: hex4_length l split: option.splits if_splits)
qed

lemma scan_string_length: "scan_string n s = Some (x, r) \<Longrightarrow> length r < length s"
proof (induction n s arbitrary: x r rule: scan_string.induct)
  case (1 n c cs)
  show ?case
  proof (cases "c = CHR 0x5C")
    case True
    then obtain e es where cs: "cs = e # es" using "1.prems" by (cases cs) auto
    show ?thesis
    proof (cases "e = CHR ''u''")
      case u: True
      with "1.prems" True cs obtain k q y where "scan_u es = Some (k, q)" "scan_string n q = Some (y, r)"
        by (auto split: option.splits)
      with "1.IH"(1) [OF _ True cs u] scan_u_length [of es k q] True cs show ?thesis by fastforce
    next
      case False
      with "1.prems" True cs obtain y a where "simple_escape e = Some a" "scan_string n es = Some (y, r)"
        by (auto split: option.splits)
      with "1.IH"(2) [OF _ True cs False] True cs show ?thesis by fastforce
    qed
  next
    case False
    with "1.prems" "1.IH"(3) show ?thesis by (auto split: if_splits)
  qed
qed auto

lemma scan_string_fuel: "scan_string n s = Some y \<Longrightarrow> length s \<le> m \<Longrightarrow> scan_string m s = Some y"
proof (induction n s arbitrary: m y rule: scan_string.induct)
  case (1 n c cs)
  then obtain k where m: "m = Suc k" and k: "length cs \<le> k" by (cases m) auto
  show ?case
  proof (cases "c = CHR 0x5C")
    case True
    then obtain e es where cs: "cs = e # es" using "1.prems" by (cases cs) auto
    show ?thesis
    proof (cases "e = CHR ''u''")
      case u: True
      with "1.prems" True cs obtain w q z where q: "scan_u es = Some (w, q)" "scan_string n q = Some z" and y: "y = apfst ((@) (utf8 w)) z"
        by (auto split: option.splits)
      moreover have "length q \<le> k" using scan_u_length [OF q(1)] k cs by simp
      ultimately have "scan_string k q = Some z"
        using "1.IH"(1) [OF _ True cs u q(1) refl, of z k] True by simp
      with q y u cs True show ?thesis by (simp add: m)
    next
      case False
      with "1.prems" True cs obtain z a where q: "simple_escape e = Some a" "scan_string n es = Some z" and y: "y = apfst ((#) a) z"
        by (auto split: option.splits)
      then have "scan_string k es = Some z"
        using "1.IH"(2) [OF _ True cs False q(1), of z k] k cs True by simp
      with q y False cs True show ?thesis by (simp add: m)
    qed
  next
    case False
    show ?thesis
    proof (cases "c = CHR 0x22 \<or> (of_char c :: nat) < 32")
      case True
      with "1.prems" \<open>c \<noteq> CHR 0x5C\<close> show ?thesis by (auto simp: m split: if_splits)
    next
      case plain: False
      with "1.prems" False obtain z where z: "scan_string n cs = Some z" "y = apfst ((#) c) z" by auto
      then have "scan_string k cs = Some z" using "1.IH"(3) [of z k] plain False k by simp
      with z plain False show ?thesis by (simp add: m)
    qed
  qed
qed auto

lemma scan_atom_length: "scan_atom s = Some (j, r) \<Longrightarrow> length r < length s"
  by (cases s) (auto simp: scan_atom_def parse_string_def strip_prefix_def dest!: scan_string_length scan_number_length split: if_splits)

text \<open>What a successful parse went through.\<close>

lemma parse_value_Some:
  "parse_value (Suc n) d s = Some (v, r) \<longleftrightarrow>
     (\<exists>c cs. skip_space s = c # cs \<and>
       (if c = CHR ''['' then 0 < d \<and> (expect (CHR '']'') cs = Some r \<and> v = JArr [] \<or>
           expect (CHR '']'') cs = None \<and> (\<exists>vs. parse_elems n (d - 1) cs = Some (vs, r) \<and> v = JArr vs))
        else if c = CHR ''{'' then 0 < d \<and> (expect (CHR ''}'') cs = Some r \<and> v = JObj [] \<or>
           expect (CHR ''}'') cs = None \<and> (\<exists>fs. parse_members n (d - 1) cs = Some (fs, r) \<and> v = JObj fs))
        else scan_atom (c # cs) = Some (v, r)))"
  by (cases "skip_space s"; cases d) (auto split: option.splits)

lemma parse_elems_Some:
  "parse_elems (Suc n) d s = Some (vs, r) \<longleftrightarrow> (\<exists>v q. parse_value n d s = Some (v, q) \<and>
     ((\<exists>q' ws. expect (CHR '','') q = Some q' \<and> parse_elems n d q' = Some (ws, r) \<and> vs = v # ws) \<or>
      expect (CHR '','') q = None \<and> expect (CHR '']'') q = Some r \<and> vs = [v]))"
  by (auto split: option.splits)

lemma parse_members_Some:
  "parse_members (Suc n) d s = Some (fs, r) \<longleftrightarrow>
     (\<exists>k v s1 s2 s3 q. expect (CHR 0x22) s = Some s1 \<and> parse_string s1 = Some (k, s2) \<and> expect (CHR '':'') s2 = Some s3 \<and>
       parse_value n d s3 = Some (v, q) \<and>
       ((\<exists>q' gs. expect (CHR '','') q = Some q' \<and> parse_members n d q' = Some (gs, r) \<and> fs = (k, v) # gs) \<or>
        expect (CHR '','') q = None \<and> expect (CHR ''}'') q = Some r \<and> fs = [(k, v)]))"
  by (auto split: option.splits)

declare parse_value.simps(2) [simp del] parse_elems.simps(2) [simp del] parse_members.simps(2) [simp del]

definition enough_fuel :: "nat \<Rightarrow> bool" where
  "enough_fuel n \<longleftrightarrow>
     (\<forall>d s v r. parse_value n d s = Some (v, r) \<longrightarrow> length r < length s \<and> (\<forall>m \<ge> 2 * length s. parse_value m d s = Some (v, r))) \<and>
     (\<forall>d s v r. parse_elems n d s = Some (v, r) \<longrightarrow> length r < length s \<and> (\<forall>m > 2 * length s. parse_elems m d s = Some (v, r))) \<and>
     (\<forall>d s v r. parse_members n d s = Some (v, r) \<longrightarrow> length r < length s \<and> (\<forall>m > 2 * length s. parse_members m d s = Some (v, r)))"

lemma enough_fuelD:
  "enough_fuel n \<Longrightarrow> parse_value n d s = Some (v, r) \<Longrightarrow> length r < length s \<and> (\<forall>m \<ge> 2 * length s. parse_value m d s = Some (v, r))"
  "enough_fuel n \<Longrightarrow> parse_elems n d s = Some (vs, r) \<Longrightarrow> length r < length s \<and> (\<forall>m > 2 * length s. parse_elems m d s = Some (vs, r))"
  "enough_fuel n \<Longrightarrow> parse_members n d s = Some (fs, r) \<Longrightarrow> length r < length s \<and> (\<forall>m > 2 * length s. parse_members m d s = Some (fs, r))"
  unfolding enough_fuel_def by blast+

lemma enough_value:
  assumes "enough_fuel n" and "parse_value (Suc n) d s = Some (v, r)"
  shows "length r < length s \<and> (\<forall>m \<ge> 2 * length s. parse_value m d s = Some (v, r))"
proof -
  from assms(2) [unfolded parse_value_Some] obtain c cs where c: "skip_space s = c # cs" by blast
  then have l: "length cs < length s" using skip_space_length [of s] by simp
  note e = enough_fuelD(2) [OF assms(1)] and f = enough_fuelD(3) [OF assms(1)]
  have r: "length r < length s"
    using assms(2) l scan_atom_length [of "c # cs" v r] expect_length [of "CHR '']''" cs r] expect_length [of "CHR ''}''" cs r]
    by (auto simp: parse_value_Some c dest!: e f split: if_splits)
  moreover have "parse_value m d s = Some (v, r)" if "2 * length s \<le> m" for m
  proof -
    from that l obtain k where "m = Suc k" "2 * length cs < k" by (cases m) auto
    with assms(2) show ?thesis by (auto simp: parse_value_Some c dest!: e f split: if_splits)
  qed
  ultimately show ?thesis by blast
qed

lemma enough_elems:
  assumes "enough_fuel n" and "parse_elems (Suc n) d s = Some (vs, r)"
  shows "length r < length s \<and> (\<forall>m > 2 * length s. parse_elems m d s = Some (vs, r))"
proof -
  from assms(2) [unfolded parse_elems_Some] obtain v q where v: "parse_value n d s = Some (v, q)"
    and q: "(\<exists>q' ws. expect (CHR '','') q = Some q' \<and> parse_elems n d q' = Some (ws, r) \<and> vs = v # ws) \<or>
      expect (CHR '','') q = None \<and> expect (CHR '']'') q = Some r \<and> vs = [v]" by blast
  from v assms(1) have l: "length q < length s" and m: "\<And>m. 2 * length s \<le> m \<Longrightarrow> parse_value m d s = Some (v, q)"
    using enough_fuelD(1) by blast+
  note e = enough_fuelD(2) [OF assms(1)]
  from q show ?thesis
  proof
    assume "\<exists>q' ws. expect (CHR '','') q = Some q' \<and> parse_elems n d q' = Some (ws, r) \<and> vs = v # ws"
    then obtain q' ws where q': "expect (CHR '','') q = Some q'" "parse_elems n d q' = Some (ws, r)" "vs = v # ws" by blast
    have "parse_elems m d s = Some (vs, r)" if "2 * length s < m" for m
    proof -
      from that obtain k where k: "m = Suc k" "2 * length s \<le> k" by (cases m) auto
      moreover have "2 * length q' < k" using k l expect_length [OF q'(1)] by simp
      ultimately show ?thesis using q' m [of k] e [OF q'(2)] by (simp add: parse_elems_Some)
    qed
    with e [OF q'(2)] l expect_length [OF q'(1)] show ?thesis by simp
  next
    assume q': "expect (CHR '','') q = None \<and> expect (CHR '']'') q = Some r \<and> vs = [v]"
    then have "length r < length s" using expect_length [of "CHR '']''" q r] l by simp
    moreover have "parse_elems m d s = Some (vs, r)" if "2 * length s < m" for m
      using that q' m by (cases m) (auto simp: parse_elems_Some)
    ultimately show ?thesis by blast
  qed
qed

lemma parse_string_length: "parse_string s = Some (k, r) \<Longrightarrow> length r < length s"
  unfolding parse_string_def by (rule scan_string_length)

lemma enough_members:
  assumes "enough_fuel n" and "parse_members (Suc n) d s = Some (fs, r)"
  shows "length r < length s \<and> (\<forall>m > 2 * length s. parse_members m d s = Some (fs, r))"
proof -
  from assms(2) [unfolded parse_members_Some] obtain k v s1 s2 s3 q where s: "expect (CHR 0x22) s = Some s1" "parse_string s1 = Some (k, s2)" "expect (CHR '':'') s2 = Some s3"
    and v: "parse_value n d s3 = Some (v, q)"
    and q: "(\<exists>q' gs. expect (CHR '','') q = Some q' \<and> parse_members n d q' = Some (gs, r) \<and> fs = (k, v) # gs) \<or>
      expect (CHR '','') q = None \<and> expect (CHR ''}'') q = Some r \<and> fs = [(k, v)]" by blast
  have l3: "length s3 < length s"
    using s(1,3) [THEN expect_length] parse_string_length [OF s(2)] by simp
  from v assms(1) have l: "length q < length s3" and m: "\<And>m. 2 * length s3 \<le> m \<Longrightarrow> parse_value m d s3 = Some (v, q)"
    using enough_fuelD(1) by blast+
  note e = enough_fuelD(3) [OF assms(1)]
  from q show ?thesis
  proof
    assume "\<exists>q' gs. expect (CHR '','') q = Some q' \<and> parse_members n d q' = Some (gs, r) \<and> fs = (k, v) # gs"
    then obtain q' gs where q': "expect (CHR '','') q = Some q'" "parse_members n d q' = Some (gs, r)" "fs = (k, v) # gs" by blast
    have "parse_members m d s = Some (fs, r)" if "2 * length s < m" for m
    proof -
      from that l3 obtain i where i: "m = Suc i" "2 * length s3 \<le> i" by (cases m) auto
      moreover have "2 * length q' < i" using i l expect_length [OF q'(1)] by simp
      ultimately show ?thesis using s q' m [of i] e [OF q'(2)] by (simp add: parse_members_Some)
    qed
    with e [OF q'(2)] l l3 expect_length [OF q'(1)] show ?thesis by simp
  next
    assume q': "expect (CHR '','') q = None \<and> expect (CHR ''}'') q = Some r \<and> fs = [(k, v)]"
    then have "length r < length s" using expect_length [of "CHR ''}''" q r] l l3 by simp
    moreover have "parse_members m d s = Some (fs, r)" if "2 * length s < m" for m
      using that q' s m l3 by (cases m) (auto simp: parse_members_Some)
    ultimately show ?thesis by blast
  qed
qed

lemma enough_fuel: "enough_fuel n"
proof (induction n)
  case 0
  then show ?case by (simp add: enough_fuel_def)
next
  case (Suc n)
  show ?case unfolding enough_fuel_def [of "Suc n"]
    using enough_value [OF Suc] enough_elems [OF Suc] enough_members [OF Suc] by blast
qed

lemma parse_json_any: "parse_value n maxNestingDepth s = Some (v, r) \<Longrightarrow> parse_json s = Some (v, r)"
  using enough_fuelD(1) [OF enough_fuel] unfolding parse_json_def by blast

lemma parse_json_length: "parse_json s = Some (v, r) \<Longrightarrow> length r < length s"
  using enough_fuelD(1) [OF enough_fuel] unfolding parse_json_def by blast

lemma parse_value_skip: "skip_space s = skip_space t \<Longrightarrow> parse_value n d s = parse_value n d t"
  by (cases n) (simp_all add: parse_value.simps(2))

lemma parse_json_skip: "skip_space s = skip_space t \<Longrightarrow> parse_json s = parse_json t"
proof -
  have "parse_json y = Some x" if "skip_space y = skip_space z" "parse_json z = Some x" for y z x
    using that parse_json_any [of "2 * length z" y "fst x" "snd x"] parse_value_skip [of y z] by (simp add: parse_json_def)
  then show "skip_space s = skip_space t \<Longrightarrow> ?thesis" by (metis not_None_eq)
qed

text \<open>The fuel of the scanner is enough for every text: whatever a run with any amount of fuel
  reads, the run with twice the length of the text reads as well, with the same result; so the
  scanner gives up only on texts that do not start with a JSON value. Every value read takes at
  least one character of the text.\<close>

theorem fuel_enough:
  "((\<exists>n. parse_value n maxNestingDepth s = Some (v, r)) \<longleftrightarrow> parse_json s = Some (v, r)) \<and>
   (parse_json s = Some (v, r) \<longrightarrow> length r < length s)"
  using parse_json_any [of _ s v r] parse_json_length [of s v r] unfolding parse_json_def by blast

theorem fuel_enough_witness:
  "parse_json '' [1 , 2]x'' = Some (JArr [JNum ''1'', JNum ''2''], ''x'')"
proof -
  have "parse_value 7 maxNestingDepth '' [1 , 2]x'' = Some (JArr [JNum ''1'', JNum ''2''], ''x'')"
    by code_simp
  then show ?thesis using fuel_enough [of "'' [1 , 2]x''" "JArr [JNum ''1'', JNum ''2'']" "''x''"] by blast
qed

end
