(* ===== verification/Rpc_Codec.thy ===== *)
theory Rpc_Codec
  imports Rpc_Server Go_Json
begin

text \<open>
  The text on a connection: the codec that \<open>NewCodec\<close> of src/util/rpc/json.go makes of a connection
  writes each value with \<open>json.Encoder\<close>, which adds a line feed, and reads with \<open>json.Decoder\<close>,
  which takes one JSON value after the other from the stream. The decoder is the scanner of
  \<open>Go_Json\<close>; its errors are \<open>EOF\<close> at the end of the stream and one error for every other text,
  whose wording is not detailed.
\<close>

section \<open>Encoding and decoding\<close>

text \<open>The remote address is that of a connection that has one.\<close>

definition NewCodec :: "string option \<Rightarrow> jsonCodec" where
  "NewCodec conn = NewFuncCodec conn"

definition codec_remoteAddr :: "jsonCodec \<Rightarrow> string" where
  "codec_remoteAddr c = remote c"

definition wire_json :: "wire \<Rightarrow> json" where
  "wire_json w = (case w of WMsg m \<Rightarrow> marshal_message m | WBatch ms \<Rightarrow> JArr (map marshal_message ms))"

definition encoded :: "wire list \<Rightarrow> string" where
  "encoded ws = concat (map (\<lambda>w. show_json (wire_json w) @ [CHR 0x0A]) ws)"

definition decodeError :: rpc_error where "decodeError = ErrString ''invalid JSON''"

definition dec_Decode :: "string \<Rightarrow> rpc_error + json \<times> string" where
  "dec_Decode s = (if skip_space s = [] then Inl EOF
     else case parse_json s of None \<Rightarrow> Inl decodeError | Some (j, r) \<Rightarrow> Inr (j, r))"

definition decode_first :: "string \<Rightarrow> rpc_error + json" where
  "decode_first s = map_sum id fst (dec_Decode s)"

lemma dec_Decode_length: "dec_Decode s = Inr (j, r) \<Longrightarrow> length r < length s"
  by (auto simp: dec_Decode_def parse_json_length split: if_splits option.splits)

text \<open>Decoding until the first error, as the reader of a connection does.\<close>

function decode_stream :: "string \<Rightarrow> json list \<times> rpc_error" where
  "decode_stream s = (case dec_Decode s of
     Inl err \<Rightarrow> ([], err)
   | Inr (j, r) \<Rightarrow> apfst ((#) j) (decode_stream r))"
  by pat_completeness auto

termination
  by (relation "measure length") (use dec_Decode_length in auto)

declare decode_stream.simps [simp del]

text \<open>What \<open>readBatch\<close> gives, one call after the other, up to the error.\<close>

definition stream_batches :: "string \<Rightarrow> (rpc_error + jsonrpcMessage list \<times> bool) list" where
  "stream_batches s = (let (js, err) = decode_stream s in map (\<lambda>j. readBatch (Inr j)) js @ [readBatch (Inl err)])"

text \<open>A message as its text can carry it: read back from the text it is the same.\<close>

definition text_message :: "jsonrpcMessage \<Rightarrow> bool" where
  "text_message m \<longleftrightarrow> wf_message m \<and> text_json (maxNestingDepth - 1) (marshal_message m)"

fun text_wire :: "wire \<Rightarrow> bool" where
  "text_wire (WMsg m) = text_message m"
| "text_wire (WBatch ms) = list_all text_message ms"

section \<open>Lemmas\<close>

lemma scan_digits_split: "scan_digits s = Some (x, r) \<Longrightarrow> x \<noteq> [] \<and> list_all is_digit x"
  by (auto simp: scan_digits_def list_all_iff dest: set_takeWhileD split: if_splits)

lemma number_char_digit: "list_all is_digit x \<Longrightarrow> list_all (\<lambda>c. is_digit c \<or> c \<in> set ''+-.eE'') x"
  by (auto simp: list_all_iff)

lemma scan_number_text: "scan_number s = Some (x, r) \<Longrightarrow> number_text x"
proof -
  have i: "number_text y" if "scan_int t = Some (y, q)" for t y q
    using that by (cases t) (auto simp: scan_int_def number_text_def is_digit_def dest!: scan_digits_split number_char_digit split: if_splits)
  have f: "list_all (\<lambda>c. is_digit c \<or> c \<in> set ''+-.eE'') y" if "scan_frac t = Some (y, q)" for t y q
    using that by (cases t) (auto simp: scan_frac_def dest!: scan_digits_split number_char_digit split: if_splits)
  have e: "list_all (\<lambda>c. is_digit c \<or> c \<in> set ''+-.eE'') y" if "scan_exp t = Some (y, q)" for t y q
    using that by (cases t) (auto simp: scan_exp_def dest!: scan_digits_split number_char_digit split: if_splits list.splits)
  have u: "number_text y" if "scan_unsigned t = Some (y, q)" for t y q
    using that by (auto simp: scan_unsigned_def number_text_def dest!: i f e split: option.splits)
  assume "scan_number s = Some (x, r)"
  then show ?thesis by (cases s) (auto simp: scan_number_def number_text_def dest!: u split: if_splits)
qed

text \<open>Decimal numbers are JSON numbers.\<close>

lemma show_nat_no_zero: "0 < n \<Longrightarrow> \<exists>c cs. show_nat n = c # cs \<and> c \<noteq> CHR ''0''"
proof (induction n rule: show_nat.induct)
  case (1 n)
  show ?case
  proof (cases "n < 10")
    case True
    have "CHR ''0'' = char_of (48 :: nat)" by code_simp
    then have "char_of (48 + n) \<noteq> CHR ''0''" using True "1.prems" by (simp add: char_of_eq_iff take_bit_eq_mod)
    with True show ?thesis by (simp add: show_nat.simps [of n])
  next
    case False
    with "1.IH" have "\<exists>c cs. show_nat (n div 10) = c # cs \<and> c \<noteq> CHR ''0''" by simp
    with False show ?thesis by (auto simp: show_nat.simps [of n])
  qed
qed

lemma scan_digits_all: "s \<noteq> [] \<Longrightarrow> list_all is_digit s \<Longrightarrow> scan_digits s = Some (s, [])"
  by (auto simp: scan_digits_def list_all_iff takeWhile_eq_all_conv [THEN iffD2] dropWhile_eq_Nil_conv [THEN iffD2])

lemma scan_show_nat: "scan_unsigned (show_nat n) = Some (show_nat n, [])"
proof -
  have "scan_int (show_nat n) = Some (show_nat n, [])"
  proof (cases "n = 0")
    case True
    have "show_nat 0 = ''0''" by code_simp
    with True show ?thesis by (simp add: scan_int_def)
  next
    case False
    then obtain c cs where "show_nat n = c # cs" "c \<noteq> CHR ''0''" using show_nat_no_zero by blast
    with scan_digits_all [of "show_nat n"] show_nat_digits [of n] show ?thesis by (simp add: scan_int_def)
  qed
  then show ?thesis by (simp add: scan_unsigned_def scan_frac_def scan_exp_def)
qed

lemma scan_show_int [simp]: "scan_number (show_int i) = Some (show_int i, [])"
proof (cases "i < 0")
  case True
  then show ?thesis by (simp add: show_int_def scan_number_def scan_show_nat)
next
  case False
  obtain c cs where "show_nat (nat i) = c # cs" "is_digit c" using show_nat_first by blast
  moreover from this have "c \<noteq> CHR ''-''" by (auto simp: is_digit_def)
  ultimately show ?thesis using False scan_show_nat [of "nat i"] by (simp add: show_int_def scan_number_def)
qed

lemma text_json_wf: "text_json d j \<Longrightarrow> wf_json j"
proof (induction j arbitrary: d)
  case (JNum s)
  then show ?case by (simp add: scan_number_text)
next
  case (JArr xs)
  then show ?case by (auto simp: list_all_iff)
next
  case (JObj fs)
  have "wf_json v" if "(k, v) \<in> set fs" for k v
    using that JObj.IH [OF that, of v "d - 1"] JObj.prems by (auto simp: list_all_iff)
  then show ?case by (auto simp: list_all_iff)
qed simp_all

lemma text_json_mono: "text_json d j \<Longrightarrow> d \<le> e \<Longrightarrow> text_json e j"
proof (induction j arbitrary: d e)
  case (JArr xs)
  then have "text_json (e - 1) x" if "x \<in> set xs" for x
    by (intro JArr.IH [OF that, of "d - 1" "e - 1"]) (use that in \<open>auto simp: list_all_iff\<close>)
  with JArr.prems show ?case by (auto simp: list_all_iff)
next
  case (JObj fs)
  have "text_json (e - 1) v" if "(k, v) \<in> set fs" for k v
    by (rule JObj.IH [OF that, of v "d - 1" "e - 1"]) (use that JObj.prems in \<open>auto simp: list_all_iff\<close>)
  with JObj.prems show ?case by (auto simp: list_all_iff)
qed simp_all

lemma text_json_optional: "list_all (\<lambda>(k, v). ascii k \<and> text_json d v) (optional k j) \<longleftrightarrow> (\<forall>v. j = Some v \<longrightarrow> ascii k \<and> text_json d v)"
  by (auto simp: optional_def split: option.splits)

lemma text_json_error:
  "text_json (Suc (Suc d)) (marshal_error e) \<longleftrightarrow> ascii (Message e) \<and> (\<forall>v. ErrData e = Some v \<longrightarrow> text_json (Suc d) v)"
  by (simp add: marshal_error_def text_json_optional) (simp add: ascii_def)

lemma text_json_message:
  "text_json (Suc (Suc (Suc d))) (marshal_message m) \<longleftrightarrow>
     ascii (Version m) \<and> ascii (Method m) \<and> (\<forall>e. MsgError m = Some e \<longrightarrow> text_json (Suc (Suc d)) (marshal_error e)) \<and>
     (\<forall>j. ID m = Some j \<or> Params m = Some j \<or> Result m = Some j \<longrightarrow> text_json (Suc (Suc d)) j)"
proof -
  have "ascii ''jsonrpc'' \<and> ascii ''id'' \<and> ascii ''method'' \<and> ascii ''params'' \<and> ascii ''error'' \<and> ascii ''result'' \<and> ascii []"
    by (simp add: ascii_def)
  then show ?thesis by (auto simp: marshal_message_def text_json_optional nonempty_def split: if_splits)
qed

lemma nesting_room: obtains k where "maxNestingDepth = Suc (Suc (Suc (Suc k)))"
  by (rule that [of 9996]) (simp add: maxNestingDepth_def)

lemma text_wire_json: "text_wire w \<Longrightarrow> text_json maxNestingDepth (wire_json w)"
  by (cases w)
    (auto simp: wire_json_def text_message_def list_all_iff maxNestingDepth_def intro: text_json_mono)

lemma decode_one:
  assumes "text_json maxNestingDepth j" and "number_end rest"
  shows "dec_Decode (show_json j @ rest) = Inr (j, rest)"
proof -
  obtain c cs where c: "show_json j = c # cs" "value_start c" using show_json_start [OF assms(1)] by blast
  have "parse_json (show_json j @ rest) = Some (j, rest)"
    unfolding parse_json_def using assms by (intro parse_show) simp_all
  with c value_start_not [OF c(2)] show ?thesis by (simp add: dec_Decode_def)
qed

lemma decode_newline [simp]: "dec_Decode (CHR 0x0A # s) = dec_Decode s"
proof -
  have "skip_space (CHR 0x0A # s) = skip_space s" by (simp add: skip_space_def json_space_def)
  with parse_json_skip [OF this] show ?thesis by (simp add: dec_Decode_def)
qed

lemma decode_stream_newline [simp]: "decode_stream (CHR 0x0A # s) = decode_stream s"
  by (simp add: decode_stream.simps [of "CHR 0x0A # s"] decode_stream.simps [of s])

lemma decode_stream_encoded: "list_all text_wire ws \<Longrightarrow> decode_stream (encoded ws) = (map wire_json ws, EOF)"
proof (induction ws)
  case Nil
  then show ?case by (simp add: encoded_def decode_stream.simps dec_Decode_def skip_space_def)
next
  case (Cons w ws)
  have "dec_Decode (encoded (w # ws)) = Inr (wire_json w, CHR 0x0A # encoded ws)"
    using decode_one [OF text_wire_json, of w "CHR 0x0A # encoded ws"] Cons.prems by (simp add: encoded_def)
  with Cons show ?case by (simp add: decode_stream.simps [of "encoded (w # ws)"])
qed

lemma readBatch_wire:
  assumes "text_wire w"
  shows "readBatch (Inr (wire_json w)) = Inr (case w of WMsg m \<Rightarrow> ([m], False) | WBatch ms \<Rightarrow> (ms, True))"
proof -
  have j: "wf_json (wire_json w)" using text_json_wf [OF text_wire_json [OF assms]] .
  show ?thesis
  proof (cases w)
    case (WMsg m)
    have "\<not> isBatch (show_json (marshal_message m))"
      using isBatch_show [OF j] WMsg by (simp add: wire_json_def) (simp add: marshal_message_def)
    with assms WMsg show ?thesis
      by (simp add: readBatch_def parseMessage_def wire_json_def text_message_def unmarshal_marshal_message)
  next
    case (WBatch ms)
    with assms have "map ((\<lambda>m. case m of None \<Rightarrow> zero_message | Some m \<Rightarrow> m) \<circ> unmarshal_message \<circ> marshal_message) ms = ms"
      by (intro map_idI) (auto simp: list_all_iff text_message_def unmarshal_marshal_message)
    with WBatch isBatch_show [OF j] show ?thesis
      by (simp add: readBatch_def parseMessage_def wire_json_def comp_def)
  qed
qed

end
