(* ===== verification/Rpc_Http.thy ===== *)
theory Rpc_Http
  imports Rpc_Client Rpc_Codec
begin

text \<open>
  JSON-RPC over HTTP (src/util/rpc/http.go, with \<open>SetHeader\<close> of src/util/rpc/client.go and the
  peer information of src/util/rpc/server.go): the client's connection, one POST per call or
  batch, and the server's handler with its checks. The Go HTTP client and the parser of media types
  are parameters; the texts are decoded by the scanner of \<open>Go_Json\<close>. A channel of responses is its
  capacity, \<open>None\<close> for the nil channel; nothing receives from it before the send returns.
\<close>

section \<open>Peer information\<close>

record PeerInfo =
  Transport :: string
  RemoteAddr :: string
  HTTP_Version :: string
  HTTP_UserAgent :: string
  HTTP_Origin :: string
  HTTP_Host :: string

definition zero_PeerInfo :: PeerInfo where
  "zero_PeerInfo = \<lparr>Transport = [], RemoteAddr = [], HTTP_Version = [], HTTP_UserAgent = [], HTTP_Origin = [], HTTP_Host = []\<rparr>"

text \<open>A context is the chain of values attached to it, the latest first; the keys are types of the package.\<close>

datatype 'c ctx_value = PeerValue PeerInfo | ClientValue 'c

fun PeerInfoFromContext :: "'c ctx_value list \<Rightarrow> PeerInfo" where
  "PeerInfoFromContext [] = zero_PeerInfo"
| "PeerInfoFromContext (PeerValue i # _) = i"
| "PeerInfoFromContext (ClientValue _ # ctx) = PeerInfoFromContext ctx"

fun ClientFromContext :: "'c ctx_value list \<Rightarrow> 'c option" where
  "ClientFromContext [] = None"
| "ClientFromContext (ClientValue c # _) = Some c"
| "ClientFromContext (PeerValue _ # ctx) = ClientFromContext ctx"

section \<open>Headers\<close>

text \<open>Header keys in canonical form: the first letter and every letter after a hyphen in upper case.\<close>

fun canonical_from :: "bool \<Rightarrow> string \<Rightarrow> string" where
  "canonical_from up [] = []"
| "canonical_from up (c # cs) = (if up then upper_char c else lower_char c) # canonical_from (c = CHR ''-'') cs"

definition token_char :: "char \<Rightarrow> bool" where
  "token_char c \<longleftrightarrow> is_digit c \<or> (let n = of_char (lower_char c) :: nat in 97 \<le> n \<and> n \<le> 122) \<or> c \<in> set ''!#$%&*+-.^_`|~'' \<or> c = CHR 0x27"

definition CanonicalHeaderKey :: "string \<Rightarrow> string" where
  "CanonicalHeaderKey k = (if list_all token_char k then canonical_from True k else k)"

type_synonym header = "(string \<times> string) list"

definition header_Set :: "string \<Rightarrow> string \<Rightarrow> header \<Rightarrow> header" where
  "header_Set key v h = AList.update (CanonicalHeaderKey key) v h"

definition header_Get :: "header \<Rightarrow> string \<Rightarrow> string" where
  "header_Get h key = (case map_of h (CanonicalHeaderKey key) of None \<Rightarrow> [] | Some v \<Rightarrow> v)"

section \<open>The client's connection\<close>

definition maxRequestContentLength :: nat where "maxRequestContentLength = 1024 * 1024 * 5"
definition contentType :: string where "contentType = ''application/json''"
definition acceptedContentTypes :: "string list" where
  "acceptedContentTypes = [contentType, ''application/json-rpc'', ''application/jsonrequest'']"

record HTTPTimeouts =
  ReadTimeout :: int
  WriteTimeout :: int
  IdleTimeout :: int

definition DefaultHTTPTimeouts :: HTTPTimeouts where
  "DefaultHTTPTimeouts = \<lparr>ReadTimeout = 30 * 1000000000, WriteTimeout = 30 * 1000000000, IdleTimeout = 120 * 1000000000\<rparr>"

record httpConn =
  hc_url :: string
  hc_closed :: bool
  hc_headers :: header

definition httpConn_writeJSON :: "httpConn \<Rightarrow> rpc_error option outcome" where
  "httpConn_writeJSON hc = Panicked ''writeJSON called on httpConn''"

text \<open>Reading waits for the close, \<open>None\<close> until then.\<close>

definition httpConn_readBatch :: "httpConn \<Rightarrow> (rpc_error + jsonrpcMessage list \<times> bool) option" where
  "httpConn_readBatch hc = (if hc_closed hc then Some (Inl EOF) else None)"

definition httpConn_close :: "httpConn \<Rightarrow> httpConn" where
  "httpConn_close hc = hc\<lparr>hc_closed := True\<rparr>"

definition httpConn_peerInfo :: "httpConn \<Rightarrow> PeerInfo outcome" where
  "httpConn_peerInfo hc = Panicked ''peerInfo called on httpConn''"

definition httpConn_remoteAddr :: "httpConn \<Rightarrow> string" where
  "httpConn_remoteAddr hc = hc_url hc"

interpretation http_codec: server_codec httpConn_close hc_closed
  by unfold_locales (simp_all add: httpConn_close_def)

text \<open>\<open>url_Parse\<close> gives the error of parsing a URL.\<close>

definition DialHTTPWithClient :: "(string \<Rightarrow> rpc_error option) \<Rightarrow> string \<Rightarrow> rpc_error + httpConn" where
  "DialHTTPWithClient url_Parse endpoint = (case url_Parse endpoint of
     Some err \<Rightarrow> Inl err
   | None \<Rightarrow> Inr \<lparr>hc_url = endpoint, hc_closed = False,
       hc_headers = header_Set ''content-type'' contentType (header_Set ''accept'' contentType [])\<rparr>)"

text \<open>The HTTP client is an argument of the requests, here the zero one.\<close>

definition DialHTTP :: "(string \<Rightarrow> rpc_error option) \<Rightarrow> string \<Rightarrow> rpc_error + httpConn" where
  "DialHTTP url_Parse endpoint = DialHTTPWithClient url_Parse endpoint"

definition SetHeader :: "bool \<Rightarrow> string \<Rightarrow> string \<Rightarrow> httpConn \<Rightarrow> httpConn" where
  "SetHeader isHTTP key v hc = (if \<not> isHTTP then hc else hc\<lparr>hc_headers := header_Set key v (hc_headers hc)\<rparr>)"

record http_post =
  post_URL :: string
  post_Header :: header
  post_ContentLength :: int
  post_Body :: string

text \<open>
  A response: \<open>resp_All\<close> is what reading the body to its end gives, \<open>resp_First\<close> what a JSON
  decoder reads first from it, which it may do although the body cannot be read to its end.
\<close>

record http_response =
  StatusCode :: int
  Status :: string
  resp_All :: "rpc_error + string"
  resp_First :: "rpc_error + json"

text \<open>
  \<open>new_request\<close> is the error of \<open>http.NewRequestWithContext\<close> for a URL, \<open>http_Do\<close> the client's
  \<open>Do\<close>.
\<close>

record http_client =
  new_request :: "string \<Rightarrow> rpc_error option"
  http_Do :: "http_post \<Rightarrow> rpc_error + http_response"

definition doRequest :: "http_client \<Rightarrow> httpConn \<Rightarrow> wire \<Rightarrow> rpc_error + http_response" where
  "doRequest client hc msg =
     (let body = show_json (wire_json msg) in
      case new_request client (hc_url hc) of
        Some err \<Rightarrow> Inl err
      | None \<Rightarrow> (case http_Do client \<lparr>post_URL = hc_url hc, post_Header = hc_headers hc,
                     post_ContentLength = int (length body), post_Body = body\<rparr> of
          Inl err \<Rightarrow> Inl err
        | Inr resp \<Rightarrow>
            if StatusCode resp < 200 \<or> StatusCode resp \<ge> 300
            then Inl (HTTPError (StatusCode resp) (Status resp) (case resp_All resp of Inl _ \<Rightarrow> [] | Inr body \<Rightarrow> body))
            else Inr resp))"

text \<open>
  Decoding a response, with the errors of \<open>encoding/json\<close> for values of the wrong type, whose text
  is not detailed: null goes into every field, a string only into a string, an integer of 64 bits
  only into an integer.
\<close>

definition string_ok :: "json \<Rightarrow> bool" where
  "string_ok j \<longleftrightarrow> (case j of JNull \<Rightarrow> True | JStr _ \<Rightarrow> True | _ \<Rightarrow> False)"

definition int_ok :: "json \<Rightarrow> bool" where
  "int_ok j \<longleftrightarrow> (case j of JNull \<Rightarrow> True
     | JNum s \<Rightarrow> (case parse_int s of None \<Rightarrow> False | Some i \<Rightarrow> in_int64 i)
     | _ \<Rightarrow> False)"

definition error_ok :: "json \<Rightarrow> bool" where
  "error_ok j \<longleftrightarrow> (case j of JNull \<Rightarrow> True
     | JObj fs \<Rightarrow> list_all (\<lambda>(k, v). case find_field [''code'', ''message'', ''data''] k of
           None \<Rightarrow> True
         | Some f \<Rightarrow> if f = ''code'' then int_ok v else if f = ''message'' then string_ok v else True) fs
     | _ \<Rightarrow> False)"

definition message_ok :: "json \<Rightarrow> bool" where
  "message_ok j \<longleftrightarrow> (case j of JNull \<Rightarrow> True
     | JObj fs \<Rightarrow> list_all (\<lambda>(k, v). case find_field [''jsonrpc'', ''id'', ''method'', ''params'', ''error'', ''result''] k of
           None \<Rightarrow> True
         | Some f \<Rightarrow> if f = ''jsonrpc'' \<or> f = ''method'' then string_ok v else if f = ''error'' then error_ok v else True) fs
     | _ \<Rightarrow> False)"

definition unmarshalTypeError :: rpc_error where
  "unmarshalTypeError = ErrString ''json: cannot unmarshal''"

definition decode_message :: "json \<Rightarrow> rpc_error + jsonrpcMessage" where
  "decode_message j = (if message_ok j then Inr (case unmarshal_message j of None \<Rightarrow> zero_message | Some m \<Rightarrow> m)
     else Inl unmarshalTypeError)"

definition decode_messages :: "json \<Rightarrow> rpc_error + jsonrpcMessage list" where
  "decode_messages j = (case j of JNull \<Rightarrow> Inr []
     | JArr js \<Rightarrow> if list_all message_ok js
         then Inr (map (\<lambda>j. case unmarshal_message j of None \<Rightarrow> zero_message | Some m \<Rightarrow> m) js)
         else Inl unmarshalTypeError
     | _ \<Rightarrow> Inl unmarshalTypeError)"

section \<open>Sending\<close>

text \<open>The responses put into the channel, an error, or a goroutine that is blocked for ever.\<close>

datatype http_sent = Sent "jsonrpcMessage list" | SendErr rpc_error | Blocked

definition chan_send_all :: "nat option \<Rightarrow> jsonrpcMessage list \<Rightarrow> http_sent" where
  "chan_send_all resp msgs = (if msgs = [] then Sent [] else case resp of
     None \<Rightarrow> Blocked
   | Some cap \<Rightarrow> if length msgs \<le> cap then Sent msgs else Blocked)"

definition sendHTTP :: "http_client \<Rightarrow> httpConn \<Rightarrow> nat option \<Rightarrow> jsonrpcMessage \<Rightarrow> http_sent" where
  "sendHTTP client hc resp msg = (case doRequest client hc (WMsg msg) of
     Inl err \<Rightarrow> SendErr err
   | Inr r \<Rightarrow> (case resp_First r of
         Inl err \<Rightarrow> SendErr err
       | Inr j \<Rightarrow> (case decode_message j of
             Inl err \<Rightarrow> SendErr err
           | Inr respmsg \<Rightarrow> chan_send_all resp [respmsg])))"

definition sendBatchHTTP :: "http_client \<Rightarrow> httpConn \<Rightarrow> nat option \<Rightarrow> jsonrpcMessage list \<Rightarrow> http_sent" where
  "sendBatchHTTP client hc resp msgs = (case doRequest client hc (WBatch msgs) of
     Inl err \<Rightarrow> SendErr err
   | Inr r \<Rightarrow> (case resp_First r of
         Inl err \<Rightarrow> SendErr err
       | Inr j \<Rightarrow> (case decode_messages j of
             Inl err \<Rightarrow> SendErr err
           | Inr respmsgs \<Rightarrow> chan_send_all resp respmsgs)))"

section \<open>The server\<close>

record http_request =
  r_Method :: string
  r_ContentLength :: int
  r_RawQuery :: string
  r_Header :: header
  r_RemoteAddr :: string
  r_Proto :: string
  r_Host :: string
  r_Body :: string

text \<open>\<open>ParseMediaType\<close> gives the media type of a header value or an error; the code is 0 if there is no error.\<close>

definition validateRequest :: "(string \<Rightarrow> rpc_error + string) \<Rightarrow> http_request \<Rightarrow> int \<times> rpc_error option" where
  "validateRequest ParseMediaType r =
     (if r_Method r = ''PUT'' \<or> r_Method r = ''DELETE'' then (405, Some (ErrString ''method not allowed''))
      else if r_ContentLength r > int maxRequestContentLength
      then (413, Some (ErrString (''content length too large ('' @ show_int (r_ContentLength r) @ ''>'' @ show_nat maxRequestContentLength @ '')'')))
      else if r_Method r = ''OPTIONS'' then (0, None)
      else if (case ParseMediaType (header_Get (r_Header r) ''content-type'') of Inl _ \<Rightarrow> False | Inr mt \<Rightarrow> mt \<in> set acceptedContentTypes)
      then (0, None)
      else (415, Some (ErrString (''invalid content type, only '' @ contentType @ '' is supported''))))"

definition http_peer :: "http_request \<Rightarrow> PeerInfo" where
  "http_peer r = \<lparr>Transport = ''http'', RemoteAddr = r_RemoteAddr r, HTTP_Version = r_Proto r,
     HTTP_UserAgent = header_Get (r_Header r) ''User-Agent'', HTTP_Origin = header_Get (r_Header r) ''Origin'', HTTP_Host = r_Host r\<rparr>"

text \<open>
  What the response writer gets: the status, the content type that was set, and the body. The
  codec of the connection reads the first JSON value of at most \<open>maxRequestContentLength\<close> bytes of
  the body, and writes each message with a line feed after it.
\<close>

record http_reply =
  rep_Status :: int
  rep_ContentType :: "string option"
  rep_Body :: string

definition LimitReader :: "string \<Rightarrow> nat \<Rightarrow> string" where
  "LimitReader body n = take n body"

text \<open>The connection a codec reads a request from and writes its response to; it has no deadlines.\<close>

record httpServerConn =
  hsc_Reader :: string
  hsc_RemoteAddr :: string

definition newHTTPServerConn :: "http_request \<Rightarrow> httpServerConn \<times> jsonCodec" where
  "newHTTPServerConn r =
     (let conn = \<lparr>hsc_Reader = LimitReader (r_Body r) maxRequestContentLength, hsc_RemoteAddr = r_RemoteAddr r\<rparr> in
      (conn, NewCodec (Some (hsc_RemoteAddr conn))))"

definition httpServerConn_Close :: "httpServerConn \<Rightarrow> rpc_error option" where
  "httpServerConn_Close t = None"

definition httpServerConn_SetWriteDeadline :: "int \<Rightarrow> httpServerConn \<Rightarrow> rpc_error option" where
  "httpServerConn_SetWriteDeadline deadline t = None"

definition ServeHTTP :: "(string \<Rightarrow> rpc_error + string) \<Rightarrow> bool \<Rightarrow> ('x, 'v) handler \<Rightarrow>
    (nat \<Rightarrow> rpc_error option) \<Rightarrow> http_request \<Rightarrow> (('x, 'v) hstate, http_reply) prog" where
  "ServeHTTP ParseMediaType running h fails r =
     (if r_Method r = ''GET'' \<and> r_ContentLength r = 0 \<and> r_RawQuery r = []
      then returnP \<lparr>rep_Status = 200, rep_ContentType = None, rep_Body = []\<rparr>
      else case validateRequest ParseMediaType r of
        (code, Some err) \<Rightarrow> returnP \<lparr>rep_Status = code, rep_ContentType = Some ''text/plain; charset=utf-8'', rep_Body = Error err @ [CHR 0x0A]\<rparr>
      | (_, None) \<Rightarrow>
          bindP (\<lambda>s. (Ret (), s\<lparr>h_conn := \<lparr>written = [], attempts = 0, write_fails = fails\<rparr>\<rparr>)) (\<lambda>_.
          bindP (serveSingleRequest running h (decode_first (hsc_Reader (fst (newHTTPServerConn r))))) (\<lambda>_ s.
            (Ret \<lparr>rep_Status = 200, rep_ContentType = Some contentType, rep_Body = encoded (written (h_conn s))\<rparr>, s))))"

section \<open>Calls over HTTP\<close>

text \<open>\<open>CallContext\<close> for a client with \<open>isHTTP\<close>: the channel has room for the one response.\<close>

definition CallHTTP :: "http_client \<Rightarrow> httpConn \<Rightarrow> bool \<Rightarrow> (json \<Rightarrow> rpc_error + 'r) \<Rightarrow> string \<Rightarrow> (rpc_error + json) option \<Rightarrow>
    u32 \<Rightarrow> (rpc_error + 'r) outcome \<times> u32" where
  "CallHTTP client hc ptr unmarshal =
     CallContext ptr
       (\<lambda>msg. case sendHTTP client hc (Some 1) msg of SendErr err \<Rightarrow> Some err | _ \<Rightarrow> None)
       (\<lambda>msg. case sendHTTP client hc (Some 1) msg of Sent [m] \<Rightarrow> Received m | _ \<Rightarrow> ChanClosed None)
       unmarshal"

text \<open>
  \<open>Client.Notify\<close> over HTTP. Its request is made by \<open>new(requestOp)\<close>, so the channel for the response is
  nil. The result is that of \<open>sendHTTP\<close>: \<open>Sent\<close> stands for the return of nil.
\<close>

definition Notify_resp :: "nat option" where
  "Notify_resp = None"

definition NotifyHTTP :: "http_client \<Rightarrow> httpConn \<Rightarrow> string \<Rightarrow> (rpc_error + json) option \<Rightarrow> u32 \<Rightarrow> http_sent \<times> u32" where
  "NotifyHTTP client hc method args c = (case newMessage method args c of
     (Inl err, c') \<Rightarrow> (SendErr err, c')
   | (Inr msg, c') \<Rightarrow> (sendHTTP client hc Notify_resp (msg\<lparr>ID := None\<rparr>), c'))"

text \<open>
  A client whose HTTP requests are served by \<open>ServeHTTP\<close> in the state \<open>s\<close>. A handler that does not
  return drops the connection.
\<close>

definition post_request :: "http_post \<Rightarrow> http_request" where
  "post_request p = \<lparr>r_Method = ''POST'', r_ContentLength = post_ContentLength p, r_RawQuery = [], r_Header = post_Header p,
     r_RemoteAddr = [], r_Proto = ''HTTP/1.1'', r_Host = [], r_Body = post_Body p\<rparr>"

definition loopback :: "(string \<Rightarrow> rpc_error + string) \<Rightarrow> bool \<Rightarrow> ('x, 'v) handler \<Rightarrow>
    ('x, 'v) hstate \<Rightarrow> http_client" where
  "loopback ParseMediaType running h s = \<lparr>new_request = (\<lambda>_. None),
     http_Do = (\<lambda>p. case fst (ServeHTTP ParseMediaType running h (\<lambda>_. None) (post_request p) s) of
         Ret rep \<Rightarrow> Inr \<lparr>StatusCode = rep_Status rep, Status = show_int (rep_Status rep), resp_All = Inr (rep_Body rep),
           resp_First = decode_first (rep_Body rep)\<rparr>
       | _ \<Rightarrow> Inl EOF)\<rparr>"

section \<open>Lemmas\<close>

lemma sendHTTP_one: "sendHTTP client hc (Some 1) msg \<noteq> Blocked"
  by (simp add: sendHTTP_def chan_send_all_def split: sum.splits)

lemma error_ok_marshal: "wf_error e \<Longrightarrow> error_ok (marshal_error e)"
  by (auto simp: error_ok_def marshal_error_def wf_error_def optional_def find_field_exact int_ok_def string_ok_def split: option.splits)

lemma message_ok_marshal: "wf_message m \<Longrightarrow> message_ok (marshal_message m)"
  by (auto simp: message_ok_def marshal_message_def wf_message_def optional_def nonempty_def find_field_exact string_ok_def error_ok_marshal
      split: option.splits)

lemma decode_marshal: "wf_message m \<Longrightarrow> decode_message (marshal_message m) = Inr m"
  by (simp add: decode_message_def message_ok_marshal unmarshal_marshal_message)

lemma header_Get_Set: "header_Get (header_Set k v h) k' = (if CanonicalHeaderKey k = CanonicalHeaderKey k' then v else header_Get h k')"
  by (simp add: header_Get_def header_Set_def update_conv')

lemma handleMsg_reply:
  assumes "handleCallMsg h [] msg s = (Ret (Some r, []), w)" "isCall msg" "h_conn w = h_conn s" "write_fails (h_conn s) (attempts (h_conn s)) = None"
  shows "\<exists>s'. handleMsg h msg s = (Ret (), s') \<and> written (h_conn s') = written (h_conn s) @ [WMsg r]"
proof -
  have "\<not> isNotification msg" "\<not> isResponse msg"
    using assms(2) by (auto simp: isCall_def isNotification_def isResponse_def hasValidID_def split: option.splits)
  then have "immediate h msg s = (Ret False, s)" by (auto simp: immediate_def handleImmediate_def)
  with assms show ?thesis
    by (simp add: handleMsg_def bindP_def reply_def run_simps lift_conn_def write_message_def)
qed

lemma valid_nextID: "fst (nextID c) = i \<Longrightarrow> \<exists>b. first_byte i = Some b \<and> b \<noteq> CHR ''{'' \<and> b \<noteq> CHR ''[''"
  using first_byte_JNum [of "show_nat (unat (c + 1))"] number_text_show_int [of "int (unat (c + 1))"]
  by (auto simp: nextID_def Let_def show_int_def is_digit_def)

lemma newMessage_isCall:
  assumes "newMessage method args c = (Inr msg, c')" "method \<noteq> []"
  shows "isCall msg" "wf_message msg"
proof -
  have m: "ID msg = Some (fst (nextID c))" "Method msg = method" "MsgError msg = None"
    using assms(1) by (auto simp: newMessage_def Let_def zero_message_def split: prod.splits option.splits sum.splits)
  show "isCall msg" using valid_nextID [of c] assms(2) m by (auto simp: isCall_def hasValidID_def)
  show "wf_message msg" using m by (simp add: wf_message_def)
qed

lemma fold_store_unmarshal:
  "map be_unmarshal (fold (\<lambda>r b. b[f r := store_response r (b ! f r)]) rs b) = map be_unmarshal b"
proof (induction rs arbitrary: b)
  case (Cons r rs)
  have "be_unmarshal (store_response r e) = be_unmarshal e" for e :: "'a BatchElem"
    by (simp add: store_response_def be_unmarshal_def split: option.splits sum.splits)
  then have "map be_unmarshal (b[f r := store_response r (b ! f r)]) = map be_unmarshal b"
    by (simp add: map_update) (metis list_update_beyond list_update_id linorder_not_less nth_map length_map)
  with Cons.IH show ?case by simp
qed simp

lemma batch_wait_short: "length rs < n \<Longrightarrow> batch_wait ids n (map Received rs) b = None"
proof (induction rs arbitrary: n b)
  case Nil
  then show ?case by (cases n) simp_all
next
  case (Cons r rs)
  then show ?case by (cases n) (simp_all add: op_wait_def Let_def)
qed

lemma byID_foreign: "k \<notin> id_key ` set msgs \<Longrightarrow> map_of (byID msgs) k = None"
proof -
  have "k \<notin> id_key ` set ms \<Longrightarrow> map_of (fold (\<lambda>(i, msg). AList.update (id_key msg) i) (enumerate n ms) al) k = map_of al k" for ms n al
    by (induction ms arbitrary: n al) (auto simp: update_conv')
  then show "k \<notin> id_key ` set msgs \<Longrightarrow> ?thesis" by (simp add: byID_def)
qed

section \<open>Properties\<close>

text \<open>The HTTP request of a message, and how the server serves it.\<close>

definition msg_post :: "httpConn \<Rightarrow> jsonrpcMessage \<Rightarrow> http_post" where
  "msg_post hc m = (let body = show_json (marshal_message m) in
     \<lparr>post_URL = hc_url hc, post_Header = hc_headers hc, post_ContentLength = int (length body), post_Body = body\<rparr>)"

lemma http_served:
  assumes "DialHTTPWithClient url_Parse url = Inr hc" and "ParseMediaType contentType = Inr contentType"
    and "text_json maxNestingDepth (marshal_message m)" and "wf_message m" and "length (show_json (marshal_message m)) \<le> maxRequestContentLength"
    and "handleMsg (h\<lparr>allowSubscribe := False\<rparr>) m (s\<lparr>h_conn := \<lparr>written = [], attempts = 0, write_fails = \<lambda>_. None\<rparr>\<rparr>) = (Ret (), s')"
  shows "ServeHTTP ParseMediaType True h (\<lambda>_. None) (post_request (msg_post hc m)) s =
    (Ret \<lparr>rep_Status = 200, rep_ContentType = Some contentType, rep_Body = encoded (written (h_conn s'))\<rparr>,
     handler_close (h\<lparr>allowSubscribe := False\<rparr>) (Some EOF) None s')"
proof -
  have rb: "readBatch (Inr (marshal_message m)) = Inr ([m], False)"
    using assms(4) unmarshal_marshal_message [OF assms(4)] isBatch_show [OF text_json_wf [OF assms(3)]]
    by (simp add: readBatch_def parseMessage_def marshal_message_def)
  have ct: "header_Get (hc_headers hc) ''content-type'' = contentType"
    using assms(1) by (auto simp: DialHTTPWithClient_def header_Get_Set split: option.splits)
  have v: "validateRequest ParseMediaType (post_request (msg_post hc m)) = (0, None)"
    using assms(2,5) ct by (simp add: validateRequest_def post_request_def msg_post_def Let_def acceptedContentTypes_def)
  show ?thesis
    using assms(5,6) decode_one [OF assms(3), of "[]"] v
    by (simp add: ServeHTTP_def decode_first_def post_request_def msg_post_def newHTTPServerConn_def LimitReader_def Let_def serveSingleRequest_def
        rb bindP_def deferP_def)
qed

lemma sendHTTP_loopback:
  assumes "ServeHTTP ParseMediaType running h (\<lambda>_. None) (post_request (msg_post hc m)) s = (Ret rep, s')" and "rep_Status rep = 200"
  shows "sendHTTP (loopback ParseMediaType running h s) hc resp m = (case decode_first (rep_Body rep) of
      Inl err \<Rightarrow> SendErr err
    | Inr j \<Rightarrow> (case decode_message j of Inl err \<Rightarrow> SendErr err | Inr respmsg \<Rightarrow> chan_send_all resp [respmsg]))"
  using assms by (simp add: sendHTTP_def doRequest_def loopback_def wire_json_def msg_post_def Let_def)

text \<open>C13. A call over HTTP gives what the method gives: for a client connected to this server, the
  call returns the result or error of the response that the handler computed for the message the
  client made, through the text of both messages: their encoding, the size limit of five mebibytes,
  the checks of the HTTP handler, the scanning of both bodies and the decoding of the messages.\<close>

theorem http_call_end_to_end:
  assumes "DialHTTPWithClient url_Parse url = Inr hc" and "ParseMediaType contentType = Inr contentType"
    and "newMessage method args c = (Inr msg, c')" and "method \<noteq> []"
    and "text_json maxNestingDepth (marshal_message msg)" and "length (show_json (marshal_message msg)) \<le> maxRequestContentLength"
    and "service_local h"
    and "handleCallMsg (h\<lparr>allowSubscribe := False\<rparr>) [] msg (s\<lparr>h_conn := \<lparr>written = [], attempts = 0, write_fails = \<lambda>_. None\<rparr>\<rparr>) = (Ret (Some r, cp), w)"
    and "wf_message r" and "text_json maxNestingDepth (marshal_message r)"
  shows "CallHTTP (loopback ParseMediaType True h s) hc True unmarshal method args c = (Ret (response_result unmarshal r), c')"
proof -
  let ?h = "h\<lparr>allowSubscribe := False\<rparr>"
  let ?s = "s\<lparr>h_conn := \<lparr>written = [], attempts = 0, write_fails = \<lambda>_. None\<rparr>\<rparr>"
  note call = newMessage_isCall [OF assms(3,4)]
  have w: "cp = []" "h_conn w = h_conn ?s"
    using handleCallMsg_conn [OF _ _ assms(8)] assms(7) by auto
  obtain s' where s': "handleMsg ?h msg ?s = (Ret (), s')" "written (h_conn s') = [WMsg r]"
    using handleMsg_reply [OF assms(8) [unfolded w(1)] call(1) w(2)] by auto
  note http_served [where ParseMediaType = ParseMediaType, OF assms(1,2,5) call(2) assms(6) s'(1)]
  from sendHTTP_loopback [OF this, of "Some 1"] have "sendHTTP (loopback ParseMediaType True h s) hc (Some 1) msg = Sent [r]"
    using assms(9) decode_one [OF assms(10), of "[CHR 0x0A]"] s'(2)
    by (simp add: decode_first_def encoded_def wire_json_def decode_marshal chan_send_all_def)
  then show ?thesis using assms(3) by (simp add: CallHTTP_def CallContext_def finish_call_def op_wait_def)
qed

theorem http_call_end_to_end_witness:
  "let m = call_message ''1'' ''foo_bar'' []; r = errorResponse m (methodNotFoundError ''foo_bar'') in
   CallHTTP (loopback Inr True test_handler (handler_state0 []))
     \<lparr>hc_url = ''http://a'', hc_closed = False, hc_headers = header_Set ''content-type'' contentType (header_Set ''accept'' contentType [])\<rparr>
     True (\<lambda>_. Inr ()) ''foo_bar'' (Some (Inr (JArr []))) 0 =
   (Ret (Inl (ErrJson \<lparr>Code = -32601, Message = Error (methodNotFoundError ''foo_bar''), ErrData = None\<rparr>)), 1)"
proof -
  let ?m = "call_message ''1'' ''foo_bar'' []"
  let ?r = "errorResponse ?m (methodNotFoundError ''foo_bar'')"
  let ?hc = "\<lparr>hc_url = ''http://a'', hc_closed = False, hc_headers = header_Set ''content-type'' contentType (header_Set ''accept'' contentType [])\<rparr>"
  have t: "show_json (marshal_message ?m) = ''{\"jsonrpc\":\"2.0\",\"id\":1,\"method\":\"foo_bar\",\"params\":[]}''"
    by (simp add: call_message_def marshal_message_def zero_message_def optional_def nonempty_def vsn_def json_quote_def json_escape_def Let_def)
  have d: "DialHTTPWithClient (\<lambda>_. None) ''http://a'' = Inr ?hc" by (simp add: DialHTTPWithClient_def)
  have n: "newMessage ''foo_bar'' (Some (Inr (JArr []))) 0 = (Inr ?m, 1)"
  proof -
    have "show_nat (unat (0 + 1 :: u32)) = ''1''" by code_simp
    then show ?thesis by (simp add: newMessage_def nextID_def call_message_def Let_def)
  qed
  have l: "service_local test_handler" by (auto simp: service_local_def test_handler_def lookup_callback_def Let_def split: if_splits)
  have hc: "handleCallMsg (test_handler\<lparr>allowSubscribe := False\<rparr>) [] ?m x = (Ret (Some ?r, []), x)" for x
    by (simp add: handleCallMsg_def handleCall_def test_handler_def call_message_def isNotification_def isCall_def hasValidID_def
      isSubscribe_def isUnsubscribe_def HasSuffix_def first_byte_def lookup_callback_def SplitN2_def zero_message_def run_simps Let_def)
  obtain k where k: "maxNestingDepth = Suc (Suc (Suc (Suc k)))" by (rule nesting_room)
  have "scan_number ''1'' = Some (''1'', [])" "ascii (Error (methodNotFoundError ''foo_bar''))" by code_simp+
  then have wf: "text_json maxNestingDepth (marshal_message ?m)" "text_json maxNestingDepth (marshal_message ?r)"
    unfolding k by (auto simp: text_json_message text_json_error call_message_def errorResponse_def errorMessage_def zero_message_def vsn_def ascii_def)
  have wr: "wf_message ?r"
    by (simp add: wf_message_def wf_error_def errorResponse_def errorMessage_def in_int64_def)
  have len: "length (show_json (marshal_message ?m)) \<le> maxRequestContentLength"
    unfolding t maxRequestContentLength_def by simp
  have rr: "response_result (\<lambda>_. Inr ()) ?r = Inl (ErrJson \<lparr>Code = -32601, Message = Error (methodNotFoundError ''foo_bar''), ErrData = None\<rparr>)"
    by (simp add: response_result_def errorResponse_def errorMessage_def)
  show ?thesis
    using http_call_end_to_end [where ParseMediaType = Inr, OF d refl n _ wf(1) len l hc wr wf(2), where unmarshal = "\<lambda>_. Inr ()"]
    unfolding Let_def rr by simp
qed

text \<open>The outcome of a request that passes the checks.\<close>

lemma validateRequest_verdict:
  fixes r :: http_request and PMT :: "string \<Rightarrow> rpc_error + string"
  defines "bad \<equiv> r_Method r = ''PUT'' \<or> r_Method r = ''DELETE'' \<or> r_ContentLength r > 5242880 \<or>
    \<not> (r_Method r = ''OPTIONS'' \<or> (\<exists>mt. mt \<in> set acceptedContentTypes \<and> PMT (header_Get (r_Header r) ''content-type'') = Inr mt))"
  shows "bad \<Longrightarrow> \<exists>e. validateRequest PMT r =
      (if r_Method r = ''PUT'' \<or> r_Method r = ''DELETE'' then 405 else if r_ContentLength r > 5242880 then 413 else 415, Some e)"
    and "\<not> bad \<Longrightarrow> validateRequest PMT r = (0, None)"
proof -
  have m: "maxRequestContentLength = 5242880" by (simp add: maxRequestContentLength_def)
  have a: "(case PMT (header_Get (r_Header r) ''content-type'') of Inl _ \<Rightarrow> False | Inr mt \<Rightarrow> mt \<in> set acceptedContentTypes) \<longleftrightarrow>
      (\<exists>mt. mt \<in> set acceptedContentTypes \<and> PMT (header_Get (r_Header r) ''content-type'') = Inr mt)"
    by (auto split: sum.splits)
  show "bad \<Longrightarrow> \<exists>e. validateRequest PMT r =
      (if r_Method r = ''PUT'' \<or> r_Method r = ''DELETE'' then 405 else if r_ContentLength r > 5242880 then 413 else 415, Some e)"
    "\<not> bad \<Longrightarrow> validateRequest PMT r = (0, None)"
    unfolding bad_def validateRequest_def m a by auto
qed

lemma ServeHTTP_accepted:
  assumes "\<not> (r_Method r = ''GET'' \<and> r_ContentLength r = 0 \<and> r_RawQuery r = [])" and "validateRequest PMT r = (0, None)"
    and "serveSingleRequest running h (decode_first (take 5242880 (r_Body r))) (s\<lparr>h_conn := \<lparr>written = [], attempts = 0, write_fails = fails\<rparr>\<rparr>) = (Ret (), s')"
  shows "ServeHTTP PMT running h fails r s =
    (Ret \<lparr>rep_Status = 200, rep_ContentType = Some contentType, rep_Body = encoded (written (h_conn s'))\<rparr>, s')"
proof -
  have n: "hsc_Reader (fst (newHTTPServerConn r)) = take 5242880 (r_Body r)"
    by (simp add: newHTTPServerConn_def LimitReader_def Let_def maxRequestContentLength_def)
  show ?thesis unfolding ServeHTTP_def n if_not_P [OF assms(1)] assms(2) by (simp add: assms(3) bindP_def)
qed

lemma serve_call:
  assumes "service_local h" and "readBatch decoded = Inr ([msg], False)" and "isCall msg" and "write_fails (h_conn s) (attempts (h_conn s)) = None"
    and "handleCallMsg (h\<lparr>allowSubscribe := False\<rparr>) [] msg s = (Ret (Some a, cp), w)"
  shows "\<exists>s'. serveSingleRequest True h decoded s = (Ret (), s') \<and> written (h_conn s') = written (h_conn s) @ [WMsg a]"
proof -
  let ?h = "h\<lparr>allowSubscribe := False\<rparr>"
  have w: "cp = []" "h_conn w = h_conn s" using handleCallMsg_conn [OF _ _ assms(5)] assms(1) by auto
  from handleMsg_reply [OF assms(5) [unfolded w(1)] assms(3) w(2) assms(4)] obtain s1 where
    s1: "handleMsg ?h msg s = (Ret (), s1)" "written (h_conn s1) = written (h_conn s) @ [WMsg a]" by blast
  then show ?thesis
    by (intro exI [of _ "handler_close ?h (Some EOF) None s1"])
      (simp add: serveSingleRequest_def assms(2) deferP_def Let_def handler_close_def cancelServerSubscriptions_def)
qed

lemma serve_batch:
  assumes "service_local h" and "readBatch decoded = Inr (msgs, True)" and "list_all isCall msgs" and "msgs \<noteq> []"
    and "write_fails (h_conn s) (attempts (h_conn s)) = None" and "handle_calls (h\<lparr>allowSubscribe := False\<rparr>) [] msgs s = (Ret (rs, cp), w)"
  shows "\<exists>s'. serveSingleRequest True h decoded s = (Ret (), s') \<and> written (h_conn s') = written (h_conn s) @ [WBatch rs]"
proof -
  let ?h = "h\<lparr>allowSubscribe := False\<rparr>"
  have l: "service_local ?h" "\<not> allowSubscribe ?h" using assms(1) by simp_all
  have "cp = []" using handle_calls_conn [OF l assms(6)] by simp
  with batch_served [OF assms(3,4) service_local_keep [OF l] _ assms(5)] assms(6) obtain s1 where
    s1: "handleBatch ?h msgs s = (Ret (), s1)" "written (h_conn s1) = written (h_conn s) @ [WBatch rs]" by blast
  then show ?thesis
    by (intro exI [of _ "handler_close ?h (Some EOF) None s1"])
      (simp add: serveSingleRequest_def assms(2) deferP_def Let_def handler_close_def cancelServerSubscriptions_def)
qed

lemma serve_unread:
  "write_fails (h_conn s) (attempts (h_conn s)) = None \<Longrightarrow>
   \<exists>s'. serveSingleRequest True h (Inl err) s = (Ret (), s') \<and>
     written (h_conn s') = written (h_conn s) @ (if err = EOF then [] else [WMsg (errorMessage (invalidMessageError ''parse error''))])"
  by (auto simp: serveSingleRequest_def readBatch_def deferP_def Let_def run_simps bindP_def lift_conn_def write_message_def
      handler_close_def cancelServerSubscriptions_def)

text \<open>C36. What the HTTP server does with a request: an empty GET is answered with 200 and nothing; PUT and DELETE
  get 405; a declared length above five mebibytes gets 413; a content type that is not one of the three accepted
  gets 415, except for OPTIONS; none of these touches the state of the server. A request that passes these checks
  is answered with 200 and JSON according to the first JSON value in the first five mebibytes of its body, whatever
  length it declares: a call by the response of its method, when that returns; a batch of calls by the array of their
  responses; no value at all by nothing; anything unreadable by a parse error; and a stopped server answers
  nothing. (That the answer reaches the client is the hypothesis that the write does not fail.)\<close>

theorem ServeHTTP_checks:
  assumes "service_local h" and "fails 0 = None"
  shows "let health = (r_Method r = ''GET'' \<and> r_ContentLength r = 0 \<and> r_RawQuery r = []);
       put = (r_Method r = ''PUT'' \<or> r_Method r = ''DELETE'');
       long = (r_ContentLength r > 5242880);
       ok = (r_Method r = ''OPTIONS'' \<or> (\<exists>mt. mt \<in> set acceptedContentTypes \<and> PMT (header_Get (r_Header r) ''content-type'') = Inr mt));
       code = (if health then 200 else if put then 405 else if long then 413 else 415);
       decoded = decode_first (take 5242880 (r_Body r));
       s0 = s\<lparr>h_conn := \<lparr>written = [], attempts = 0, write_fails = fails\<rparr>\<rparr>;
       h0 = h\<lparr>allowSubscribe := False\<rparr>;
       replies = (\<lambda>running ws. \<exists>s'. ServeHTTP PMT running h fails r s =
         (Ret \<lparr>rep_Status = 200, rep_ContentType = Some contentType, rep_Body = encoded ws\<rparr>, s'))
   in if health \<or> put \<or> long \<or> \<not> ok
      then \<exists>rep. ServeHTTP PMT running h fails r s = (Ret rep, s) \<and> rep_Status rep = code \<and> (rep_Body rep = [] \<longleftrightarrow> health)
      else replies False [] \<and>
        (\<forall>msg a cp w. readBatch decoded = Inr ([msg], False) \<and> isCall msg \<and> handleCallMsg h0 [] msg s0 = (Ret (Some a, cp), w) \<longrightarrow>
           replies True [WMsg a]) \<and>
        (\<forall>msgs rs cp w. readBatch decoded = Inr (msgs, True) \<and> msgs \<noteq> [] \<and> list_all isCall msgs \<and> handle_calls h0 [] msgs s0 = (Ret (rs, cp), w) \<longrightarrow>
           replies True [WBatch rs]) \<and>
        (\<forall>err. decoded = Inl err \<longrightarrow> replies True (if err = EOF then [] else [WMsg (errorMessage (invalidMessageError ''parse error''))]))"
proof -
  let ?health = "r_Method r = ''GET'' \<and> r_ContentLength r = 0 \<and> r_RawQuery r = []"
  let ?acc = "\<exists>mt. mt \<in> set acceptedContentTypes \<and> PMT (header_Get (r_Header r) ''content-type'') = Inr mt"
  let ?bad = "r_Method r = ''PUT'' \<or> r_Method r = ''DELETE'' \<or> r_ContentLength r > 5242880 \<or> \<not> (r_Method r = ''OPTIONS'' \<or> ?acc)"
  let ?decoded = "decode_first (take 5242880 (r_Body r))" and ?s0 = "s\<lparr>h_conn := \<lparr>written = [], attempts = 0, write_fails = fails\<rparr>\<rparr>"
  have f: "write_fails (h_conn ?s0) (attempts (h_conn ?s0)) = None" using assms(2) by simp
  note bad = validateRequest_verdict(1) [of r PMT] and good = validateRequest_verdict(2) [of r PMT]
  have refuse: "\<exists>rep. ServeHTTP PMT running h fails r s = (Ret rep, s) \<and> rep_Status rep = code \<and> rep_Body rep \<noteq> []"
    if "\<not> ?health" "validateRequest PMT r = (code, Some e)" for code e
    using that by (auto simp: ServeHTTP_def run_simps)
  have health: "\<exists>rep. ServeHTTP PMT running h fails r s = (Ret rep, s) \<and> rep_Status rep = 200 \<and> rep_Body rep = []" if ?health
    using that by (auto simp: ServeHTTP_def run_simps)
  have served: "\<exists>s'. ServeHTTP PMT running h fails r s = (Ret \<lparr>rep_Status = 200, rep_ContentType = Some contentType, rep_Body = encoded ws\<rparr>, s')"
    if "\<not> ?health" "\<not> ?bad" "\<exists>s'. serveSingleRequest running h ?decoded ?s0 = (Ret (), s') \<and> written (h_conn s') = ws" for ws running
    using that(3) ServeHTTP_accepted [OF that(1) good [OF that(2)]] by blast
  show ?thesis
  proof (cases "?health \<or> ?bad")
    case True
    then show ?thesis unfolding Let_def using health refuse bad by (cases ?health) auto
  next
    case False
    then have nh: "\<not> ?health" "\<not> ?bad" by blast+
    note served = served [OF nh]
    have stopped: "\<exists>s'. ServeHTTP PMT False h fails r s = (Ret \<lparr>rep_Status = 200, rep_ContentType = Some contentType, rep_Body = encoded []\<rparr>, s')"
      by (rule served) (simp add: serveSingleRequest_def run_simps)
    have call: "\<exists>s'. ServeHTTP PMT True h fails r s = (Ret \<lparr>rep_Status = 200, rep_ContentType = Some contentType, rep_Body = encoded [WMsg x]\<rparr>, s')"
      if "readBatch ?decoded = Inr ([msg], False)" "isCall msg" "handleCallMsg (h\<lparr>allowSubscribe := False\<rparr>) [] msg ?s0 = (Ret (Some x, cp), w)" for msg x cp w
      by (rule served) (use serve_call [OF assms(1) that(1,2) f that(3)] in simp)
    have batch: "\<exists>s'. ServeHTTP PMT True h fails r s = (Ret \<lparr>rep_Status = 200, rep_ContentType = Some contentType, rep_Body = encoded [WBatch rs]\<rparr>, s')"
      if "readBatch ?decoded = Inr (msgs, True)" "msgs \<noteq> []" "list_all isCall msgs" "handle_calls (h\<lparr>allowSubscribe := False\<rparr>) [] msgs ?s0 = (Ret (rs, cp), w)" for msgs rs cp w
      by (rule served) (use serve_batch [OF assms(1) that(1,3,2) f that(4)] in simp)
    have unread: "\<exists>s'. ServeHTTP PMT True h fails r s = (Ret \<lparr>rep_Status = 200, rep_ContentType = Some contentType,
        rep_Body = encoded (if err = EOF then [] else [WMsg (errorMessage (invalidMessageError ''parse error''))])\<rparr>, s')" if "?decoded = Inl err" for err
      by (rule served) (use serve_unread [OF f, of h err] that in simp)
    from False have nb: "\<not> (?health \<or> (r_Method r = ''PUT'' \<or> r_Method r = ''DELETE'') \<or> r_ContentLength r > 5242880 \<or> \<not> (r_Method r = ''OPTIONS'' \<or> ?acc))"
      by blast
    show ?thesis unfolding Let_def if_not_P [OF nb]
      by (intro conjI allI impI; (elim conjE)?; (rule stopped | erule (2) call | erule (3) batch | erule unread))
  qed
qed

definition put_request :: http_request where
  "put_request = \<lparr>r_Method = ''PUT'', r_ContentLength = 4, r_RawQuery = [], r_Header = header_Set ''Content-Type'' ''application/json'' [],
     r_RemoteAddr = [], r_Proto = [], r_Host = [], r_Body = ''nope''\<rparr>"

theorem ServeHTTP_checks_witness:
  "(\<exists>rep. ServeHTTP Inr True test_handler (\<lambda>_. None) put_request (handler_state0 []) = (Ret rep, handler_state0 []) \<and> rep_Status rep = 405) \<and>
   (\<exists>s'. ServeHTTP Inr True test_handler (\<lambda>_. None) (put_request\<lparr>r_Method := ''POST''\<rparr>) (handler_state0 []) =
     (Ret \<lparr>rep_Status = 200, rep_ContentType = Some contentType,
        rep_Body = encoded [WMsg (errorMessage (invalidMessageError ''parse error''))]\<rparr>, s'))"
proof -
  have l: "service_local test_handler" by (auto simp: service_local_def test_handler_def lookup_callback_def Let_def split: if_splits)
  have "decode_first ''nope'' = Inl decodeError" by code_simp
  moreover have "take 5242880 ''nope'' = ''nope''" by (rule take_all) simp
  ultimately have d: "decode_first (take 5242880 ''nope'') = Inl decodeError" by (simp only:)
  have ne: "decodeError \<noteq> EOF" by code_simp
  have h: "header_Get (header_Set ''Content-Type'' ''application/json'' []) ''content-type'' = ''application/json''" by code_simp
  have c: "''application/json'' \<in> set acceptedContentTypes" by code_simp
  let ?post = "put_request\<lparr>r_Method := ''POST''\<rparr>"
  have put: "r_Method put_request = ''PUT''" by (simp add: put_request_def)
  have post: "r_Method ?post = ''POST''" "r_ContentLength ?post = 4" "header_Get (r_Header ?post) ''content-type'' = ''application/json''" "r_Body ?post = ''nope''"
    using h by (simp_all add: put_request_def)
  note * = ServeHTTP_checks [OF l, where fails = "\<lambda>_. None" and PMT = Inr and running = True and s = "handler_state0 []", OF refl]
  have "\<exists>rep. ServeHTTP Inr True test_handler (\<lambda>_. None) put_request (handler_state0 []) = (Ret rep, handler_state0 []) \<and> rep_Status rep = 405"
    using * [of put_request] unfolding Let_def put by auto
  moreover have "\<not> ((''POST'' = ''GET'' \<and> (4 :: int) = 0 \<and> r_RawQuery ?post = []) \<or> (''POST'' = ''PUT'' \<or> ''POST'' = ''DELETE'') \<or> (4 :: int) > 5242880 \<or>
      \<not> (''POST'' = ''OPTIONS'' \<or> (\<exists>mt. mt \<in> set acceptedContentTypes \<and> (Inr ''application/json'' :: rpc_error + string) = Inr mt)))"
    using c by simp
  note ** = * [of ?post, unfolded Let_def post, unfolded if_not_P [OF this], THEN conjunct2, THEN conjunct2, THEN conjunct2, rule_format, OF d,
      unfolded if_not_P [OF ne]]
  ultimately show ?thesis by (intro conjI) (assumption, rule **)
qed

text \<open>C37. A notification over HTTP never succeeds. \<open>Notify\<close> waits for a response that its request has no channel
  for: whatever the server does, it never returns nil, and it blocks for ever exactly when the message can be
  made and sent and the server answers with any JSON message at all. From this package's own server, which
  runs the method and rightly answers nothing, \<open>Notify\<close> always returns the error EOF, although the effects of the
  method on the application are there.\<close>

theorem http_notify_never_succeeds:
  assumes "DialHTTPWithClient url_Parse url = Inr hc" and "ParseMediaType contentType = Inr contentType"
    and "newMessage method args c = (Inr msg, c')" and "method \<noteq> []" and "\<not> HasSuffix method notificationMethodSuffix"
    and "text_json maxNestingDepth (marshal_message (msg\<lparr>ID := None\<rparr>))"
    and "length (show_json (marshal_message (msg\<lparr>ID := None\<rparr>))) \<le> maxRequestContentLength" and "service_local h"
    and "handleCall (h\<lparr>allowSubscribe := False\<rparr>) [] (msg\<lparr>ID := None\<rparr>) (s\<lparr>h_conn := \<lparr>written = [], attempts = 0, write_fails = \<lambda>_. None\<rparr>\<rparr>) = (Ret (r, cp), w)"
  shows "(\<forall>client hc method args c ms. fst (NotifyHTTP client hc method args c) \<noteq> Sent ms) \<and>
    (\<forall>client hc. NotifyHTTP client hc method args c = (Blocked, c') \<longleftrightarrow>
      (\<exists>resp j. doRequest client hc (WMsg (msg\<lparr>ID := None\<rparr>)) = Inr resp \<and> resp_First resp = Inr j \<and> message_ok j)) \<and>
    NotifyHTTP (loopback ParseMediaType True h s) hc method args c = (SendErr EOF, c') \<and>
    h_app (snd (ServeHTTP ParseMediaType True h (\<lambda>_. None) (post_request (msg_post hc (msg\<lparr>ID := None\<rparr>))) s)) = h_app w"
proof (intro conjI allI)
  let ?h = "h\<lparr>allowSubscribe := False\<rparr>" and ?m = "msg\<lparr>ID := None\<rparr>"
  show "fst (NotifyHTTP client hc m as c) \<noteq> Sent ms" for client hc m as c ms
    by (auto simp: NotifyHTTP_def Notify_resp_def sendHTTP_def chan_send_all_def split: sum.splits prod.splits)
  show "NotifyHTTP client hc method args c = (Blocked, c') \<longleftrightarrow>
      (\<exists>resp j. doRequest client hc (WMsg ?m) = Inr resp \<and> resp_First resp = Inr j \<and> message_ok j)" for client hc
    using assms(3) by (auto simp: NotifyHTTP_def Notify_resp_def sendHTTP_def chan_send_all_def decode_message_def split: sum.splits)
  have m: "Method msg = method" "MsgError msg = None"
    using assms(3) by (auto simp: newMessage_def Let_def zero_message_def split: prod.splits option.splits sum.splits)
  then have n: "isNotification ?m" "wf_message ?m" using assms(4) by (simp_all add: isNotification_def wf_message_def)
  then have c: "handleCallMsg ?h [] ?m (s\<lparr>h_conn := \<lparr>written = [], attempts = 0, write_fails = \<lambda>_. None\<rparr>\<rparr>) = (Ret (None, cp), w)"
    using assms(9) by (simp add: handleCallMsg_def run_simps)
  have w: "cp = []" "h_conn w = \<lparr>written = [], attempts = 0, write_fails = \<lambda>_. None\<rparr>"
    using handleCallMsg_conn [OF _ _ c] assms(8) by auto
  have "immediate ?h ?m x = (Ret False, x)" for x using n(1) m(1) assms(5) by (simp add: immediate_def handleImmediate_def)
  then have "handleMsg ?h ?m (s\<lparr>h_conn := \<lparr>written = [], attempts = 0, write_fails = \<lambda>_. None\<rparr>\<rparr>) = (Ret (), w)"
    using c w(1) by (simp add: handleMsg_def bindP_def reply_def run_simps)
  note served = http_served [where ParseMediaType = ParseMediaType, OF assms(1,2,6) n(2) assms(7) this]
  from sendHTTP_loopback [OF this] show "NotifyHTTP (loopback ParseMediaType True h s) hc method args c = (SendErr EOF, c')"
    using assms(3) w(2) by (simp add: NotifyHTTP_def encoded_def decode_first_def dec_Decode_def skip_space_def)
  show "h_app (snd (ServeHTTP ParseMediaType True h (\<lambda>_. None) (post_request (msg_post hc ?m)) s)) = h_app w"
    unfolding served by (simp add: handler_close_def cancelServerSubscriptions_def)
qed

theorem http_notify_never_succeeds_witness:
  "NotifyHTTP (loopback Inr True test_handler (handler_state0 []))
     \<lparr>hc_url = ''http://a'', hc_closed = False, hc_headers = header_Set ''content-type'' contentType (header_Set ''accept'' contentType [])\<rparr>
     ''foo_bar'' (Some (Inr (JArr []))) 0 = (SendErr EOF, 1)"
proof -
  let ?hc = "\<lparr>hc_url = ''http://a'', hc_closed = False, hc_headers = header_Set ''content-type'' contentType (header_Set ''accept'' contentType [])\<rparr>"
  let ?m = "call_message ''1'' ''foo_bar'' []" and ?n = "(call_message ''1'' ''foo_bar'' [])\<lparr>ID := None\<rparr>"
  have d: "DialHTTPWithClient (\<lambda>_. None) ''http://a'' = Inr ?hc" by (simp add: DialHTTPWithClient_def)
  have n: "newMessage ''foo_bar'' (Some (Inr (JArr []))) 0 = (Inr ?m, 1)"
  proof -
    have "show_nat (unat (0 + 1 :: u32)) = ''1''" by code_simp
    then show ?thesis by (simp add: newMessage_def nextID_def call_message_def Let_def)
  qed
  have suf: "\<not> HasSuffix ''foo_bar'' notificationMethodSuffix" by code_simp
  have l: "service_local test_handler" by (auto simp: service_local_def test_handler_def lookup_callback_def Let_def split: if_splits)
  have t: "show_json (marshal_message ?n) = ''{\"jsonrpc\":\"2.0\",\"method\":\"foo_bar\",\"params\":[]}''"
    by (simp add: call_message_def marshal_message_def zero_message_def optional_def nonempty_def vsn_def json_quote_def json_escape_def Let_def)
  have len: "length (show_json (marshal_message ?n)) \<le> maxRequestContentLength" unfolding t maxRequestContentLength_def by simp
  obtain k where k: "maxNestingDepth = Suc (Suc (Suc (Suc k)))" by (rule nesting_room)
  have wf: "text_json maxNestingDepth (marshal_message ?n)"
    unfolding k by (auto simp: text_json_message call_message_def zero_message_def vsn_def ascii_def)
  have hc: "handleCall (test_handler\<lparr>allowSubscribe := False\<rparr>) [] ?n x = (Ret (errorResponse ?n (methodNotFoundError ''foo_bar''), []), x)" for x
    by (simp add: handleCall_def test_handler_def call_message_def isSubscribe_def isUnsubscribe_def HasSuffix_def
        lookup_callback_def SplitN2_def zero_message_def run_simps Let_def)
  show ?thesis
    using http_notify_never_succeeds [where ParseMediaType = Inr, OF d refl n _ suf wf len l hc] by simp
qed

text \<open>C38. Responses to a batch over HTTP are not checked. If the server sends more responses than the batch has
  elements, the send to the channel blocks for ever; if it sends fewer, the call goes on waiting although no
  response can come any more, until its context ends; and if it sends as many and the ID of the last one belongs to no element,
  that response is stored in the first element, over the response that element may already have, and the call reports
  success.\<close>

theorem http_batch_unchecked:
  assumes "new_messages b c = (Inr msgs, c')" and "doRequest client hc (WBatch msgs) = Inr resp"
    and "resp_First resp = Inr j" and "decode_messages j = Inr rs" and "b \<noteq> []"
  shows "(length rs > length b \<longrightarrow> sendBatchHTTP client hc (Some (length b)) msgs = Blocked) \<and>
    (length rs < length b \<longrightarrow> sendBatchHTTP client hc (Some (length b)) msgs = Sent rs \<and>
      fst (BatchCallContext (\<lambda>_. None) (map Received rs) b c) = None) \<and>
    (length rs = length b \<and> id_key (last rs) \<notin> id_key ` set msgs \<longrightarrow>
      sendBatchHTTP client hc (Some (length b)) msgs = Sent rs \<and>
      (\<exists>b' e. BatchCallContext (\<lambda>_. None) (map Received rs) b c = (Some (Ret (None, b')), c') \<and>
        b' ! 0 = store_response (last rs) e \<and> be_unmarshal e = be_unmarshal (b ! 0)))"
proof -
  have blocked: "sendBatchHTTP client hc (Some (length b)) msgs = Blocked" if "length rs > length b"
    using that assms(2-4) by (auto simp: sendBatchHTTP_def chan_send_all_def)
  have sent: "sendBatchHTTP client hc (Some (length b)) msgs = Sent rs" if "length rs \<le> length b"
    using that assms(2-5) by (auto simp: sendBatchHTTP_def chan_send_all_def)
  have waits: "fst (BatchCallContext (\<lambda>_. None) (map Received rs) b c) = None" if "length rs < length b"
    using assms(1) batch_wait_short [OF that] by (simp add: BatchCallContext_def)
  have stored: "\<exists>b' e. BatchCallContext (\<lambda>_. None) (map Received rs) b c = (Some (Ret (None, b')), c') \<and> b' ! 0 = store_response (last rs) e \<and>
      be_unmarshal e = be_unmarshal (b ! 0)"
    if "length rs = length b" "id_key (last rs) \<notin> id_key ` set msgs"
  proof -
    let ?f = "\<lambda>r b. b[elem_index (byID msgs) r := store_response r (b ! elem_index (byID msgs) r)]"
    let ?b = "fold ?f (butlast rs) b"
    have "rs \<noteq> []" using that(1) assms(5) by auto
    then have rs: "butlast rs @ [last rs] = rs" by simp
    have "fold ?f (butlast rs @ [last rs]) b = ?f (last rs) ?b" by simp
    then have "fold ?f rs b = ?f (last rs) ?b" unfolding rs .
    moreover have "elem_index (byID msgs) (last rs) = 0" using byID_foreign [OF that(2)] by (simp add: elem_index_def)
    moreover have u: "map be_unmarshal ?b = map be_unmarshal b" by (rule fold_store_unmarshal)
    moreover have "length ?b = length b" using u by (rule map_eq_imp_length_eq)
    moreover have "be_unmarshal (?b ! 0) = be_unmarshal (b ! 0)"
    proof -
      from arg_cong [OF u, of "\<lambda>xs. xs ! 0"] \<open>length ?b = length b\<close> assms(5) show ?thesis
        using nth_map [of 0 ?b be_unmarshal] nth_map [of 0 b be_unmarshal] by simp
    qed
    moreover have "BatchCallContext (\<lambda>_. None) (map Received rs) b c = (Some (Ret (None, fold ?f rs b)), c')"
      using assms(1) batch_wait_received [of "byID msgs" rs "[]" b] that(1) by (simp add: BatchCallContext_def)
    ultimately show ?thesis using assms(5) by auto
  qed
  show ?thesis using blocked sent waits stored by auto
qed

theorem http_batch_unchecked_witness:
  "let elem = (\<lambda>m. \<lparr>be_Method = m, be_Args = None, be_Dest = DPtr False Inr, be_Result = None, be_Error = None\<rparr>);
       ok = zero_message\<lparr>ID := Some (JNum ''1''), Result := Some (JNum ''7'')\<rparr>;
       stray = zero_message\<lparr>ID := Some JNull, Result := Some (JNum ''8'')\<rparr> in
   \<exists>b'. BatchCallContext (\<lambda>_. None) [Received ok, Received stray] [elem ''a_b'', elem ''a_c''] 0 = (Some (Ret (None, b')), 2) \<and>
     be_Result (b' ! 0) = Some (JNum ''8'')"
proof -
  let ?e = "\<lambda>m. \<lparr>be_Method = m, be_Args = None, be_Dest = DPtr False Inr, be_Result = None, be_Error = None\<rparr> :: json BatchElem"
  let ?ok = "zero_message\<lparr>ID := Some (JNum ''1''), Result := Some (JNum ''7'')\<rparr>"
  let ?stray = "zero_message\<lparr>ID := Some JNull, Result := Some (JNum ''8'')\<rparr>"
  let ?j = "JArr [JObj [(''id'', JNum ''1''), (''result'', JNum ''7'')], JObj [(''id'', JNull), (''result'', JNum ''8'')]]"
  let ?client = "\<lparr>new_request = (\<lambda>_. None), http_Do = (\<lambda>_. Inr \<lparr>StatusCode = 200, Status = [], resp_All = Inr [], resp_First = Inr ?j\<rparr>)\<rparr>"
  let ?hc = "\<lparr>hc_url = [], hc_closed = False, hc_headers = []\<rparr>"
  let ?m = "\<lambda>i m. zero_message\<lparr>Version := vsn, ID := Some (JNum i), Method := m\<rparr>"
  have n: "new_messages [?e ''a_b'', ?e ''a_c''] 0 = (Inr [?m ''1'' ''a_b'', ?m ''2'' ''a_c''], 2)"
    by code_simp
  have d: "doRequest ?client ?hc (WBatch [?m ''1'' ''a_b'', ?m ''2'' ''a_c'']) = Inr \<lparr>StatusCode = 200, Status = [], resp_All = Inr [], resp_First = Inr ?j\<rparr>"
    by (simp add: doRequest_def)
  have j: "decode_messages ?j = Inr [?ok, ?stray]" by code_simp
  have "id_key ?stray \<notin> id_key ` set [?m ''1'' ''a_b'', ?m ''2'' ''a_c'']" by (simp add: id_key_def)
  moreover have u: "be_unmarshal (?e m) = Inr" for m by (rule ext) (simp add: be_unmarshal_def Unmarshal_into_def)
  ultimately obtain b' e where
    "BatchCallContext (\<lambda>_. None) [Received ?ok, Received ?stray] [?e ''a_b'', ?e ''a_c''] 0 = (Some (Ret (None, b')), 2)"
    "b' ! 0 = store_response ?stray e" "be_unmarshal e = Inr" using http_batch_unchecked [OF n d _ j] by auto
  then show ?thesis by (auto simp: Let_def store_response_def zero_message_def)
qed

end
