(* ===== verification/Rpc_Websocket.thy ===== *)
theory Rpc_Websocket
  imports Go_Url Rpc_Http
begin

text \<open>
  JSON-RPC over websockets (src/util/rpc/websocket.go): the check of the Origin header, the
  headers of a client, the codec, and the loop that pings an idle connection, as a step relation
  with a clock. The websocket library, the host name of the machine and the URL of an endpoint
  without its user part are parameters; times are in nanoseconds.
\<close>

section \<open>Settings\<close>

record ws_config =
  wsPingInterval :: int
  wsPingWriteTimeout :: int
  wsPongTimeout :: int
  wsMessageSizeLimit :: int

definition ws_defaults :: ws_config where
  "ws_defaults = \<lparr>wsPingInterval = 5 * 1000000000, wsPingWriteTimeout = 10 * 1000000000, wsPongTimeout = 30 * 1000000000,
     wsMessageSizeLimit = 15 * 1024 * 1024\<rparr>"

definition SetWsPingInterval :: "int \<Rightarrow> ws_config \<Rightarrow> ws_config" where "SetWsPingInterval s c = c\<lparr>wsPingInterval := s\<rparr>"
definition SetWsPingWriteTimeout :: "int \<Rightarrow> ws_config \<Rightarrow> ws_config" where "SetWsPingWriteTimeout s c = c\<lparr>wsPingWriteTimeout := s\<rparr>"
definition SetWsPongTimeout :: "int \<Rightarrow> ws_config \<Rightarrow> ws_config" where "SetWsPongTimeout s c = c\<lparr>wsPongTimeout := s\<rparr>"
definition SetWsMessageSizeLimit :: "int \<Rightarrow> ws_config \<Rightarrow> ws_config" where "SetWsMessageSizeLimit limit c = c\<lparr>wsMessageSizeLimit := limit\<rparr>"

section \<open>Origins\<close>

definition Contains :: "string \<Rightarrow> string \<Rightarrow> bool" where
  "Contains s p \<longleftrightarrow> list_ex (\<lambda>i. take (length p) (drop i s) = p) [0..<Suc (length s)]"

definition parseOriginURL :: "string \<Rightarrow> (string \<times> string \<times> string) option" where
  "parseOriginURL origin = (case url_Parse (ToLower origin) of
     None \<Rightarrow> None
   | Some parsedURL \<Rightarrow>
       if Contains origin ''://'' then Some (Scheme parsedURL, Hostname parsedURL, Port parsedURL)
       else Some ([], if Scheme parsedURL = [] then origin else Scheme parsedURL, Opaque parsedURL))"

definition ruleAllowsOrigin :: "string \<Rightarrow> string \<Rightarrow> bool" where
  "ruleAllowsOrigin allowedOrigin browserOrigin = (case parseOriginURL allowedOrigin of
     None \<Rightarrow> False
   | Some (allowedScheme, allowedHostname, allowedPort) \<Rightarrow> (case parseOriginURL browserOrigin of
         None \<Rightarrow> False
       | Some (browserScheme, browserHostname, browserPort) \<Rightarrow>
           if allowedScheme \<noteq> [] \<and> allowedScheme \<noteq> browserScheme then False
           else if allowedHostname \<noteq> [] \<and> allowedHostname \<noteq> browserHostname then False
           else if allowedPort \<noteq> [] \<and> allowedPort \<noteq> browserPort then False
           else True))"

text \<open>The set of rules is a list without duplicates; its order does not matter.\<close>

definition originIsAllowed :: "string list \<Rightarrow> string \<Rightarrow> bool" where
  "originIsAllowed allowedOrigins browserOrigin = list_ex (\<lambda>origin. ruleAllowsOrigin origin browserOrigin) allowedOrigins"

definition origin_rules :: "string option \<Rightarrow> string list \<Rightarrow> string list" where
  "origin_rules os_Hostname allowedOrigins =
     (let origins = remdups (filter (\<lambda>origin. origin \<noteq> []) allowedOrigins) in
      if length origins = 0 then
        ''http://localhost'' # (case os_Hostname of Some hostname \<Rightarrow> [''http://'' @ hostname] | None \<Rightarrow> [])
      else origins)"

definition wsHandshakeValidator :: "string option \<Rightarrow> string list \<Rightarrow> header \<Rightarrow> bool" where
  "wsHandshakeValidator os_Hostname allowedOrigins reqHeader =
     (let origins = origin_rules os_Hostname allowedOrigins; allowAllOrigins = (''*'' \<in> set allowedOrigins) in
      if map_of reqHeader ''Origin'' = None then True
      else let origin = ToLower (header_Get reqHeader ''Origin'') in
        allowAllOrigins \<or> originIsAllowed origins origin)"

section \<open>Dialling\<close>

definition wsHandshakeError :: "rpc_error \<Rightarrow> string \<Rightarrow> rpc_error" where
  "wsHandshakeError err status = ErrString (Error err @ (if status \<noteq> [] then '' (HTTP status '' @ status @ '')'' else []))"

definition base64_char :: "nat \<Rightarrow> char" where
  "base64_char n = (if n < 26 then char_of (65 + n) else if n < 52 then char_of (71 + n) else if n < 62 then char_of (n - 4)
     else if n = 62 then CHR ''+'' else CHR ''/'')"

fun base64 :: "nat list \<Rightarrow> string" where
  "base64 [] = []"
| "base64 [a] = [base64_char (a div 4), base64_char (a mod 4 * 16), CHR ''='', CHR ''='']"
| "base64 [a, b] = [base64_char (a div 4), base64_char (a mod 4 * 16 + b div 16), base64_char (b mod 16 * 4), CHR ''='']"
| "base64 (a # b # c # rest) = base64_char (a div 4) # base64_char (a mod 4 * 16 + b div 16) #
     base64_char (b mod 16 * 4 + c div 64) # base64_char (c mod 64) # base64 rest"

definition EncodeToString :: "string \<Rightarrow> string" where
  "EncodeToString s = base64 (map of_char s)"

text \<open>
  \<open>split_url\<close> gives the text of the user part of a URL, if it has one, and the URL without it, or
  the error of \<open>url.Parse\<close>.
\<close>

definition wsClientHeaders :: "(string \<Rightarrow> rpc_error + string option \<times> string) \<Rightarrow> string \<Rightarrow> string \<Rightarrow> rpc_error + string \<times> header" where
  "wsClientHeaders split_url endpoint origin = (case split_url endpoint of
     Inl err \<Rightarrow> Inl err
   | Inr (user, bare) \<Rightarrow>
       (let header1 = (if origin \<noteq> [] then header_Set ''origin'' origin [] else []);
            header2 = (case user of None \<Rightarrow> header1
              | Some u \<Rightarrow> header_Set ''authorization'' (''Basic '' @ EncodeToString u) header1) in
        Inr (bare, header2)))"

text \<open>\<open>dial\<close> gives the connection, or an error with the status of the response if there is one.\<close>

definition ws_connect :: "(string \<Rightarrow> header \<Rightarrow> rpc_error \<times> string option + 'c) \<Rightarrow> string \<Rightarrow> header \<Rightarrow> rpc_error + 'c" where
  "ws_connect dial endpoint header = (case dial endpoint header of
     Inl (err, resp) \<Rightarrow> Inl (wsHandshakeError err (case resp of Some status \<Rightarrow> status | None \<Rightarrow> []))
   | Inr conn \<Rightarrow> Inr conn)"

definition DialWebsocketWithDialer :: "(string \<Rightarrow> rpc_error + string option \<times> string) \<Rightarrow>
    (string \<Rightarrow> header \<Rightarrow> rpc_error \<times> string option + 'c) \<Rightarrow> string \<Rightarrow> string \<Rightarrow> rpc_error + 'c" where
  "DialWebsocketWithDialer split_url dial endpoint origin = (case wsClientHeaders split_url endpoint origin of
     Inl err \<Rightarrow> Inl err
   | Inr (endpoint', header) \<Rightarrow> ws_connect dial endpoint' header)"

text \<open>The dialer of \<open>DialWebsocket\<close> has buffers of a fixed size.\<close>

definition wsReadBuffer :: nat where "wsReadBuffer = 1024"
definition wsWriteBuffer :: nat where "wsWriteBuffer = 1024"

definition DialWebsocket :: "(string \<Rightarrow> rpc_error + string option \<times> string) \<Rightarrow>
    (nat \<Rightarrow> nat \<Rightarrow> string \<Rightarrow> header \<Rightarrow> rpc_error \<times> string option + 'c) \<Rightarrow> string \<Rightarrow> string \<Rightarrow> rpc_error + 'c" where
  "DialWebsocket split_url new_dialer endpoint origin =
     DialWebsocketWithDialer split_url (new_dialer wsReadBuffer wsWriteBuffer) endpoint origin"

section \<open>The codec\<close>

definition ws_peer :: "string \<Rightarrow> string \<Rightarrow> header \<Rightarrow> PeerInfo" where
  "ws_peer addr host req = zero_PeerInfo\<lparr>Transport := ''ws'', RemoteAddr := addr, HTTP_Host := host,
     HTTP_Origin := header_Get req ''Origin'', HTTP_UserAgent := header_Get req ''User-Agent''\<rparr>"

text \<open>
  \<open>upgrade\<close> is the library's handshake, which is given the check of the origin and the headers of
  the request and yields the address of the peer; the connection is then served.
\<close>

definition WebsocketHandler :: "string option \<Rightarrow> ((header \<Rightarrow> bool) \<Rightarrow> header \<Rightarrow> rpc_error + string) \<Rightarrow> string list \<Rightarrow> string \<Rightarrow> header \<Rightarrow>
    PeerInfo option" where
  "WebsocketHandler os_Hostname upgrade allowedOrigins host reqHeader =
     (case upgrade (wsHandshakeValidator os_Hostname allowedOrigins) reqHeader of
        Inl err \<Rightarrow> None
      | Inr addr \<Rightarrow> Some (ws_peer addr host reqHeader))"

text \<open>
  The timer of the loop: armed at a time and still running, fired with its value in the channel,
  or drained. The channel \<open>pingReset\<close> has room for one value. The goroutine of the loop is at its
  select, has written a ping and not yet rearmed the timer, or has returned.
\<close>

datatype ws_timer = Running int | Fired int | Drained

datatype ping_pc = AtSelect | Pinging | LoopReturned

record ws_codec =
  ws_now :: int
  ws_timer :: ws_timer
  ws_pingReset :: bool
  ws_closed :: bool
  ws_pc :: ping_pc
  ws_pings :: "int list"
  ws_readDeadline :: "int option"

definition newWebsocketCodec :: "int \<Rightarrow> ws_codec" where
  "newWebsocketCodec now = \<lparr>ws_now = now, ws_timer = Running now, ws_pingReset = False, ws_closed = False, ws_pc = AtSelect,
     ws_pings = [], ws_readDeadline = None\<rparr>"

text \<open>The close of the codec below; it returns when the loop has.\<close>

definition websocket_close :: "ws_codec \<Rightarrow> ws_codec" where
  "websocket_close s = s\<lparr>ws_closed := True\<rparr>"

interpretation ws_codec: server_codec websocket_close ws_closed
  by unfold_locales (simp_all add: websocket_close_def)

text \<open>\<open>err\<close> is the error of the codec below.\<close>

definition websocket_writeJSON :: "rpc_error option \<Rightarrow> ws_codec \<Rightarrow> ws_codec" where
  "websocket_writeJSON err s = (if err = None then s\<lparr>ws_pingReset := True\<rparr> else s)"

text \<open>\<open>if !timer.Stop() { <-timer.C }; timer.Reset\<close>: nothing can be received from a drained timer, \<open>None\<close>.\<close>

definition rearm :: "ws_codec \<Rightarrow> ws_codec option" where
  "rearm s = (case ws_timer s of Drained \<Rightarrow> None | _ \<Rightarrow> Some (s\<lparr>ws_timer := Running (ws_now s)\<rparr>))"

inductive ping_step :: "ws_config \<Rightarrow> ws_codec \<Rightarrow> ws_codec \<Rightarrow> bool" for cfg where
  p_closed: "ws_pc s = AtSelect \<Longrightarrow> ws_closed s \<Longrightarrow> ping_step cfg s (s\<lparr>ws_timer := Drained, ws_pc := LoopReturned\<rparr>)"
| p_reset: "ws_pc s = AtSelect \<Longrightarrow> ws_pingReset s \<Longrightarrow> rearm (s\<lparr>ws_pingReset := False\<rparr>) = Some t \<Longrightarrow> ping_step cfg s t"
| p_ping: "ws_pc s = AtSelect \<Longrightarrow> ws_timer s = Fired a \<Longrightarrow>
     ping_step cfg s (s\<lparr>ws_timer := Drained, ws_pc := Pinging, ws_pings := ws_now s # ws_pings s\<rparr>)"
| p_rearm: "ws_pc s = Pinging \<Longrightarrow>
     ping_step cfg s (s\<lparr>ws_readDeadline := Some (ws_now s + wsPongTimeout cfg), ws_timer := Running (ws_now s), ws_pc := AtSelect\<rparr>)"

text \<open>What happens around the loop: time, the timer, writes, pongs, and the close of the codec.\<close>

inductive ws_step :: "ws_config \<Rightarrow> ws_codec \<Rightarrow> ws_codec \<Rightarrow> bool" for cfg where
  w_loop: "ping_step cfg s t \<Longrightarrow> ws_step cfg s t"
| w_tick: "0 \<le> d \<Longrightarrow> ws_step cfg s (s\<lparr>ws_now := ws_now s + d\<rparr>)"
| w_fire: "ws_timer s = Running a \<Longrightarrow> a + wsPingInterval cfg \<le> ws_now s \<Longrightarrow> ws_step cfg s (s\<lparr>ws_timer := Fired a\<rparr>)"
| w_write: "ws_step cfg s (websocket_writeJSON err s)"
| w_pong: "ws_step cfg s (s\<lparr>ws_readDeadline := None\<rparr>)"
| w_close: "ws_step cfg s (websocket_close s)"

inductive_cases ping_stepE: "ping_step cfg s t"
inductive_cases ws_stepE: "ws_step cfg s t"

fun spaced :: "int \<Rightarrow> int list \<Rightarrow> bool" where
  "spaced i (a # b # ts) \<longleftrightarrow> b + i \<le> a \<and> spaced i (b # ts)"
| "spaced i _ \<longleftrightarrow> True"

section \<open>Lemmas\<close>

definition ws_inv :: "ws_config \<Rightarrow> ws_codec \<Rightarrow> bool" where
  "ws_inv cfg s \<longleftrightarrow> spaced (wsPingInterval cfg) (ws_pings s) \<and>
     (case ws_pings s of [] \<Rightarrow> True | p # _ \<Rightarrow> p \<le> ws_now s \<and> (case ws_timer s of Running a \<Rightarrow> p \<le> a | Fired a \<Rightarrow> p \<le> a | Drained \<Rightarrow> True)) \<and>
     (case ws_timer s of Running a \<Rightarrow> a \<le> ws_now s | Fired a \<Rightarrow> a + wsPingInterval cfg \<le> ws_now s | Drained \<Rightarrow> True) \<and>
     (ws_timer s = Drained \<longleftrightarrow> ws_pc s \<noteq> AtSelect) \<and> (ws_pc s = LoopReturned \<longrightarrow> ws_closed s)"

lemma rearm_SomeD: "rearm s = Some t \<Longrightarrow> t = s\<lparr>ws_timer := Running (ws_now s)\<rparr> \<and> ws_timer s \<noteq> Drained"
  by (auto simp: rearm_def split: ws_timer.splits)

lemma ws_inv_step: "ws_inv cfg s \<Longrightarrow> ws_step cfg s t \<Longrightarrow> ws_inv cfg t"
proof (erule ws_stepE)
  assume inv: "ws_inv cfg s"
  show "ws_inv cfg t" if "ping_step cfg s t"
    using that
  proof cases
    case p_reset
    with inv rearm_SomeD [OF p_reset(3)] show ?thesis
      by (cases "ws_pings s"; cases "ws_timer s") (simp_all add: ws_inv_def)
  next
    case p_ping
    with inv show ?thesis by (cases "ws_pings s") (simp_all add: ws_inv_def)
  qed (use inv in \<open>cases "ws_pings s"; cases "ws_timer s"; simp add: ws_inv_def\<close>)+
qed (cases "ws_pings s"; cases "ws_timer s"; simp add: ws_inv_def websocket_writeJSON_def websocket_close_def)+

interpretation ws_sys: step_system "\<lambda>s. \<exists>now. s = newWebsocketCodec now" "ws_step cfg" "ws_inv cfg" for cfg
proof unfold_locales
  show "ws_inv cfg s" if "\<exists>now. s = newWebsocketCodec now" for s
    using that by (auto simp: ws_inv_def newWebsocketCodec_def)
qed (rule ws_inv_step)

lemma Contains_mid: "Contains (a @ p @ b) p"
  by (auto simp: Contains_def list_ex_iff intro!: bexI [of _ "length a"])

lemma Contains_set: "Contains s p \<Longrightarrow> set p \<subseteq> set s"
  by (auto simp: Contains_def list_ex_iff) (metis in_set_dropD in_set_takeD)

lemma ToLower_browser:
  assumes "plain_port p"
  shows "ToLower (s @ ''://'' @ h @ port_suffix p) = ToLower s @ ''://'' @ ToLower h @ port_suffix p"
  using assms by (simp add: ToLower_port ToLower_append ToLower_Cons lower_char_def)

lemma parse_full:
  assumes "plain_scheme s" "plain h" "plain_port p"
  shows "parseOriginURL (s @ ''://'' @ h @ port_suffix p) = Some (ToLower s, ToLower h, case p of None \<Rightarrow> [] | Some d \<Rightarrow> d)"
proof -
  have "ToLower (s @ ''://'' @ h @ port_suffix p) = ToLower s @ ''://'' @ ToLower h @ port_suffix p"
    by (rule ToLower_browser [OF assms(3)])
  then show ?thesis
    using url_Parse_full [of "ToLower s" "ToLower h" p] splitHostPort_plain [of "ToLower h" p] assms Contains_mid [of s "''://''"]
    by (simp add: parseOriginURL_def url_of_def Hostname_def Port_def)
qed

lemma parse_bare:
  assumes "plain h"
  shows "parseOriginURL h = Some ([], h, [])"
proof -
  have "\<not> Contains h ''://''"
    using assms Contains_set [of h "''://''"] plain_char_excludes(1) by (auto simp: plain_def list_all_iff)
  then show ?thesis using url_Parse_bare [of "ToLower h"] assms by (simp add: parseOriginURL_def url_of_def)
qed

lemma parse_host_port:
  assumes "plain h" "list_all is_digit d"
  shows "parseOriginURL (h @ CHR '':'' # d) = (if is_alpha (hd h) then Some ([], ToLower h, d) else None)"
proof -
  have "plain_char c \<or> c = CHR '':''" if "c \<in> set (h @ CHR '':'' # d)" for c
    using that assms digit_plain by (auto simp: plain_def list_all_iff)
  then have "\<not> Contains (h @ CHR '':'' # d) ''://''"
    using Contains_set [of "h @ CHR '':'' # d" "''://''"] plain_char_excludes(2) by fastforce
  moreover have "ToLower (h @ CHR '':'' # d) = ToLower h @ CHR '':'' # d"
    using assms(2) by (simp add: ToLower_digits ToLower_append ToLower_Cons lower_char_def)
  moreover have "is_alpha (hd (ToLower h)) = is_alpha (hd h)" "ToLower h \<noteq> []"
    using assms(1) by (auto simp: plain_def ToLower_def hd_map lower_alpha)
  ultimately show ?thesis
    using url_Parse_host_port [of "ToLower h" d] assms by (simp add: parseOriginURL_def url_of_def)
qed

definition port_of :: "string option \<Rightarrow> string" where
  "port_of p = (case p of None \<Rightarrow> [] | Some d \<Rightarrow> d)"

lemma parse_browser:
  assumes "plain_scheme s" "plain h" "plain_port p"
  shows "parseOriginURL (ToLower (s @ ''://'' @ h @ port_suffix p)) = Some (ToLower s, ToLower h, port_of p)"
  unfolding ToLower_browser [OF assms(3)] using parse_full [of "ToLower s" "ToLower h" p] assms by (simp add: port_of_def)

lemma nonempty_plain: "plain s \<Longrightarrow> s \<noteq> [] \<and> ToLower s \<noteq> []" "plain_scheme s \<Longrightarrow> s \<noteq> [] \<and> ToLower s \<noteq> []"
  by (auto simp: plain_scheme_def plain_def ToLower_def)

lemma rule_full:
  assumes "plain_scheme s" "plain h" "plain_port p" "plain_scheme s'" "plain h'" "plain_port p'"
  shows "ruleAllowsOrigin (s @ ''://'' @ h @ port_suffix p) (ToLower (s' @ ''://'' @ h' @ port_suffix p')) \<longleftrightarrow>
    ToLower s = ToLower s' \<and> ToLower h = ToLower h' \<and> (port_of p = [] \<or> port_of p = port_of p')"
  unfolding ruleAllowsOrigin_def parse_browser [OF assms(4-6)] parse_full [OF assms(1-3)]
  using nonempty_plain assms by (auto simp: port_of_def)

section \<open>Properties\<close>

text \<open>C34. What an origin rule allows. Against the origin a browser sends, a rule with a scheme
  demands the same scheme and host, up to case, and the same port if it names one. A rule that is
  only a host is compared as it is written with the host in lower case, so one with a capital
  letter allows nothing. A rule of a host and a port demands both, but allows nothing if the host
  starts with a digit, as an IP address does.\<close>

theorem origin_rule_meaning:
  assumes "plain_scheme s'" "plain h'" "plain_port p'" and "plain_scheme s" "plain h" "plain_port p" and "list_all is_digit d"
  shows "let browser = ToLower (s' @ ''://'' @ h' @ port_suffix p') in
    (ruleAllowsOrigin (s @ ''://'' @ h @ port_suffix p) browser \<longleftrightarrow>
       ToLower s = ToLower s' \<and> ToLower h = ToLower h' \<and> (port_of p = [] \<or> port_of p = port_of p')) \<and>
    (ruleAllowsOrigin h browser \<longleftrightarrow> h = ToLower h') \<and>
    (ruleAllowsOrigin (h @ CHR '':'' # d) browser \<longleftrightarrow> is_alpha (hd h) \<and> ToLower h = ToLower h' \<and> (d = [] \<or> d = port_of p'))"
proof -
  have "ruleAllowsOrigin h (ToLower (s' @ ''://'' @ h' @ port_suffix p')) \<longleftrightarrow> h = ToLower h'"
    unfolding ruleAllowsOrigin_def parse_browser [OF assms(1-3)] parse_bare [OF assms(5)] using nonempty_plain assms(5) by auto
  moreover have "ruleAllowsOrigin (h @ CHR '':'' # d) (ToLower (s' @ ''://'' @ h' @ port_suffix p')) \<longleftrightarrow>
      is_alpha (hd h) \<and> ToLower h = ToLower h' \<and> (d = [] \<or> d = port_of p')"
    unfolding ruleAllowsOrigin_def parse_browser [OF assms(1-3)] parse_host_port [OF assms(5,7)] using nonempty_plain assms(5) by auto
  ultimately show ?thesis using rule_full [OF assms(4-6) assms(1-3)] unfolding Let_def by blast
qed

theorem origin_rule_meaning_witness:
  "\<not> ruleAllowsOrigin ''Example.org'' (ToLower ''https://Example.org:80'') \<and>
   \<not> ruleAllowsOrigin ''127.0.0.1:80'' (ToLower ''http://127.0.0.1:80'') \<and>
   ruleAllowsOrigin ''HTTP://Example.org'' (ToLower ''http://example.ORG:80'')"
proof -
  have h: "plain ''Example.org''" "plain ''example.ORG''" "plain ''127.0.0.1''" "plain_scheme ''http''" "plain_scheme ''HTTP''" "plain_scheme ''https''"
    "plain_port (Some ''80'')" "plain_port None" "list_all is_digit ''80''" by code_simp+
  have l: "ToLower ''HTTP'' = ToLower ''http''" "ToLower ''Example.org'' = ToLower ''example.ORG''" "''Example.org'' \<noteq> ToLower ''Example.org''"
    "\<not> is_alpha (CHR ''1'')" by code_simp+
  note [simp] = port_suffix_def port_of_def
  have "\<not> ruleAllowsOrigin ''Example.org'' (ToLower ''https://Example.org:80'')"
    using origin_rule_meaning [OF h(6,1,7,6,1,8,9)] l(3) by (simp only: Let_def) simp
  moreover have "\<not> ruleAllowsOrigin ''127.0.0.1:80'' (ToLower ''http://127.0.0.1:80'')"
    using origin_rule_meaning [OF h(4,3,7,4,3,8,9)] l(4) by (simp only: Let_def) simp
  moreover have "ruleAllowsOrigin ''HTTP://Example.org'' (ToLower ''http://example.ORG:80'')"
    using origin_rule_meaning [OF h(4,2,7,5,1,8,9)] l(1,2) by (simp only: Let_def) simp
  ultimately show ?thesis by blast
qed

text \<open>Without configured origins, only pages of this machine may connect: a request that has an
  Origin header with a scheme, a host and perhaps a port is accepted exactly if it is http from
  \<open>localhost\<close> or from the host name of the machine, on any port.\<close>

theorem default_origins:
  assumes "plain_scheme s" "plain h" "plain_port p" and "plain hostname"
    and "map_of reqHeader ''Origin'' = Some (s @ ''://'' @ h @ port_suffix p)"
  shows "wsHandshakeValidator (Some hostname) [] reqHeader \<longleftrightarrow>
    ToLower s = ''http'' \<and> (ToLower h = ''localhost'' \<or> ToLower h = ToLower hostname)"
proof -
  let ?o = "ToLower (s @ ''://'' @ h @ port_suffix p)"
  have http: "plain_scheme ''http''" "plain ''localhost''" "ToLower ''http'' = ''http''" "ToLower ''localhost'' = ''localhost''" by code_simp+
  have n: "plain_port None" by (simp add: plain_port_def)
  have c: "CanonicalHeaderKey ''Origin'' = ''Origin''" by code_simp
  have "header_Get reqHeader ''Origin'' = s @ ''://'' @ h @ port_suffix p" unfolding header_Get_def c assms(5) by simp
  then have v: "wsHandshakeValidator (Some hostname) [] reqHeader \<longleftrightarrow> originIsAllowed [''http://localhost'', ''http://'' @ hostname] ?o"
    unfolding wsHandshakeValidator_def assms(5) by (simp add: origin_rules_def)
  have r: "ruleAllowsOrigin (''http'' @ ''://'' @ k @ port_suffix None) ?o \<longleftrightarrow> ''http'' = ToLower s \<and> ToLower k = ToLower h" if "plain k" for k
    using rule_full [OF http(1) that n assms(1-3)] http(3) by (simp add: port_of_def)
  have "ruleAllowsOrigin ''http://localhost'' ?o \<longleftrightarrow> ''http'' = ToLower s \<and> ''localhost'' = ToLower h"
    using r [OF http(2)] http(4) by (simp add: port_suffix_def)
  moreover have "ruleAllowsOrigin (''http://'' @ hostname) ?o \<longleftrightarrow> ''http'' = ToLower s \<and> ToLower hostname = ToLower h"
    using r [OF assms(4)] by (simp add: port_suffix_def)
  ultimately show ?thesis unfolding v originIsAllowed_def by auto
qed

theorem default_origins_witness:
  "wsHandshakeValidator (Some ''box'') [] [(''Origin'', ''HTTP://Box:8080'')] \<and>
   \<not> wsHandshakeValidator (Some ''box'') [] [(''Origin'', ''http://evil.org'')]"
proof -
  have h: "plain_scheme ''HTTP''" "plain ''Box''" "plain_port (Some ''8080'')" "plain ''box''" "plain_scheme ''http''" "plain ''evil.org''" "plain_port None"
    "ToLower ''HTTP'' = ''http''" "ToLower ''Box'' = ToLower ''box''" "ToLower ''evil.org'' \<noteq> ''localhost''" "ToLower ''evil.org'' \<noteq> ToLower ''box''"
    by code_simp+
  have "wsHandshakeValidator (Some ''box'') [] [(''Origin'', ''HTTP://Box:8080'')]"
    using default_origins [OF h(1-4), of "[(''Origin'', ''HTTP://Box:8080'')]"] h(8,9) by (simp add: port_suffix_def)
  moreover have "\<not> wsHandshakeValidator (Some ''box'') [] [(''Origin'', ''http://evil.org'')]"
    using default_origins [OF h(5,6,7,4), of "[(''Origin'', ''http://evil.org'')]"] h(10,11) by (simp add: port_suffix_def)
  ultimately show ?thesis by blast
qed

text \<open>C35. Pings: in every run the times at which the loop pings are at least the ping interval apart,
  the loop never waits on a timer that has nothing to give, and whenever the codec has been closed
  the loop can return within two steps of its own, so the close, which waits for it, ends.\<close>

theorem ping_loop_ok:
  assumes "(ws_step cfg)\<^sup>*\<^sup>* (newWebsocketCodec now) s"
  shows "spaced (wsPingInterval cfg) (ws_pings s) \<and>
    (ws_pc s = AtSelect \<longrightarrow> rearm s \<noteq> None) \<and>
    (ws_closed s \<longrightarrow> (\<exists>t. (t = s \<or> ping_step cfg s t \<or> (\<exists>u. ping_step cfg s u \<and> ping_step cfg u t)) \<and> ws_pc t = LoopReturned))"
proof -
  have inv: "ws_inv cfg s" by (rule ws_sys.inv_reachable [OF _ assms]) blast
  have ret: "\<exists>t. ping_step cfg u t \<and> ws_pc t = LoopReturned" if "ws_pc u = AtSelect" "ws_closed u" for u
    using p_closed [OF that, of cfg] by (intro exI [of _ "u\<lparr>ws_timer := Drained, ws_pc := LoopReturned\<rparr>"]) simp
  have "\<exists>t. (t = s \<or> ping_step cfg s t \<or> (\<exists>u. ping_step cfg s u \<and> ping_step cfg u t)) \<and> ws_pc t = LoopReturned" if c: "ws_closed s"
  proof (cases "ws_pc s")
    case Pinging
    let ?u = "s\<lparr>ws_readDeadline := Some (ws_now s + wsPongTimeout cfg), ws_timer := Running (ws_now s), ws_pc := AtSelect\<rparr>"
    have "ping_step cfg s ?u" by (rule p_rearm [OF Pinging])
    moreover obtain t where "ping_step cfg ?u t" "ws_pc t = LoopReturned" using ret [of ?u] c by auto
    ultimately show ?thesis by blast
  qed (use ret [of s] c in auto)
  moreover have "ws_pc s = AtSelect \<Longrightarrow> rearm s \<noteq> None" using inv by (auto simp: ws_inv_def rearm_def split: ws_timer.splits)
  ultimately show ?thesis using inv by (simp add: ws_inv_def)
qed

theorem ping_loop_ok_witness:
  "\<exists>s. (ws_step ws_defaults)\<^sup>*\<^sup>* (newWebsocketCodec 0) s \<and> ws_pings s = [5000000000] \<and> spaced 5000000000 (ws_pings s) \<and>
     (\<exists>t. (t = s \<or> ping_step ws_defaults s t \<or> (\<exists>u. ping_step ws_defaults s u \<and> ping_step ws_defaults u t)) \<and> ws_pc t = LoopReturned)"
proof -
  let ?a = "newWebsocketCodec 0"
  let ?b = "?a\<lparr>ws_now := ws_now ?a + 5000000000\<rparr>"
  let ?c = "?b\<lparr>ws_timer := Fired 0\<rparr>"
  let ?d = "?c\<lparr>ws_timer := Drained, ws_pc := Pinging, ws_pings := ws_now ?c # ws_pings ?c\<rparr>"
  let ?e = "websocket_close ?d"
  have "ws_step ws_defaults ?a ?b" by (rule w_tick) simp
  moreover have "ws_step ws_defaults ?b ?c" by (rule w_fire) (simp_all add: newWebsocketCodec_def ws_defaults_def)
  moreover have "ws_step ws_defaults ?c ?d" by (rule w_loop, rule p_ping) (simp_all add: newWebsocketCodec_def)
  moreover have "ws_step ws_defaults ?d ?e" by (rule w_close)
  ultimately have r: "(ws_step ws_defaults)\<^sup>*\<^sup>* ?a ?e" by (meson converse_rtranclp_into_rtranclp rtranclp.rtrancl_refl)
  have "ws_closed ?e" "ws_pings ?e = [5000000000]" "wsPingInterval ws_defaults = 5000000000" by (simp_all add: newWebsocketCodec_def ws_defaults_def websocket_close_def)
  with ping_loop_ok [OF r] r show ?thesis by (intro exI [of _ ?e]) simp
qed

end
