(* ===== verification/Rpc_Streams.thy ===== *)
theory Rpc_Streams
  imports Rpc_Dispatch Rpc_Websocket
begin

text \<open>
  Stream transports and the goroutine that reads from them: the read loop of a client and its
  drain (src/util/rpc/client.go), listeners and IPC endpoints (src/util/rpc/ipc.go, ipc_unix.go,
  ipc_windows.go, ipc_js.go), the client on standard input and output (src/util/rpc/stdio.go) and
  inside one process (src/util/rpc/inproc.go), and the counters and timers of served calls
  (src/util/rpc/metrics.go). Calls of the operating system are recorded, with their outcomes as
  arguments.
\<close>

section \<open>Reading\<close>

text \<open>
  What \<open>readBatch\<close> gives, an error with whether it is a syntax error of JSON; and what the read loop
  does: it feeds messages and one error to the dispatcher, and may write a message to the peer.
\<close>

type_synonym read_result = "rpc_error \<times> bool + jsonrpcMessage list \<times> bool"

datatype read_event = ReadOp "jsonrpcMessage list" bool | ReadErr rpc_error | ReadWrote jsonrpcMessage

fun client_read :: "read_result list \<Rightarrow> read_event list" where
  "client_read [] = []"
| "client_read (Inl (err, syn) # _) = (if syn then [ReadWrote (errorMessage (parseError (Error err)))] else []) @ [ReadErr err]"
| "client_read (Inr (msgs, batch) # rs) = ReadOp msgs batch # client_read rs"

text \<open>
  What the reader of a stream gets from the text on it. Whether an error of the decoder is a
  \<open>json.SyntaxError\<close>, and not the end of the stream within a value, is an argument.
\<close>

definition stream_reads :: "(rpc_error \<Rightarrow> bool) \<Rightarrow> string \<Rightarrow> read_result list" where
  "stream_reads syn s = map (map_sum (\<lambda>err. (err, syn err)) id) (stream_batches s)"

fun read_of :: "wire \<Rightarrow> read_event" where
  "read_of (WMsg m) = ReadOp [m] False"
| "read_of (WBatch ms) = ReadOp ms True"

text \<open>\<open>drainRead\<close> takes what is sent to the dispatcher; \<open>None\<close> while it waits for more.\<close>

fun drainRead :: "read_event list \<Rightarrow> read_event list option" where
  "drainRead [] = None"
| "drainRead (ReadErr _ # evs) = Some evs"
| "drainRead (_ # evs) = drainRead evs"

text \<open>\<open>newClientConn\<close>: the values of the context of a new connection.\<close>

definition newClientConn :: "'c \<Rightarrow> PeerInfo \<Rightarrow> 'c ctx_value list" where
  "newClientConn c info = [PeerValue info, ClientValue c]"

definition codec_peerInfo :: "jsonCodec \<Rightarrow> PeerInfo" where
  "codec_peerInfo c = zero_PeerInfo\<lparr>Transport := ''ipc'', RemoteAddr := remote c\<rparr>"

text \<open>The handler of a connection and its codec are closed together, the handler first.\<close>

definition clientConn_close :: "('x, 'v) handler \<Rightarrow> rpc_error option \<Rightarrow> nat option \<Rightarrow> ('x, 'v) hstate \<times> jsonCodec \<Rightarrow> ('x, 'v) hstate \<times> jsonCodec" where
  "clientConn_close h err inflightReq cc = (handler_close h err inflightReq (fst cc), codec_close (snd cc))"

text \<open>A client that is not an HTTP client starts its dispatcher.\<close>

definition initClient :: "bool \<Rightarrow> (nat \<Rightarrow> requestOp) \<Rightarrow> (nat \<Rightarrow> 'v ClientSubscription) \<Rightarrow> 'v dispatcher option" where
  "initClient isHTTP ops subs = (if \<not> isHTTP then Some (dispatch_init ops subs) else None)"

text \<open>\<open>Close\<close> of a client, as the dispatcher sees it; an HTTP client has none, and one that has quit is left alone.\<close>

definition Client_Close :: "bool \<Rightarrow> (nat \<Rightarrow> json option \<Rightarrow> rpc_error + 'v) \<Rightarrow> 'v dispatcher \<Rightarrow> 'v dispatcher" where
  "Client_Close isHTTP un d = (if isHTTP then d else if quit d then d else on_close un d)"

section \<open>Clients\<close>

text \<open>\<open>newClient\<close> opens the first connection with the function it keeps for reconnections.\<close>

definition newClient :: "('w, rpc_error + 'c) prog \<Rightarrow> ('w, rpc_error + 'c \<times> ('w, rpc_error + 'c) prog) prog" where
  "newClient connect = bindP connect (\<lambda>res. case res of
     Inl err \<Rightarrow> returnP (Inl err)
   | Inr conn \<Rightarrow> returnP (Inr (conn, connect)))"

text \<open>Connections by their remote address; \<open>dial\<close> opens a socket or pipe.\<close>

definition DialIPC :: "(string \<Rightarrow> ('w, rpc_error + string option) prog) \<Rightarrow> string \<Rightarrow> ('w, rpc_error + jsonCodec \<times> ('w, rpc_error + jsonCodec) prog) prog" where
  "DialIPC newIPCConnection endpoint = newClient (bindP (newIPCConnection endpoint) (\<lambda>res. case res of
     Inl err \<Rightarrow> returnP (Inl err)
   | Inr addr \<Rightarrow> returnP (Inr (NewCodec addr))))"

definition stdio_RemoteAddr :: string where "stdio_RemoteAddr = ''/dev/stdin''"

definition stdio_SetWriteDeadline :: "int \<Rightarrow> rpc_error option" where
  "stdio_SetWriteDeadline t = Some (ErrString ''set stdio: deadline not supported'')"

definition DialIO :: "('w, rpc_error + jsonCodec \<times> ('w, rpc_error + jsonCodec) prog) prog" where
  "DialIO = newClient (returnP (Inr (NewCodec (Some stdio_RemoteAddr))))"

definition DialStdIO :: "('w, rpc_error + jsonCodec \<times> ('w, rpc_error + jsonCodec) prog) prog" where
  "DialStdIO = DialIO"

text \<open>The other end of the pipe is given to the server; the state is the list of the codecs it serves.\<close>

definition DialInProc :: "(jsonCodec list, rpc_error + jsonCodec \<times> (jsonCodec list, rpc_error + jsonCodec) prog) prog" where
  "DialInProc = newClient (\<lambda>served. (Ret (Inr (NewCodec None)), served @ [NewCodec None]))"

section \<open>Listeners and endpoints\<close>

text \<open>
  The results of \<open>Accept\<close> in their order; \<open>IsTemporaryError\<close> is a function of another package. The
  result has the codecs that are served and the error returned, \<open>None\<close> while it waits.
\<close>

fun ServeListener :: "(rpc_error \<Rightarrow> bool) \<Rightarrow> (rpc_error + string option) list \<Rightarrow> jsonCodec list \<times> rpc_error option" where
  "ServeListener IsTemporaryError [] = ([], None)"
| "ServeListener IsTemporaryError (Inl err # rs) = (if IsTemporaryError err then ServeListener IsTemporaryError rs else ([], Some err))"
| "ServeListener IsTemporaryError (Inr conn # rs) = (let (codecs, e) = ServeListener IsTemporaryError rs in (NewCodec conn # codecs, e))"

datatype os_call = MkdirAll string nat | RemoveFile string | ListenUnix string | Chmod string nat

text \<open>A path that is too long is warned about, which does not stop the start; the size is that without cgo.\<close>

definition max_path_size :: nat where "max_path_size = 108"

definition ipc_path_warning :: "string \<Rightarrow> string option" where
  "ipc_path_warning endpoint = (if length endpoint > max_path_size
     then Some (''The ipc endpoint is longer than '' @ show_nat max_path_size @ '' characters. '') else None)"

definition ipcListen :: "(string \<Rightarrow> string) \<Rightarrow> rpc_error option \<Rightarrow> rpc_error + 'l \<Rightarrow> string \<Rightarrow> os_call list \<times> (rpc_error + 'l)" where
  "ipcListen filepath_Dir mkdir listen endpoint =
     (case mkdir of
        Some err \<Rightarrow> ([MkdirAll (filepath_Dir endpoint) 489], Inl err)
      | None \<Rightarrow> (case listen of
            Inl err \<Rightarrow> ([MkdirAll (filepath_Dir endpoint) 489, RemoveFile endpoint, ListenUnix endpoint], Inl err)
          | Inr l \<Rightarrow> ([MkdirAll (filepath_Dir endpoint) 489, RemoveFile endpoint, ListenUnix endpoint, Chmod endpoint 384], Inr l)))"

definition errNotSupported :: rpc_error where "errNotSupported = ErrString ''rpc: not supported''"

definition ipcListen_js :: "string \<Rightarrow> rpc_error + 'l" where "ipcListen_js endpoint = Inl errNotSupported"

definition newIPCConnection_js :: "string \<Rightarrow> rpc_error + 'c" where "newIPCConnection_js endpoint = Inl errNotSupported"

definition defaultPipeDialTimeout :: int where "defaultPipeDialTimeout = 2 * 1000000000"

definition pipe_timeout :: "int option \<Rightarrow> int \<Rightarrow> int" where
  "pipe_timeout deadline now = (case deadline of
     None \<Rightarrow> defaultPipeDialTimeout
   | Some d \<Rightarrow> (let timeout = d - now in if timeout < 0 then 0 else timeout))"

definition newRPCServingTimer :: "string \<Rightarrow> bool \<Rightarrow> string" where
  "newRPCServingTimer method valid = ''rpc/duration/'' @ method @ ''/'' @ (if valid then ''success'' else ''failure'')"

text \<open>
  The counters of served calls and the timers that are updated. A call is counted when its method
  was found and its arguments were parsed; subscribing and unsubscribing are not.
\<close>

record rpc_gauges =
  rpcRequestGauge :: nat
  successfulRequestGauge :: nat
  failedRequestGauge :: nat
  timers_updated :: "string list"

definition counted_call :: "('x, 'v) handler \<Rightarrow> jsonrpcMessage \<Rightarrow> bool" where
  "counted_call h msg \<longleftrightarrow> \<not> isSubscribe msg \<and> \<not> isUnsubscribe msg \<and> (case lookup_callback (h_reg h) (Method msg) of
     None \<Rightarrow> False
   | Some callb \<Rightarrow> (case parsePositionalArguments (h_decode h) (h_zero h) (Params msg) (cb_argTypes callb) of Inl _ \<Rightarrow> False | Inr _ \<Rightarrow> True))"

definition collect_statistics :: "('x, 'v) handler \<Rightarrow> jsonrpcMessage \<Rightarrow> jsonrpcMessage \<Rightarrow> rpc_gauges \<Rightarrow> rpc_gauges" where
  "collect_statistics h msg answer g = (if counted_call h msg
     then g\<lparr>rpcRequestGauge := rpcRequestGauge g + 1,
       successfulRequestGauge := successfulRequestGauge g + (if MsgError answer = None then 1 else 0),
       failedRequestGauge := failedRequestGauge g + (if MsgError answer = None then 0 else 1),
       timers_updated := timers_updated g @ [''rpc/duration/all'', newRPCServingTimer (Method msg) (MsgError answer = None)]\<rparr>
     else g)"

section \<open>Lemmas\<close>

text \<open>Every counted request is a success or a failure.\<close>

lemma gauges_add_up:
  "rpcRequestGauge g = successfulRequestGauge g + failedRequestGauge g \<Longrightarrow>
   rpcRequestGauge (fold (\<lambda>(msg, answer). collect_statistics h msg answer) calls g) =
   successfulRequestGauge (fold (\<lambda>(msg, answer). collect_statistics h msg answer) calls g) +
   failedRequestGauge (fold (\<lambda>(msg, answer). collect_statistics h msg answer) calls g)"
proof (induction calls arbitrary: g)
  case (Cons c calls)
  obtain msg answer where c: "c = (msg, answer)" by (cases c)
  have "rpcRequestGauge (collect_statistics h msg answer g) = successfulRequestGauge (collect_statistics h msg answer g) +
      failedRequestGauge (collect_statistics h msg answer g)"
    using Cons.prems by (simp add: collect_statistics_def)
  from Cons.IH [OF this] show ?case by (simp add: c)
qed simp

lemma read_events:
  "client_read (map Inr ms @ Inl (err, syn) # rest) =
   map (\<lambda>(msgs, batch). ReadOp msgs batch) ms @ (if syn then [ReadWrote (errorMessage (parseError (Error err)))] else []) @ [ReadErr err]"
  by (induction ms) auto

lemma drain_ops: "drainRead (map (\<lambda>(msgs, batch). ReadOp msgs batch) ms @ evs) = drainRead evs"
  by (induction ms) auto

lemma read_encoded:
  assumes "list_all text_wire ws" and "\<not> syn EOF"
  shows "client_read (stream_reads syn (encoded ws)) = map read_of ws @ [ReadErr EOF]"
proof -
  have "stream_reads syn (encoded ws) = map Inr (map (\<lambda>w. case w of WMsg m \<Rightarrow> ([m], False) | WBatch ms \<Rightarrow> (ms, True)) ws) @ [Inl (EOF, False)]"
    using assms by (auto simp: stream_reads_def stream_batches_def decode_stream_encoded readBatch_wire list_all_iff) (simp add: readBatch_def)
  then have "client_read (stream_reads syn (encoded ws)) =
      map (\<lambda>(msgs, batch). ReadOp msgs batch) (map (\<lambda>w. case w of WMsg m \<Rightarrow> ([m], False) | WBatch ms \<Rightarrow> (ms, True)) ws) @ [ReadErr EOF]"
    by (simp only: read_events) simp
  moreover have "map (\<lambda>(msgs, batch). ReadOp msgs batch) (map (\<lambda>w. case w of WMsg m \<Rightarrow> ([m], False) | WBatch ms \<Rightarrow> (ms, True)) ws) = map read_of ws"
    by (induction ws) (auto split: wire.splits)
  ultimately show ?thesis by simp
qed

section \<open>Properties\<close>

text \<open>C12. What one side of a stream writes is what the other side's read loop hands to its dispatcher:
  messages and batches written one after the other on a connection, as text, are read back as the
  same messages and batches, in the same order, none lost, merged or split, and then the end of the
  stream; nothing is written back.\<close>

theorem stream_roundtrip:
  assumes "list_all text_wire ws" and "\<not> syn EOF"
  shows "client_read (stream_reads syn (encoded ws)) = map read_of ws @ [ReadErr EOF]"
  using assms by (rule read_encoded)

theorem stream_roundtrip_witness:
  "let call = call_message ''1'' ''a_b'' []; note = zero_message\<lparr>Version := vsn, Method := ''a<\"b''\<rparr> in
   client_read (stream_reads (\<lambda>_. False) (encoded [WMsg call, WBatch [call, note]])) =
   [ReadOp [call] False, ReadOp [call, note] True, ReadErr EOF]"
proof -
  let ?c = "call_message ''1'' ''a_b'' []" and ?n = "zero_message\<lparr>Version := vsn, Method := ''a<\"b''\<rparr>"
  obtain k where k: "maxNestingDepth = Suc (Suc (Suc (Suc k)))" by (rule nesting_room)
  have "scan_number ''1'' = Some (''1'', [])" by code_simp
  then have "text_message ?c \<and> text_message ?n"
    unfolding text_message_def k
    by (auto simp: text_json_message call_message_def zero_message_def vsn_def ascii_def wf_message_def)
  then show ?thesis using stream_roundtrip [of "[WMsg ?c, WBatch [?c, ?n]]" "\<lambda>_. False"] by (simp add: Let_def)
qed

text \<open>The read loop and its drain fit: a reader hands over the messages of the connection in order,
  up to the first error, then that error, once; only a syntax error is also answered, with a parse
  error; and a drain that starts after any number of these messages has been taken ends exactly
  with the reader, leaving nothing that would block it.\<close>

theorem read_loop_drained:
  "let evs = client_read (map Inr ms @ Inl (err, syn) # rest) in
     filter (\<lambda>e. case e of ReadOp _ _ \<Rightarrow> True | _ \<Rightarrow> False) evs = map (\<lambda>(msgs, batch). ReadOp msgs batch) ms \<and>
     filter (\<lambda>e. case e of ReadErr _ \<Rightarrow> True | _ \<Rightarrow> False) evs = [ReadErr err] \<and>
     filter (\<lambda>e. case e of ReadWrote _ \<Rightarrow> True | _ \<Rightarrow> False) evs = (if syn then [ReadWrote (errorMessage (parseError (Error err)))] else []) \<and>
     drainRead (drop (min k (length ms)) evs) = Some []"
proof -
  have "drop (min k (length ms)) (map (\<lambda>(msgs, batch). ReadOp msgs batch) ms @ evs) = map (\<lambda>(msgs, batch). ReadOp msgs batch) (drop k ms) @ evs" for evs
    by (simp add: drop_map min_def)
  moreover have "filter (\<lambda>e. case e of ReadOp _ _ \<Rightarrow> True | _ \<Rightarrow> False) (map (\<lambda>(msgs, batch). ReadOp msgs batch) ms) = map (\<lambda>(msgs, batch). ReadOp msgs batch) ms"
    "filter (\<lambda>e. case e of ReadErr _ \<Rightarrow> True | _ \<Rightarrow> False) (map (\<lambda>(msgs, batch). ReadOp msgs batch) ms) = []"
    "filter (\<lambda>e. case e of ReadWrote _ \<Rightarrow> True | _ \<Rightarrow> False) (map (\<lambda>(msgs, batch). ReadOp msgs batch) ms) = []"
    by (induction ms) auto
  ultimately show ?thesis by (simp add: read_events drain_ops Let_def)
qed

end
