(* ===== verification/Rpc_Calls.thy ===== *)
theory Rpc_Calls
  imports Rpc_Handler
begin

text \<open>
  The goroutines of a connection handler (src/util/rpc/handler.go): the dispatcher hands messages
  and batches to the handler, each call runs on a goroutine of its own, counted by the wait group
  \<open>callWG\<close>, and the application notifies its subscribers from any goroutine. \<open>Rpc_Handler\<close> runs a
  call to its end as one program; here its pieces interleave with those of every other call: the
  service of each message, the registration of the subscriptions (under \<open>subLock\<close>), the write of
  the answer (under the lock of the codec) and the activation of each notifier (under its lock).
  The close of the handler cancels the requests, waits for the wait group, and only then cancels
  the context of the calls and the subscriptions. That context is made from the context of the connection, which may end
  by itself at any time: for HTTP it is the context of the request, which ends when the client disconnects, for the other
  transports the background context, which never does.
\<close>

section \<open>Call goroutines\<close>

text \<open>
  A goroutine serves the rest of its messages, with the answers and the notifiers so far; has
  registered the subscriptions; has written its answer, the list being the notifiers still to
  activate; or has returned.
\<close>

datatype call_pc =
    CallRun "jsonrpcMessage list" "jsonrpcMessage list" "nat list"
  | CallReply "jsonrpcMessage list" "nat list"
  | CallNotify "nat list"
  | CallDone

text \<open>\<open>cp_sent\<close> is the answer that was written without an error.\<close>

record call_proc =
  cp_batch :: bool
  cp_msgs :: "jsonrpcMessage list"
  cp_pc :: call_pc
  cp_answers :: "jsonrpcMessage list"
  cp_failed :: bool
  cp_sent :: "wire option"

datatype close_pc = COpen | CWaiting "rpc_error option" | CClosed

record ('x, 'v) calls =
  cs_h :: "('x, 'v) hstate"
  cs_procs :: "call_proc list"
  cs_close :: close_pc
  cs_canceled :: bool
  cs_parentDone :: bool

text \<open>\<open>cs_canceled\<close>: \<open>cancelRoot\<close> has been called; \<open>cs_parentDone\<close>: the context of the connection has ended.\<close>

definition ctx_done :: "('x, 'v) calls \<Rightarrow> bool" where
  "ctx_done s \<longleftrightarrow> cs_canceled s \<or> cs_parentDone s"

definition calls_init :: "('x, 'v) hstate \<Rightarrow> ('x, 'v) calls" where
  "calls_init w = \<lparr>cs_h = w, cs_procs = [], cs_close = COpen, cs_canceled = False, cs_parentDone = False\<rparr>"

definition call_proc0 :: "bool \<Rightarrow> jsonrpcMessage list \<Rightarrow> call_pc \<Rightarrow> call_proc" where
  "call_proc0 batch msgs pc = \<lparr>cp_batch = batch, cp_msgs = msgs, cp_pc = pc, cp_answers = [], cp_failed = False, cp_sent = None\<rparr>"

definition startCallProc :: "call_proc \<Rightarrow> ('x, 'v) calls \<Rightarrow> ('x, 'v) calls" where
  "startCallProc p s = s\<lparr>cs_procs := cs_procs s @ [p]\<rparr>"

text \<open>What the dispatcher's goroutine does with a message or a batch.\<close>

definition dispatch_msg :: "('x, 'v) handler \<Rightarrow> jsonrpcMessage \<Rightarrow> ('x, 'v) calls \<Rightarrow> ('x, 'v) calls" where
  "dispatch_msg h msg s = (case immediate h msg (cs_h s) of
     (Ret ok, w) \<Rightarrow> if ok then s\<lparr>cs_h := w\<rparr> else startCallProc (call_proc0 False [msg] (CallRun [msg] [] [])) (s\<lparr>cs_h := w\<rparr>)
   | (_, w) \<Rightarrow> s\<lparr>cs_h := w\<rparr>)"

definition dispatch_batch :: "('x, 'v) handler \<Rightarrow> jsonrpcMessage list \<Rightarrow> ('x, 'v) calls \<Rightarrow> ('x, 'v) calls" where
  "dispatch_batch h msgs s =
     (if length msgs = 0 then startCallProc (call_proc0 False [] (CallReply [errorMessage (invalidRequestError ''empty batch'')] [])) s
      else case filter_calls h msgs (cs_h s) of
        (Ret calls, w) \<Rightarrow> if length calls = 0 then s\<lparr>cs_h := w\<rparr>
          else startCallProc (call_proc0 True calls (CallRun calls [] [])) (s\<lparr>cs_h := w\<rparr>)
      | (_, w) \<Rightarrow> s\<lparr>cs_h := w\<rparr>)"

definition answer_wire :: "bool \<Rightarrow> jsonrpcMessage list \<Rightarrow> wire option" where
  "answer_wire batch ans = (case ans of [] \<Rightarrow> None | a # _ \<Rightarrow> Some (if batch then WBatch ans else WMsg a))"

text \<open>The next piece of a goroutine, \<open>None\<close> if it has returned or the process has ended in it.\<close>

definition proc_step :: "('x, 'v) handler \<Rightarrow> call_proc \<Rightarrow> ('x, 'v) hstate \<Rightarrow> (call_proc \<times> ('x, 'v) hstate) option" where
  "proc_step h p w = (case cp_pc p of
     CallRun (m # ms) ans cp \<Rightarrow> (case handleCallMsg h cp m w of
         (Ret (answer, cp'), w') \<Rightarrow> Some (p\<lparr>cp_pc := CallRun ms (ans @ (case answer of None \<Rightarrow> [] | Some a \<Rightarrow> [a])) cp'\<rparr>, w')
       | _ \<Rightarrow> None)
   | CallRun [] ans cp \<Rightarrow> Some (p\<lparr>cp_pc := CallReply ans cp\<rparr>, addSubscriptions cp w)
   | CallReply ans cp \<Rightarrow> (case answer_wire (cp_batch p) ans of
         None \<Rightarrow> Some (p\<lparr>cp_pc := CallNotify cp, cp_answers := ans\<rparr>, w)
       | Some a \<Rightarrow> (case lift_conn (write_message a) w of
             (Ret err, w') \<Rightarrow> Some (p\<lparr>cp_pc := CallNotify cp, cp_answers := ans, cp_failed := (err \<noteq> None),
                 cp_sent := (if err = None then Some a else None)\<rparr>, w')
           | _ \<Rightarrow> None))
   | CallNotify [] \<Rightarrow> Some (p\<lparr>cp_pc := CallDone\<rparr>, w)
   | CallNotify (n # cp) \<Rightarrow> (case activate_all [n] w of
         (Ret _, w') \<Rightarrow> Some (p\<lparr>cp_pc := CallNotify cp\<rparr>, w')
       | _ \<Rightarrow> None)
   | CallDone \<Rightarrow> None)"

text \<open>
  A method that watches its context may return only once the context is done; which messages
  call such methods is an argument.
\<close>

definition waits_for :: "(jsonrpcMessage \<Rightarrow> bool) \<Rightarrow> call_proc \<Rightarrow> bool" where
  "waits_for ctx_bound p \<longleftrightarrow> (case cp_pc p of CallRun (m # _) _ _ \<Rightarrow> ctx_bound m | _ \<Rightarrow> False)"

definition notify_app :: "nat \<Rightarrow> string \<Rightarrow> rpc_error + json \<Rightarrow> ('x, 'v) hstate \<Rightarrow> ('x, 'v) hstate option" where
  "notify_app n subid enc w = (case Notify subid enc (h_notifiers w ! n) (h_conn w) of
     (Ret (_, n'), c) \<Rightarrow> Some (w\<lparr>h_notifiers := (h_notifiers w)[n := n'], h_conn := c\<rparr>)
   | _ \<Rightarrow> None)"

section \<open>Closing\<close>

definition close_start :: "('x, 'v) handler \<Rightarrow> rpc_error option \<Rightarrow> nat option \<Rightarrow> ('x, 'v) calls \<Rightarrow> ('x, 'v) calls" where
  "close_start h err inflightReq s = s\<lparr>cs_close := CWaiting err,
     cs_h := (cs_h s)\<lparr>h_requests := cancelAllRequests (h_sub_unmarshal h) err inflightReq (h_requests (cs_h s))\<rparr>\<rparr>"

definition close_finish :: "rpc_error option \<Rightarrow> ('x, 'v) calls \<Rightarrow> ('x, 'v) calls" where
  "close_finish err s = s\<lparr>cs_close := CClosed, cs_canceled := True, cs_h := cancelServerSubscriptions err (cs_h s)\<rparr>"

definition callWG_zero :: "('x, 'v) calls \<Rightarrow> bool" where
  "callWG_zero s \<longleftrightarrow> list_all (\<lambda>p. cp_pc p = CallDone) (cs_procs s)"

text \<open>The dispatcher reads no messages once it is in \<open>close\<close>.\<close>

inductive calls_step :: "('x, 'v) handler \<Rightarrow> (jsonrpcMessage \<Rightarrow> bool) \<Rightarrow> ('x, 'v) calls \<Rightarrow> ('x, 'v) calls \<Rightarrow> bool"
  for h ctx_bound where
  k_msg: "cs_close s = COpen \<Longrightarrow> calls_step h ctx_bound s (dispatch_msg h msg s)"
| k_batch: "cs_close s = COpen \<Longrightarrow> calls_step h ctx_bound s (dispatch_batch h msgs s)"
| k_proc: "k < length (cs_procs s) \<Longrightarrow> (waits_for ctx_bound (cs_procs s ! k) \<longrightarrow> ctx_done s) \<Longrightarrow>
     proc_step h (cs_procs s ! k) (cs_h s) = Some (p, w) \<Longrightarrow> calls_step h ctx_bound s (s\<lparr>cs_procs := (cs_procs s)[k := p], cs_h := w\<rparr>)"
| k_notify: "n < length (h_notifiers (cs_h s)) \<Longrightarrow> notify_app n subid enc (cs_h s) = Some w \<Longrightarrow> calls_step h ctx_bound s (s\<lparr>cs_h := w\<rparr>)"
| k_close: "cs_close s = COpen \<Longrightarrow> calls_step h ctx_bound s (close_start h err inflightReq s)"
| k_wait: "cs_close s = CWaiting err \<Longrightarrow> callWG_zero s \<Longrightarrow> calls_step h ctx_bound s (close_finish err s)"
| k_parent: "calls_step h ctx_bound s (s\<lparr>cs_parentDone := True\<rparr>)"

inductive_cases calls_stepE: "calls_step h ctx_bound s t"

text \<open>A schedule, executed.\<close>

datatype sched = SMsg jsonrpcMessage | SBatch "jsonrpcMessage list" | SProc nat | SClose "rpc_error option" | SWait | SParent

fun run_sched :: "('x, 'v) handler \<Rightarrow> (jsonrpcMessage \<Rightarrow> bool) \<Rightarrow> sched list \<Rightarrow> ('x, 'v) calls \<Rightarrow> ('x, 'v) calls option" where
  "run_sched h ctx_bound [] s = Some s"
| "run_sched h ctx_bound (SMsg m # es) s = (if cs_close s = COpen then run_sched h ctx_bound es (dispatch_msg h m s) else None)"
| "run_sched h ctx_bound (SBatch ms # es) s = (if cs_close s = COpen then run_sched h ctx_bound es (dispatch_batch h ms s) else None)"
| "run_sched h ctx_bound (SProc k # es) s =
     (if k < length (cs_procs s) \<and> (waits_for ctx_bound (cs_procs s ! k) \<longrightarrow> ctx_done s)
      then case proc_step h (cs_procs s ! k) (cs_h s) of
          None \<Rightarrow> None
        | Some (p, w) \<Rightarrow> run_sched h ctx_bound es (s\<lparr>cs_procs := (cs_procs s)[k := p], cs_h := w\<rparr>)
      else None)"
| "run_sched h ctx_bound (SClose err # es) s = (if cs_close s = COpen then run_sched h ctx_bound es (close_start h err None s) else None)"
| "run_sched h ctx_bound (SWait # es) s = (case cs_close s of
     CWaiting err \<Rightarrow> if callWG_zero s then run_sched h ctx_bound es (close_finish err s) else None
   | _ \<Rightarrow> None)"
| "run_sched h ctx_bound (SParent # es) s = run_sched h ctx_bound es (s\<lparr>cs_parentDone := True\<rparr>)"

section \<open>Lemmas\<close>

lemma run_sched_steps: "run_sched h ctx_bound es s = Some t \<Longrightarrow> (calls_step h ctx_bound)\<^sup>*\<^sup>* s t"
proof (induction h ctx_bound es s rule: run_sched.induct)
  case (4 h ctx_bound k es s)
  from "4.prems" obtain p w where *: "k < length (cs_procs s) \<and> (waits_for ctx_bound (cs_procs s ! k) \<longrightarrow> ctx_done s)"
    "proc_step h (cs_procs s ! k) (cs_h s) = Some (p, w)"
    "run_sched h ctx_bound es (s\<lparr>cs_procs := (cs_procs s)[k := p], cs_h := w\<rparr>) = Some t"
    by (auto split: if_splits option.splits)
  have "calls_step h ctx_bound s (s\<lparr>cs_procs := (cs_procs s)[k := p], cs_h := w\<rparr>)" using * by (intro k_proc) auto
  then show ?case using "4.IH" [OF *(1,2) refl *(3)] by (rule converse_rtranclp_into_rtranclp)
qed (auto split: if_splits close_pc.splits intro: calls_step.intros converse_rtranclp_into_rtranclp)

fun is_reply :: "wire \<Rightarrow> bool" where
  "is_reply (WMsg m) = isResponse m"
| "is_reply (WBatch _) = True"

definition replies :: "conn \<Rightarrow> wire list" where
  "replies c = filter is_reply (written c)"

definition sent_by :: "call_proc list \<Rightarrow> wire list" where
  "sent_by ps = concat (map (\<lambda>p. case cp_sent p of None \<Rightarrow> [] | Some a \<Rightarrow> [a]) ps)"

text \<open>What a goroutine owes to its messages.\<close>

definition answered :: "call_proc \<Rightarrow> jsonrpcMessage list \<Rightarrow> bool" where
  "answered p ans \<longleftrightarrow> (if cp_msgs p = [] then ans = [errorMessage (invalidRequestError ''empty batch'')]
     else list_all2 answers (filter (\<lambda>m. \<not> isNotification m) (cp_msgs p)) ans)"

definition proc_inv :: "call_proc \<Rightarrow> bool" where
  "proc_inv p \<longleftrightarrow> (case cp_pc p of
     CallRun ms ans cp \<Rightarrow> cp_sent p = None \<and> cp_msgs p \<noteq> [] \<and>
       (\<exists>served. cp_msgs p = served @ ms \<and> list_all2 answers (filter (\<lambda>m. \<not> isNotification m) served) ans)
   | CallReply ans cp \<Rightarrow> cp_sent p = None \<and> answered p ans
   | _ \<Rightarrow> answered p (cp_answers p) \<and> cp_sent p = (if cp_failed p then None else answer_wire (cp_batch p) (cp_answers p)))"

lemma sent_by_update:
  "k < length ps \<Longrightarrow> mset (sent_by (ps[k := p])) + mset (sent_by [ps ! k]) = mset (sent_by ps) + mset (sent_by [p])"
  using mset_concat_update [of k ps "\<lambda>p. case cp_sent p of None \<Rightarrow> [] | Some a \<Rightarrow> [a]" p] by (simp add: sent_by_def)

lemma sent_by_snoc: "sent_by (ps @ [call_proc0 b ms pc]) = sent_by ps"
  by (simp add: sent_by_def call_proc0_def)

lemma reply_error: "isResponse (errorMessage e)"
  by (simp add: isResponse_def errorMessage_def hasValidID_def zero_message_def)

lemma answered_wire_reply: "answered p ans \<Longrightarrow> answer_wire b ans = Some a \<Longrightarrow> is_reply a"
  by (cases ans)
    (auto simp: answer_wire_def answered_def reply_error list_all2_Cons2 dest: answers_isResponse split: if_splits)

lemma notification_not_reply [simp]: "\<not> is_reply (WMsg (notification ns subid data))"
  by (simp add: notification_def isResponse_def zero_message_def)

lemma replies_write: "write_message a c = (out, c') \<Longrightarrow> \<not> is_reply a \<Longrightarrow> replies c' = replies c"
  by (auto simp: write_message_def replies_def split: option.splits)

lemma replies_send: "Notifier_send n d c = (out, c') \<Longrightarrow> replies c' = replies c"
  by (cases "n_sub n") (auto simp: Notifier_send_def run_simps dest: replies_write [OF _ notification_not_reply])

lemma replies_send_all: "send_all n ds c = (out, c') \<Longrightarrow> replies c' = replies c"
proof (induction ds arbitrary: c)
  case (Cons d ds)
  then show ?case
    by (auto simp: bindP_def run_simps dest!: replies_send split: prod.splits outcome.splits option.splits)
qed (simp add: run_simps)

lemma replies_activate: "activate n c = (out, c') \<Longrightarrow> replies c' = replies c"
  by (auto simp: activate_def bindP_def run_simps dest!: replies_send_all split: prod.splits outcome.splits option.splits)

lemma replies_Notify: "Notify subid enc n c = (out, c') \<Longrightarrow> replies c' = replies c"
  by (auto simp: Notify_def bindP_def run_simps dest!: replies_send split: prod.splits outcome.splits option.splits sum.splits if_splits)

lemma addSubscriptions_conn [simp]: "h_conn (addSubscriptions nn w) = h_conn w"
  by (induction nn arbitrary: w) (auto simp: takeSubscription_def Let_def split: option.splits)

lemma notify_app_keeps:
  "notify_app n subid enc w = Some w' \<Longrightarrow> replies (h_conn w') = replies (h_conn w) \<and> h_serverSubs w' = h_serverSubs w \<and> h_suberr w' = h_suberr w"
  by (auto simp: notify_app_def dest: replies_Notify split: prod.splits outcome.splits)

lemma activate_all_one:
  "activate_all [n] w = (Ret u, w') \<Longrightarrow> \<exists>err n' c. activate (h_notifiers w ! n) (h_conn w) = (Ret (err, n'), c) \<and>
     w' = w\<lparr>h_notifiers := (h_notifiers w)[n := n'], h_conn := c\<rparr>"
  by (auto simp: bindP_def run_simps split: prod.splits outcome.splits)

text \<open>A piece of a goroutine adds to the replies what it has sent, and keeps its invariant.\<close>

lemma proc_step_inv:
  assumes "services_keep replies h" and "proc_inv p" and "proc_step h p w = Some (p', w')"
  shows "proc_inv p' \<and> mset (replies (h_conn w')) + mset (sent_by [p]) = mset (replies (h_conn w)) + mset (sent_by [p'])"
proof (cases "cp_pc p")
  case (CallRun ms ans cp)
  show ?thesis
  proof (cases ms)
    case Nil
    with CallRun assms show ?thesis by (auto simp: proc_step_def proc_inv_def answered_def sent_by_def)
  next
    case (Cons m rest)
    with CallRun assms(3) obtain a cp' where m: "handleCallMsg h cp m w = (Ret (a, cp'), w')"
      and p': "p' = p\<lparr>cp_pc := CallRun rest (ans @ (case a of None \<Rightarrow> [] | Some a \<Rightarrow> [a])) cp'\<rparr>"
      by (auto simp: proc_step_def split: prod.splits outcome.splits)
    have r: "replies (h_conn w') = replies (h_conn w)" using handleCallMsg_keeps [OF assms(1) m] by blast
    from assms(2) CallRun Cons obtain served where s: "cp_msgs p = (served @ [m]) @ rest" "cp_sent p = None"
      "list_all2 answers (filter (\<lambda>m. \<not> isNotification m) served) ans" by (auto simp: proc_inv_def)
    then have "list_all2 answers (filter (\<lambda>m. \<not> isNotification m) (served @ [m])) (ans @ (case a of None \<Rightarrow> [] | Some a \<Rightarrow> [a]))"
      using handleCallMsg_answer [OF m] by (auto intro: list_all2_appendI split: if_splits)
    with s have "proc_inv p'" unfolding proc_inv_def p' by auto
    with r p' s(2) show ?thesis by (simp add: sent_by_def)
  qed
next
  case (CallReply ans cp)
  with assms(2) have a: "answered p ans" "cp_sent p = None" by (auto simp: proc_inv_def)
  show ?thesis
  proof (cases "answer_wire (cp_batch p) ans")
    case None
    with CallReply a assms(2,3) show ?thesis by (auto simp: proc_step_def proc_inv_def answered_def sent_by_def)
  next
    case (Some x)
    with a have "is_reply x" by (auto intro: answered_wire_reply)
    with Some CallReply a assms(3) show ?thesis
      by (auto simp: proc_step_def proc_inv_def answered_def sent_by_def replies_def lift_conn_def write_message_def split: option.splits)
  qed
next
  case (CallNotify cp)
  with assms(2,3) show ?thesis
    by (cases cp) (auto simp: proc_step_def proc_inv_def answered_def sent_by_def split: prod.splits outcome.splits
        dest!: activate_all_one replies_activate)
next
  case CallDone
  with assms(3) show ?thesis by (simp add: proc_step_def)
qed

definition calls_inv :: "('x, 'v) handler \<Rightarrow> ('x, 'v) calls \<Rightarrow> bool" where
  "calls_inv h s \<longleftrightarrow> (services_keep replies h \<longrightarrow>
     list_all proc_inv (cs_procs s) \<and> mset (replies (h_conn (cs_h s))) = mset (sent_by (cs_procs s)))"

lemma proc_inv_start:
  "proc_inv (call_proc0 False [m] (CallRun [m] [] []))"
  "ms \<noteq> [] \<Longrightarrow> proc_inv (call_proc0 True ms (CallRun ms [] []))"
  "proc_inv (call_proc0 False [] (CallReply [errorMessage (invalidRequestError ''empty batch'')] []))"
  by (simp_all add: proc_inv_def call_proc0_def answered_def)

lemma filter_calls_Ret: "\<exists>calls w'. filter_calls h msgs w = (Ret calls, w')"
proof (induction msgs arbitrary: w)
  case (Cons m ms)
  obtain b w1 where m: "immediate h m w = (Ret b, w1)" by (cases "handleImmediate (h_sub_unmarshal h) m (h_requests w)") (auto simp: immediate_def Let_def)
  obtain cs w2 where "filter_calls h ms w1 = (Ret cs, w2)" using Cons by blast
  with m show ?case by (simp add: run_simps)
qed (simp add: run_simps)

lemma calls_inv_step:
  assumes "calls_inv h s" and "calls_step h ctx_bound s t"
  shows "calls_inv h t"
  using assms(2)
proof cases
  case (k_msg msg)
  with assms(1) show ?thesis
    by (auto simp: calls_inv_def dispatch_msg_def startCallProc_def sent_by_snoc proc_inv_start dest: immediate_conn split: prod.splits outcome.splits)
next
  case (k_batch msgs)
  with assms(1) filter_calls_Ret [of h msgs "cs_h s"] show ?thesis
    by (auto simp: calls_inv_def dispatch_batch_def startCallProc_def sent_by_snoc proc_inv_start dest: filter_calls_conn
        split: prod.splits outcome.splits)
next
  case (k_proc k p w)
  show ?thesis unfolding calls_inv_def
  proof
    assume h: "services_keep replies h"
    with assms(1) k_proc have i: "list_all proc_inv (cs_procs s)" "mset (replies (h_conn (cs_h s))) = mset (sent_by (cs_procs s))"
      by (simp_all add: calls_inv_def)
    have "proc_inv (cs_procs s ! k)" using i(1) k_proc(2) by (simp add: list_all_length)
    note p = proc_step_inv [OF h this k_proc(4)]
    have "mset (replies (h_conn w)) = mset (sent_by ((cs_procs s)[k := p]))"
      using p i(2) sent_by_update [OF k_proc(2), of p] by (metis add_right_cancel)
    with p i(1) k_proc(1) show "list_all proc_inv (cs_procs t) \<and> mset (replies (h_conn (cs_h t))) = mset (sent_by (cs_procs t))"
      by (auto simp: list_all_iff dest!: set_update_subset_insert [THEN subsetD])
  qed
next
  case (k_notify n subid enc w)
  with assms(1) notify_app_keeps [OF k_notify(3)] show ?thesis by (simp add: calls_inv_def)
next
  case (k_close err inflightReq)
  with assms(1) show ?thesis by (simp add: calls_inv_def close_start_def)
next
  case (k_wait err)
  with assms(1) show ?thesis by (simp add: calls_inv_def close_finish_def cancelServerSubscriptions_def)
next
  case k_parent
  with assms(1) show ?thesis by (simp add: calls_inv_def)
qed

definition closed_inv :: "('x, 'v) calls \<Rightarrow> bool" where
  "closed_inv s \<longleftrightarrow> (cs_canceled s \<longleftrightarrow> cs_close s = CClosed) \<and>
     (cs_close s = CClosed \<longrightarrow> callWG_zero s \<and> h_serverSubs (cs_h s) = [])"

lemma proc_step_done: "proc_step h p w = Some r \<Longrightarrow> cp_pc p \<noteq> CallDone"
  by (auto simp: proc_step_def)

lemma closed_inv_step: "closed_inv s \<Longrightarrow> calls_step h ctx_bound s t \<Longrightarrow> closed_inv t"
  by (erule calls_stepE)
    (auto simp: closed_inv_def callWG_zero_def dispatch_msg_def dispatch_batch_def startCallProc_def close_start_def close_finish_def
      cancelServerSubscriptions_def list_all_length dest!: proc_step_done notify_app_keeps split: prod.splits outcome.splits)

interpretation calls_sys: step_system "\<lambda>s. \<exists>w. s = calls_init w \<and> replies (h_conn w) = []" "calls_step h ctx_bound" "calls_inv h" for h ctx_bound
proof unfold_locales
  show "calls_inv h s" if "\<exists>w. s = calls_init w \<and> replies (h_conn w) = []" for s
    using that by (auto simp: calls_inv_def calls_init_def sent_by_def)
qed (rule calls_inv_step)

interpretation closed_sys: step_system "\<lambda>s. \<exists>w. s = calls_init w" "calls_step h ctx_bound" closed_inv for h ctx_bound
proof unfold_locales
  show "closed_inv s" if "\<exists>w. s = calls_init w" for s
    using that by (auto simp: closed_inv_def calls_init_def)
qed (rule closed_inv_step)

lemma closed_step:
  assumes "closed_inv s" and "cs_close s = CClosed" and "calls_step h ctx_bound s t"
  shows "cs_close t = CClosed \<and> replies (h_conn (cs_h t)) = replies (h_conn (cs_h s)) \<and> h_suberr (cs_h t) = h_suberr (cs_h s) \<and> cs_procs t = cs_procs s"
  using assms(3)
proof cases
  case (k_proc k p w)
  with assms(1,2) proc_step_done [OF k_proc(4)] show ?thesis by (simp add: closed_inv_def callWG_zero_def list_all_length)
next
  case (k_notify n subid enc w)
  with assms(2) notify_app_keeps [OF k_notify(3)] show ?thesis by simp
qed (use assms(2) in auto)

lemma closed_run:
  "(calls_step h ctx_bound)\<^sup>*\<^sup>* s t \<Longrightarrow> closed_inv s \<Longrightarrow> cs_close s = CClosed \<Longrightarrow>
   cs_close t = CClosed \<and> replies (h_conn (cs_h t)) = replies (h_conn (cs_h s)) \<and> h_suberr (cs_h t) = h_suberr (cs_h s) \<and> cs_procs t = cs_procs s"
proof (induction rule: rtranclp_induct)
  case (step u t)
  have "closed_inv u" using closed_sys.inv_run [OF step.hyps(1)] step.prems(1) by blast
  with step closed_step [of u h ctx_bound t] show ?case by auto
qed simp

lemma waiting_step:
  assumes "closed_inv s" and "k < length (cs_procs s)" and "waits_for ctx_bound (cs_procs s ! k)" and "calls_step h ctx_bound s t"
    and "\<not> cs_parentDone s"
  shows "cs_close t \<noteq> CClosed \<and> k < length (cs_procs t) \<and> cs_procs t ! k = cs_procs s ! k"
proof -
  have nd: "cp_pc (cs_procs s ! k) \<noteq> CallDone" using assms(3) by (auto simp: waits_for_def)
  then have nz: "\<not> callWG_zero s" using assms(2) by (auto simp: callWG_zero_def list_all_length)
  with assms(1) have nc: "cs_close s \<noteq> CClosed" "\<not> cs_canceled s" by (auto simp: closed_inv_def)
  from assms(4) show ?thesis
  proof cases
    case (k_proc j p w)
    then have "j \<noteq> k" using assms(3,5) nc by (auto simp: ctx_done_def)
    with k_proc assms(2) nc show ?thesis by simp
  qed (use nc nz assms(2) in \<open>auto simp: dispatch_msg_def dispatch_batch_def startCallProc_def close_start_def nth_append
      split: prod.splits outcome.splits\<close>)
qed

lemma parent_once: "(calls_step h ctx_bound)\<^sup>*\<^sup>* s t \<Longrightarrow> cs_parentDone s \<Longrightarrow> cs_parentDone t"
  by (induction rule: rtranclp_induct)
    (auto elim!: calls_stepE simp: dispatch_msg_def dispatch_batch_def startCallProc_def close_start_def close_finish_def
      split: prod.splits outcome.splits)

lemma calls_inv_answered:
  assumes "calls_inv h s" and "services_keep replies h"
  shows "mset (replies (h_conn (cs_h s))) = mset (sent_by (cs_procs s)) \<and>
    list_all (\<lambda>p. cp_pc p = CallDone \<and> \<not> cp_failed p \<longrightarrow>
      (\<exists>rs. answered p rs \<and> cp_sent p = (case rs of [] \<Rightarrow> None | r # _ \<Rightarrow> Some (if cp_batch p then WBatch rs else WMsg r)))) (cs_procs s)"
  using assms by (auto simp: calls_inv_def proc_inv_def answer_wire_def list_all_iff split: call_pc.splits)

section \<open>Properties\<close>

text \<open>Calls that run at the same time are answered one by one: in every state a connection can
  reach, whatever the order in which its call goroutines, its application's notifications and its
  close have run, the answers on the connection are exactly those that its goroutines have written,
  each once; and a goroutine that has returned has written, unless the write failed, one answer that
  has for each of its messages but the notifications the response to that message, in their order,
  or nothing if there is none to respond to.\<close>

theorem concurrent_calls_answered:
  assumes "services_keep replies h" and "replies (h_conn w) = []" and "(calls_step h ctx_bound)\<^sup>*\<^sup>* (calls_init w) s"
  shows "mset (replies (h_conn (cs_h s))) = mset (sent_by (cs_procs s)) \<and>
    list_all (\<lambda>p. cp_pc p = CallDone \<and> \<not> cp_failed p \<longrightarrow>
      (\<exists>rs. answered p rs \<and> cp_sent p = (case rs of [] \<Rightarrow> None | r # _ \<Rightarrow> Some (if cp_batch p then WBatch rs else WMsg r)))) (cs_procs s)"
proof -
  have "calls_inv h s" by (rule calls_sys.inv_reachable [OF _ assms(3)]) (use assms(2) in blast)
  from calls_inv_answered [OF this assms(1)] show ?thesis .
qed

text \<open>C18. Closing a handler is final: once \<open>close\<close> has returned, every call goroutine has returned, no
  answer is written any more, no subscription is active, and none is added or ended again, whatever
  the application still does with its notifiers.\<close>

theorem close_is_final:
  assumes "(calls_step h ctx_bound)\<^sup>*\<^sup>* (calls_init w) s" and "cs_close s = CClosed" and "(calls_step h ctx_bound)\<^sup>*\<^sup>* s t"
  shows "callWG_zero t \<and> replies (h_conn (cs_h t)) = replies (h_conn (cs_h s)) \<and> h_serverSubs (cs_h t) = [] \<and>
    h_suberr (cs_h t) = h_suberr (cs_h s)"
proof -
  have s: "closed_inv s" by (rule closed_sys.inv_reachable [OF _ assms(1)]) blast
  have t: "closed_inv t" by (rule closed_sys.inv_run [OF assms(3) s])
  from closed_run [OF assms(3) s assms(2)] t show ?thesis by (simp add: closed_inv_def)
qed

text \<open>C27. Closing a handler waits for calls that wait for the close: \<open>close\<close> cancels the context of the
  calls only after all of them have returned. So while a call runs a method that returns when its context is done, then
  as long as the context of the connection does not end by itself, \<open>close\<close> never returns, the context is never canceled
  and the method never returns, whatever messages, batches, notifications and calls the connection handles meanwhile.
  For the connections whose context is the background context that is for ever. When the context of the connection
  has ended, as that of an HTTP request does when its client disconnects, the method can go on.\<close>

theorem close_waits_for_context:
  assumes "(calls_step h ctx_bound)\<^sup>*\<^sup>* (calls_init w) s" and "k < length (cs_procs s)" and "waits_for ctx_bound (cs_procs s ! k)"
    and "(calls_step h ctx_bound)\<^sup>*\<^sup>* s t"
  shows "(\<not> cs_parentDone t \<longrightarrow> cs_close t \<noteq> CClosed \<and> \<not> cs_canceled t \<and> cs_procs t ! k = cs_procs s ! k) \<and>
    (\<forall>p w'. cs_parentDone s \<and> proc_step h (cs_procs s ! k) (cs_h s) = Some (p, w') \<longrightarrow>
      calls_step h ctx_bound s (s\<lparr>cs_procs := (cs_procs s)[k := p], cs_h := w'\<rparr>))"
proof (intro conjI impI allI)
  have s: "closed_inv s" by (rule closed_sys.inv_reachable [OF _ assms(1)]) blast
  show "calls_step h ctx_bound s (s\<lparr>cs_procs := (cs_procs s)[k := p], cs_h := w'\<rparr>)"
    if "cs_parentDone s \<and> proc_step h (cs_procs s ! k) (cs_h s) = Some (p, w')" for p w'
    using that assms(2) by (intro k_proc) (auto simp: ctx_done_def)
  assume "\<not> cs_parentDone t"
  with assms(4) have "closed_inv t \<and> k < length (cs_procs t) \<and> cs_procs t ! k = cs_procs s ! k \<and> waits_for ctx_bound (cs_procs t ! k)"
  proof (induction rule: rtranclp_induct)
    case (step u v)
    then have "\<not> cs_parentDone u" using parent_once [of h ctx_bound u v] by blast
    with step show ?case using waiting_step [of u k ctx_bound h v] closed_inv_step by auto
  qed (use s assms in simp)
  then show "cs_close t \<noteq> CClosed" "\<not> cs_canceled t" "cs_procs t ! k = cs_procs s ! k"
    by (auto simp: closed_inv_def callWG_zero_def list_all_length waits_for_def)
qed

definition calls_run :: "sched list \<Rightarrow> (unit, int) calls option" where
  "calls_run es = run_sched test_handler (\<lambda>_. False) es (calls_init (handler_state0 []))"

lemma test_keeps: "services_keep f test_handler"
  by (simp add: services_keep_def test_handler_def lookup_callback_def lookup_subscription_def Let_def split: if_splits list.splits)

text \<open>Two calls, the second answered first.\<close>

definition two_calls :: "sched list" where
  "two_calls = [SMsg (call_message ''1'' ''foo_bar'' []), SMsg (call_message ''2'' ''foo_bar'' []),
     SProc 1, SProc 0, SProc 1, SProc 1, SProc 0, SProc 0, SProc 0, SProc 1]"

lemma two_calls_written:
  "map_option (written \<circ> h_conn \<circ> cs_h) (calls_run two_calls) =
   Some (map (\<lambda>n. WMsg (errorResponse (call_message n ''foo_bar'' []) (methodNotFoundError ''foo_bar''))) [''2'', ''1''])"
  by code_simp

theorem concurrent_calls_answered_witness:
  "let m = (\<lambda>n. call_message n ''foo_bar'' []); r = (\<lambda>n. WMsg (errorResponse (m n) (methodNotFoundError ''foo_bar''))) in
   \<exists>s. calls_run two_calls = Some s \<and> written (h_conn (cs_h s)) = [r ''2'', r ''1''] \<and>
     mset (replies (h_conn (cs_h s))) = mset (sent_by (cs_procs s))"
proof -
  from two_calls_written obtain s where s: "calls_run two_calls = Some s"
    "written (h_conn (cs_h s)) = map (\<lambda>n. WMsg (errorResponse (call_message n ''foo_bar'' []) (methodNotFoundError ''foo_bar''))) [''2'', ''1'']"
    by (auto simp: map_option_eq_Some)
  have "replies (h_conn (handler_state0 [])) = []" by (simp add: replies_def handler_state0_def)
  with concurrent_calls_answered [OF test_keeps _ run_sched_steps [OF s(1) [unfolded calls_run_def]]] s show ?thesis
    by (simp add: Let_def)
qed

theorem close_is_final_witness:
  "\<exists>s. calls_run (two_calls @ [SClose None, SWait]) = Some s \<and> cs_close s = CClosed \<and> callWG_zero s \<and> h_serverSubs (cs_h s) = []"
proof -
  have "map_option cs_close (calls_run (two_calls @ [SClose None, SWait])) = Some CClosed" by code_simp
  then obtain s where s: "calls_run (two_calls @ [SClose None, SWait]) = Some s" "cs_close s = CClosed"
    by (auto simp: map_option_eq_Some)
  with close_is_final [OF run_sched_steps [OF s(1) [unfolded calls_run_def]] s(2) rtranclp.rtrancl_refl] show ?thesis by simp
qed

theorem close_waits_for_context_witness:
  "\<exists>s. run_sched test_handler (\<lambda>_. True) [SMsg (call_message ''1'' ''foo_bar'' []), SClose None] (calls_init (handler_state0 [])) = Some s \<and>
     (\<forall>t. (calls_step test_handler (\<lambda>_. True))\<^sup>*\<^sup>* s t \<and> \<not> cs_parentDone t \<longrightarrow> cs_close t \<noteq> CClosed \<and> \<not> cs_canceled t)"
proof -
  let ?run = "run_sched test_handler (\<lambda>_. True) [SMsg (call_message ''1'' ''foo_bar'' []), SClose None] (calls_init (handler_state0 []))"
  have "map_option (\<lambda>s. map cp_pc (cs_procs s)) ?run = Some [CallRun [call_message ''1'' ''foo_bar'' []] [] []]" by code_simp
  then obtain s p where s: "?run = Some s" "cs_procs s = [p]" "cp_pc p = CallRun [call_message ''1'' ''foo_bar'' []] [] []"
    by (auto simp: map_option_eq_Some)
  with close_waits_for_context [OF run_sched_steps [OF s(1)], of 0] show ?thesis by (auto simp: waits_for_def)
qed

section \<open>Running alone\<close>

lemma activate_all_Cons:
  "activate_all (n # nn) w = (Ret u, w') \<Longrightarrow> \<exists>w1. activate_all [n] w = (Ret (), w1) \<and> activate_all nn w1 = (Ret u, w')"
  by (auto simp: bindP_def run_simps split: prod.splits outcome.splits)

text \<open>The only goroutine, in the state \<open>pc\<close>, with the answers so far.\<close>

definition alone :: "('x, 'v) calls \<Rightarrow> call_proc \<Rightarrow> ('x, 'v) hstate \<Rightarrow> ('x, 'v) calls" where
  "alone s p w = s\<lparr>cs_procs := [p], cs_h := w\<rparr>"

lemma alone_step: "proc_step h p w = Some (p', w') \<Longrightarrow> calls_step h (\<lambda>_. False) (alone s p w) (alone s p' w')"
  using k_proc [of 0 "alone s p w" "\<lambda>_. False" h p' w'] by (simp add: alone_def waits_for_def split: call_pc.splits list.splits)

lemma alone_notify:
  "activate_all cp w = (Ret (), w') \<Longrightarrow> cp_pc p = CallNotify cp \<Longrightarrow>
   (calls_step h (\<lambda>_. False))\<^sup>*\<^sup>* (alone s p w) (alone s (p\<lparr>cp_pc := CallDone\<rparr>) w')"
proof (induction cp arbitrary: w p)
  case Nil
  then have "proc_step h p w = Some (p\<lparr>cp_pc := CallDone\<rparr>, w')" by (simp add: proc_step_def run_simps)
  from alone_step [OF this] show ?case by blast
next
  case (Cons n cp)
  from activate_all_Cons [OF Cons.prems(1)] obtain w1 where w1: "activate_all [n] w = (Ret (), w1)" "activate_all cp w1 = (Ret (), w')" by blast
  then have "proc_step h p w = Some (p\<lparr>cp_pc := CallNotify cp\<rparr>, w1)" using Cons.prems(2) by (simp only: proc_step_def) simp
  from alone_step [OF this] Cons.IH [OF w1(2), of "p\<lparr>cp_pc := CallNotify cp\<rparr>"] show ?case
    by (auto intro: converse_rtranclp_into_rtranclp)
qed

lemma alone_reply:
  assumes "reply (answer_wire (cp_batch p) ans) cp w = (Ret (), w')" and "cp_pc p = CallRun [] ans cp"
  shows "\<exists>p'. (calls_step h (\<lambda>_. False))\<^sup>*\<^sup>* (alone s p w) (alone s p' w') \<and> cp_pc p' = CallDone"
proof -
  let ?p1 = "p\<lparr>cp_pc := CallReply ans cp\<rparr>" and ?w1 = "addSubscriptions cp w"
  have 1: "calls_step h (\<lambda>_. False) (alone s p w) (alone s ?p1 ?w1)"
    using assms(2) by (intro alone_step) (simp add: proc_step_def)
  from assms(1) obtain p2 w2 where 2: "proc_step h ?p1 ?w1 = Some (p2, w2)" "cp_pc p2 = CallNotify cp" "activate_all cp w2 = (Ret (), w')"
    by (cases "answer_wire (cp_batch p) ans") (auto simp: reply_def proc_step_def bindP_def run_simps split: prod.splits outcome.splits)
  have "(calls_step h (\<lambda>_. False))\<^sup>*\<^sup>* (alone s p w) (alone s (p2\<lparr>cp_pc := CallDone\<rparr>) w')"
    using 1 alone_step [OF 2(1), of s] alone_notify [OF 2(3,2), of h s] by (meson converse_rtranclp_into_rtranclp)
  then show ?thesis by (intro exI [of _ "p2\<lparr>cp_pc := CallDone\<rparr>"]) simp
qed

lemma alone_calls:
  "handle_calls h cp ms w = (Ret (rs, cp'), w') \<Longrightarrow> cp_pc p = CallRun ms ans cp \<Longrightarrow>
   (calls_step h (\<lambda>_. False))\<^sup>*\<^sup>* (alone s p w) (alone s (p\<lparr>cp_pc := CallRun [] (ans @ rs) cp'\<rparr>) w')"
proof (induction ms arbitrary: cp w p ans rs)
  case Nil
  then have "p\<lparr>cp_pc := CallRun [] (ans @ rs) cp'\<rparr> = p" by (cases p) (auto simp: run_simps)
  moreover have "w' = w" using Nil by (simp add: run_simps)
  ultimately show ?case by (simp only: rtranclp.rtrancl_refl)
next
  case (Cons m ms)
  then obtain a cp1 w1 rs1 where 1: "handleCallMsg h cp m w = (Ret (a, cp1), w1)" "handle_calls h cp1 ms w1 = (Ret (rs1, cp'), w')"
    "rs = (case a of None \<Rightarrow> rs1 | Some a \<Rightarrow> a # rs1)" by (auto elim!: bindP_RetE simp: run_simps)
  let ?ans = "ans @ (case a of None \<Rightarrow> [] | Some a \<Rightarrow> [a])"
  have "proc_step h p w = Some (p\<lparr>cp_pc := CallRun ms ?ans cp1\<rparr>, w1)" using 1 Cons.prems(2) by (simp add: proc_step_def)
  from alone_step [OF this, of s] Cons.IH [OF 1(2), of "p\<lparr>cp_pc := CallRun ms ?ans cp1\<rparr>" ?ans] show ?case
    using 1(3) by (cases a) (auto intro: converse_rtranclp_into_rtranclp)
qed

lemma alone_finish:
  assumes "(calls_step h (\<lambda>_. False))\<^sup>*\<^sup>* s0 (alone s p v)" and "handle_calls h [] ms v = (Ret (rs, cp), v')"
    and "cp_pc p = CallRun ms [] []" and "reply (answer_wire (cp_batch p) rs) cp v' = (Ret (), w')"
  shows "\<exists>t. (calls_step h (\<lambda>_. False))\<^sup>*\<^sup>* s0 t \<and> cs_h t = w' \<and> callWG_zero t"
proof -
  let ?q = "p\<lparr>cp_pc := CallRun [] ([] @ rs) cp\<rparr>"
  obtain p' where p': "(calls_step h (\<lambda>_. False))\<^sup>*\<^sup>* (alone s ?q v') (alone s p' w')" "cp_pc p' = CallDone"
    using alone_reply [of ?q rs cp v' w' h s] assms(4) by auto
  have "(calls_step h (\<lambda>_. False))\<^sup>*\<^sup>* s0 (alone s p' w')"
    using assms(1) alone_calls [OF assms(2,3), of s] p'(1) by (meson rtranclp_trans)
  then show ?thesis using p'(2) by (intro exI [of _ "alone s p' w'"]) (simp add: alone_def callWG_zero_def)
qed

lemma msg_alone:
  assumes "handleMsg h msg w = (Ret (), w1)"
  shows "\<exists>t. (calls_step h (\<lambda>_. False))\<^sup>*\<^sup>* (calls_init w) t \<and> cs_h t = w1 \<and> callWG_zero t"
proof -
  have start: "(calls_step h (\<lambda>_. False))\<^sup>*\<^sup>* (calls_init w) (dispatch_msg h msg (calls_init w))"
    using k_msg [of "calls_init w" h] by (simp add: calls_init_def r_into_rtranclp)
  obtain ok v where v: "immediate h msg w = (Ret ok, v)"
    by (cases "handleImmediate (h_sub_unmarshal h) msg (h_requests w)") (auto simp: immediate_def)
  show ?thesis
  proof (cases ok)
    case True
    then have "cs_h (dispatch_msg h msg (calls_init w)) = w1 \<and> callWG_zero (dispatch_msg h msg (calls_init w))"
      using assms v by (simp add: handleMsg_def bindP_def run_simps dispatch_msg_def calls_init_def callWG_zero_def)
    with start show ?thesis by blast
  next
    case False
    with assms v obtain a cp v' where a: "handleCallMsg h [] msg v = (Ret (a, cp), v')" "reply (map_option WMsg a) cp v' = (Ret (), w1)"
      by (auto simp: handleMsg_def run_simps elim!: bindP_RetE)
    let ?p = "call_proc0 False [msg] (CallRun [msg] [] [])"
    have "dispatch_msg h msg (calls_init w) = alone (calls_init w) ?p v"
      using False v by (simp add: dispatch_msg_def startCallProc_def alone_def calls_init_def)
    moreover have "handle_calls h [] [msg] v = (Ret (case a of None \<Rightarrow> [] | Some a \<Rightarrow> [a], cp), v')"
      using a(1) by (simp add: run_simps)
    ultimately show ?thesis using start a(2)
      by (intro alone_finish [of h "calls_init w" "calls_init w" ?p v "[msg]" "case a of None \<Rightarrow> [] | Some a \<Rightarrow> [a]" cp v']) (auto simp: call_proc0_def answer_wire_def split: option.splits)
  qed
qed

lemma batch_alone:
  assumes "handleBatch h msgs w = (Ret (), w2)"
  shows "\<exists>t. (calls_step h (\<lambda>_. False))\<^sup>*\<^sup>* (calls_init w) t \<and> cs_h t = w2 \<and> callWG_zero t"
proof -
  let ?run = "(calls_step h (\<lambda>_. False))\<^sup>*\<^sup>*"
  have start: "?run (calls_init w) (dispatch_batch h msgs (calls_init w))"
    using k_batch [of "calls_init w" h] by (simp add: calls_init_def r_into_rtranclp)
  show ?thesis
  proof (cases "msgs = []")
    case True
    let ?e = "[errorMessage (invalidRequestError ''empty batch'')]"
    let ?p = "call_proc0 False [] (CallReply ?e [])"
    have "dispatch_batch h msgs (calls_init w) = alone (calls_init w) ?p w"
      using True by (simp add: dispatch_batch_def startCallProc_def alone_def calls_init_def)
    with start have s: "?run (calls_init w) (alone (calls_init w) ?p w)" by simp
    obtain p' where p': "proc_step h ?p w = Some (p', w2)" "cp_pc p' = CallNotify []"
      using assms True
      by (auto simp: handleBatch_def proc_step_def call_proc0_def answer_wire_def run_simps elim!: bindP_RetE)
    have "activate_all [] w2 = (Ret (), w2)" by (simp add: run_simps)
    from alone_notify [OF this p'(2)] alone_step [OF p'(1)] s
    have "?run (calls_init w) (alone (calls_init w) (p'\<lparr>cp_pc := CallDone\<rparr>) w2)"
      by (meson rtranclp.rtrancl_into_rtrancl rtranclp_trans)
    then show ?thesis by (intro exI [of _ "alone (calls_init w) (p'\<lparr>cp_pc := CallDone\<rparr>) w2"]) (simp add: alone_def callWG_zero_def)
  next
    case False
    obtain calls v where c: "filter_calls h msgs w = (Ret calls, v)" using filter_calls_Ret by blast
    show ?thesis
    proof (cases "calls = []")
      case True
      then have "cs_h (dispatch_batch h msgs (calls_init w)) = w2 \<and> callWG_zero (dispatch_batch h msgs (calls_init w))"
        using assms c False by (simp add: handleBatch_def bindP_def run_simps dispatch_batch_def calls_init_def callWG_zero_def)
      with start show ?thesis by blast
    next
      case calls: False
      with assms c False obtain rs cp v' where a: "handle_calls h [] calls v = (Ret (rs, cp), v')"
        "reply (if rs \<noteq> [] then Some (WBatch rs) else None) cp v' = (Ret (), w2)"
        by (auto simp: handleBatch_def run_simps elim!: bindP_RetE)
      let ?p = "call_proc0 True calls (CallRun calls [] [])"
      have "dispatch_batch h msgs (calls_init w) = alone (calls_init w) ?p v"
        using False calls c by (simp add: dispatch_batch_def startCallProc_def alone_def calls_init_def)
      with start a show ?thesis
        by (intro alone_finish [of h "calls_init w" "calls_init w" ?p v calls rs cp v'])
          (auto simp: call_proc0_def answer_wire_def split: list.splits if_splits)
    qed
  qed
qed

text \<open>The pieces of a call goroutine compose to the handler's programs: for a message or a batch whose
  service as one program (\<open>handleMsg\<close>, \<open>handleBatch\<close>) returns, the interleaved system can take it, run its
  goroutine alone to the end, and is then in the state that the program gives.\<close>

theorem goroutine_refines_program:
  assumes "handleMsg h msg w = (Ret (), w1)" and "handleBatch h msgs w = (Ret (), w2)"
  shows "(\<exists>t. (calls_step h (\<lambda>_. False))\<^sup>*\<^sup>* (calls_init w) t \<and> cs_h t = w1 \<and> callWG_zero t) \<and>
    (\<exists>t. (calls_step h (\<lambda>_. False))\<^sup>*\<^sup>* (calls_init w) t \<and> cs_h t = w2 \<and> callWG_zero t)"
  using msg_alone [OF assms(1)] batch_alone [OF assms(2)] by blast

theorem goroutine_refines_program_witness:
  "\<exists>t. (calls_step test_handler (\<lambda>_. False))\<^sup>*\<^sup>* (calls_init (handler_state0 [])) t \<and>
     cs_h t = snd (handleMsg test_handler (call_message ''1'' ''foo_bar'' []) (handler_state0 [])) \<and> callWG_zero t"
proof -
  let ?m = "call_message ''1'' ''foo_bar'' []"
  have "fst (handleMsg test_handler ?m (handler_state0 [])) = Ret ()" "fst (handleBatch test_handler [?m] (handler_state0 [])) = Ret ()"
    by code_simp+
  then have "handleMsg test_handler ?m (handler_state0 []) = (Ret (), snd (handleMsg test_handler ?m (handler_state0 [])))"
    "handleBatch test_handler [?m] (handler_state0 []) = (Ret (), snd (handleBatch test_handler [?m] (handler_state0 [])))"
    by (simp_all add: prod_eq_iff)
  from goroutine_refines_program [OF this] show ?thesis by blast
qed

end
