(* ===== verification/Rpc_Close.thy ===== *)
theory Rpc_Close
  imports Rpc_Calls
begin

text \<open>
  The close of a connection handler completes (src/util/rpc/handler.go): if the functions of the methods
  return or panic, the goroutines of \<open>Rpc_Calls\<close> can finish with their answers and the wait of \<open>close\<close> ends.
\<close>

section \<open>Closing completes\<close>

text \<open>A notifier with buffered notifications has a subscription, so that it can be activated.\<close>

definition notifiers_ok :: "('x, 'v) hstate \<Rightarrow> bool" where
  "notifiers_ok w \<longleftrightarrow> list_all (\<lambda>n. n_buffer n \<noteq> [] \<longrightarrow> n_sub n \<noteq> None) (h_notifiers w)"

definition in_range :: "nat list \<Rightarrow> ('x, 'v) hstate \<Rightarrow> bool" where
  "in_range cp w \<longleftrightarrow> list_all (\<lambda>n. n < length (h_notifiers w)) cp"

lemma send_all_Ret: "ds = [] \<or> n_sub n \<noteq> None \<Longrightarrow> \<exists>err c'. send_all n ds c = (Ret err, c')"
proof (induction ds arbitrary: c)
  case (Cons d ds)
  then obtain i where i: "n_sub n = Some i" by auto
  obtain err c1 where "Notifier_send n d c = (Ret err, c1)"
    by (cases "write_fails c (attempts c)") (auto simp: Notifier_send_def i write_message_def)
  with Cons i show ?case by (cases err) (auto simp: bindP_def run_simps)
qed (simp add: run_simps)

lemma activate_ok:
  assumes "notifiers_ok w" and "n < length (h_notifiers w)"
  shows "\<exists>w'. activate_all [n] w = (Ret (), w') \<and> notifiers_ok w' \<and> length (h_notifiers w') = length (h_notifiers w)"
proof -
  let ?n = "h_notifiers w ! n"
  have ok: "n_buffer ?n \<noteq> [] \<longrightarrow> n_sub ?n \<noteq> None" using assms by (simp add: notifiers_ok_def list_all_length)
  then obtain err c where c: "send_all ?n (n_buffer ?n) (h_conn w) = (Ret err, c)" using send_all_Ret by blast
  let ?n' = "if err = None then ?n\<lparr>n_activated := True\<rparr> else ?n"
  have "activate ?n (h_conn w) = (Ret (err, ?n'), c)"
    by (cases err) (simp_all add: activate_def bindP_def c run_simps)
  then have "activate_all [n] w = (Ret (), w\<lparr>h_notifiers := (h_notifiers w)[n := ?n'], h_conn := c\<rparr>)"
    by (simp add: run_simps)
  moreover have "list_all (\<lambda>n. n_buffer n \<noteq> [] \<longrightarrow> n_sub n \<noteq> None) ((h_notifiers w)[n := ?n'])"
    using assms(1) ok by (auto simp: notifiers_ok_def list_all_iff dest!: set_update_subset_insert [THEN subsetD])
  ultimately show ?thesis by (auto simp: notifiers_ok_def)
qed

definition proc_notifiers :: "call_proc \<Rightarrow> nat list" where
  "proc_notifiers p = (case cp_pc p of CallRun _ _ cp \<Rightarrow> cp | CallReply _ cp \<Rightarrow> cp | CallNotify cp \<Rightarrow> cp | CallDone \<Rightarrow> [])"

definition to_serve :: "call_proc \<Rightarrow> jsonrpcMessage list" where
  "to_serve p = (case cp_pc p of CallRun ms _ _ \<Rightarrow> ms | _ \<Rightarrow> [])"

definition rank :: "call_proc \<Rightarrow> nat \<times> nat" where
  "rank p = (case cp_pc p of CallRun ms _ _ \<Rightarrow> (3, length ms) | CallReply _ _ \<Rightarrow> (2, 0) | CallNotify cp \<Rightarrow> (1, length cp) | CallDone \<Rightarrow> (0, 0))"

text \<open>
  What is asked of the methods and subscriptions that are registered: their functions return or panic, on all
  arguments, without ending the process; they may add notifiers, which they use through their operations only. That the
  handler's own code around them returns is proved.
\<close>

definition fn_returns :: "(('x, 'v) hstate, nat option, 'v) callback \<Rightarrow> bool" where
  "fn_returns cb \<longleftrightarrow> (\<forall>args w out w'. fn_Call (cb_fn cb) args w = (out, w') \<longrightarrow> (\<forall>c. out \<noteq> Exited c) \<and>
     (notifiers_ok w \<longrightarrow> notifiers_ok w') \<and> length (h_notifiers w) \<le> length (h_notifiers w'))"

definition methods_return :: "('x, 'v) handler \<Rightarrow> bool" where
  "methods_return h \<longleftrightarrow> (\<forall>method cb. lookup_callback (h_reg h) method = Some cb \<longrightarrow> fn_returns cb) \<and>
     (\<forall>ns name cb. lookup_subscription (h_reg h) ns name = Some cb \<longrightarrow> fn_returns cb)"

lemma in_range_mono: "in_range cp w \<Longrightarrow> length (h_notifiers w) \<le> length (h_notifiers w') \<Longrightarrow> in_range cp w'"
  by (auto simp: in_range_def list_all_iff)

lemma callback_call_Ret:
  assumes "fn_returns cb" and "notifiers_ok w"
  shows "\<exists>r w'. callback_call cb ctx args w = (Ret r, w') \<and> notifiers_ok w' \<and> length (h_notifiers w) \<le> length (h_notifiers w')"
proof -
  let ?args = "(if cb_rcvr cb then [ArgRcvr] else []) @ (if cb_hasCtx cb then [ArgCtx ctx] else []) @ map ArgVal args"
  obtain out w' where f: "fn_Call (cb_fn cb) ?args w = (out, w')" by (cases "fn_Call (cb_fn cb) ?args w")
  with assms have o: "\<And>c. out \<noteq> Exited c" "notifiers_ok w'" "length (h_notifiers w) \<le> length (h_notifiers w')"
    unfolding fn_returns_def by blast+
  have "\<exists>r. callback_call cb ctx args w = (Ret r, w')"
  proof (cases out)
    case (Ret results)
    have "call_results cb results w' = (Panicked ''index out of range'', w') \<or> (\<exists>r. call_results cb results w' = (Ret r, w'))"
      by (auto simp: call_results_def run_simps split: option.splits goresult.splits)
    with Ret f show ?thesis by (auto simp: callback_call_def recoverP_def bindP_def Let_def simp del: append.simps)
  qed (use f o(1) in \<open>auto simp: callback_call_def recoverP_def bindP_def Let_def\<close>)
  with o show ?thesis by blast
qed

lemma runMethod_Ret:
  assumes "fn_returns cb" and "notifiers_ok w"
  shows "\<exists>r w'. runMethod h ctx msg cb args w = (Ret r, w') \<and> notifiers_ok w' \<and> length (h_notifiers w) \<le> length (h_notifiers w')"
  using callback_call_Ret [OF assms, of ctx args] by (auto simp: runMethod_def bindP_def run_simps split: prod.splits)

lemma unsubscribe_returns: "unsubscribeCb h = Some cb \<Longrightarrow> fn_returns cb"
  by (auto simp: unsubscribeCb_eq fn_returns_def unsubscribe_fn_def unsubscribe_def notifiers_ok_def bindP_def run_simps
      split: list.splits goarg.splits if_splits)

text \<open>A call that returns in the state \<open>w\<close>, with notifiers as they have to be.\<close>

definition serves :: "('x, 'v) hstate \<Rightarrow> (('x, 'v) hstate, 'r \<times> nat list) prog \<Rightarrow> bool" where
  "serves w m \<longleftrightarrow> (\<exists>r cp' w'. m w = (Ret (r, cp'), w') \<and> notifiers_ok w' \<and> in_range cp' w' \<and>
     length (h_notifiers w) \<le> length (h_notifiers w'))"

lemma serves_return: "notifiers_ok w \<Longrightarrow> in_range cp w \<Longrightarrow> serves w (returnP (r, cp))"
  by (simp add: serves_def run_simps)

lemma serves_subscription:
  assumes "fn_returns cb" and "notifiers_ok w" and "in_range cp w"
  shows "serves w (bindP (new_notifier ns) (\<lambda>n. bindP (runMethod h (Some n) msg cb args) (\<lambda>answer. returnP (answer, cp @ [n]))))"
proof -
  let ?n = "length (h_notifiers w)" and ?w = "w\<lparr>h_notifiers := h_notifiers w @ [new_Notifier ns]\<rparr>"
  have "notifiers_ok ?w" using assms(2) by (simp add: notifiers_ok_def new_Notifier_def)
  from runMethod_Ret [OF assms(1) this, of h "Some ?n" msg args] obtain r w' where r: "runMethod h (Some ?n) msg cb args ?w = (Ret r, w')"
    "notifiers_ok w'" "Suc ?n \<le> length (h_notifiers w')" by auto
  then show ?thesis using in_range_mono [OF assms(3), of w'] by (simp add: serves_def new_notifier_def bindP_def run_simps in_range_def)
qed

lemma serves_method:
  assumes "fn_returns cb" and "notifiers_ok w" and "in_range cp w"
  shows "serves w (bindP (runMethod h None msg cb args) (\<lambda>answer. returnP (answer, cp)))"
  using runMethod_Ret [OF assms(1,2), of h None msg args] in_range_mono [OF assms(3)] by (auto simp: serves_def bindP_def run_simps)

lemma handleCall_serves:
  assumes "methods_return h" and "notifiers_ok w" and "in_range cp w"
  shows "serves w (handleCall h cp msg)"
proof (cases "isSubscribe msg")
  case True
  have "fn_returns cb" if "lookup_subscription (h_reg h) ns name = Some cb" for ns name cb
    using assms(1) that by (auto simp: methods_return_def)
  with True assms(2,3) show ?thesis
    by (auto simp: handleCall_def handleSubscribe_def intro: serves_return serves_subscription split: sum.splits option.splits)
next
  case False
  let ?cb = "if isUnsubscribe msg then unsubscribeCb h else lookup_callback (h_reg h) (Method msg)"
  have "fn_returns cb" if "?cb = Some cb" for cb
    using assms(1) that unsubscribe_returns by (auto simp: methods_return_def split: if_splits)
  then show ?thesis using False assms(2,3)
    by (cases ?cb) (auto simp: handleCall_def intro: serves_return serves_method split: sum.splits)
qed

lemma handleCallMsg_serves:
  assumes "methods_return h" and "notifiers_ok w" and "in_range cp w"
  shows "serves w (handleCallMsg h cp msg)"
  using handleCall_serves [OF assms, of msg] assms(2,3) by (auto simp: serves_def handleCallMsg_def bindP_def run_simps)

lemma addSubscriptions_ok:
  "notifiers_ok w \<Longrightarrow> notifiers_ok (addSubscriptions nn w) \<and> length (h_notifiers (addSubscriptions nn w)) = length (h_notifiers w)"
proof (induction nn arbitrary: w)
  case (Cons n nn)
  have "list_all (\<lambda>n. n_buffer n \<noteq> [] \<longrightarrow> n_sub n \<noteq> None) ((h_notifiers w)[n := (h_notifiers w ! n)\<lparr>n_callReturned := True\<rparr>])"
  proof (cases "n < length (h_notifiers w)")
    case True
    with Cons.prems show ?thesis
      by (auto simp: notifiers_ok_def list_all_iff dest!: set_update_subset_insert [THEN subsetD])
  next
    case False
    with Cons.prems show ?thesis by (simp add: notifiers_ok_def list_update_beyond)
  qed
  then show ?case using Cons.IH by (auto simp: notifiers_ok_def takeSubscription_def Let_def split: option.splits)
qed simp

lemma proc_progress:
  assumes "methods_return h" and "notifiers_ok w" and "in_range (proc_notifiers p) w" and "cp_pc p \<noteq> CallDone"
  shows "\<exists>p' w'. proc_step h p w = Some (p', w') \<and> notifiers_ok w' \<and> in_range (proc_notifiers p') w' \<and>
    length (h_notifiers w) \<le> length (h_notifiers w') \<and> set (to_serve p') \<subseteq> set (to_serve p) \<and> (rank p', rank p) \<in> less_than <*lex*> less_than"
proof (cases "cp_pc p")
  case (CallRun ms ans cp)
  show ?thesis
  proof (cases ms)
    case Nil
    with CallRun assms(2,3) addSubscriptions_ok [OF assms(2), of cp] show ?thesis
      by (auto simp: proc_step_def proc_notifiers_def to_serve_def rank_def in_range_def)
  next
    case (Cons m rest)
    have "in_range cp w" using CallRun assms(3) by (simp add: proc_notifiers_def)
    from handleCallMsg_serves [OF assms(1,2) this, of m] obtain a cp' w' where "handleCallMsg h cp m w = (Ret (a, cp'), w')"
      "notifiers_ok w'" "in_range cp' w'" "length (h_notifiers w) \<le> length (h_notifiers w')" unfolding serves_def by blast
    with CallRun Cons show ?thesis by (auto simp: proc_step_def proc_notifiers_def to_serve_def rank_def)
  qed
next
  case (CallReply ans cp)
  show ?thesis
  proof (cases "answer_wire (cp_batch p) ans")
    case None
    with CallReply assms(2,3) show ?thesis by (auto simp: proc_step_def proc_notifiers_def to_serve_def rank_def)
  next
    case (Some a)
    obtain err c where "write_message a (h_conn w) = (Ret err, c)"
      by (cases "write_fails (h_conn w) (attempts (h_conn w))") (auto simp: write_message_def)
    with Some CallReply assms(2,3) show ?thesis
      by (auto simp: proc_step_def lift_conn_def proc_notifiers_def to_serve_def rank_def notifiers_ok_def in_range_def)
  qed
next
  case (CallNotify cp)
  show ?thesis
  proof (cases cp)
    case Nil
    with CallNotify assms(2) show ?thesis by (auto simp: proc_step_def proc_notifiers_def to_serve_def rank_def in_range_def)
  next
    case (Cons n rest)
    with CallNotify assms(3) have "n < length (h_notifiers w)" by (simp add: proc_notifiers_def in_range_def)
    from activate_ok [OF assms(2) this] obtain w' where w': "activate_all [n] w = (Ret (), w')" "notifiers_ok w'"
      "length (h_notifiers w') = length (h_notifiers w)" by blast
    then have "proc_step h p w = Some (p\<lparr>cp_pc := CallNotify rest\<rparr>, w')" using CallNotify Cons by (simp only: proc_step_def) simp
    with w' CallNotify Cons assms(3) show ?thesis by (auto simp: proc_notifiers_def to_serve_def rank_def in_range_def)
  qed
qed (use assms(4) in simp)

definition notify_inv :: "('x, 'v) handler \<Rightarrow> ('x, 'v) calls \<Rightarrow> bool" where
  "notify_inv h s \<longleftrightarrow> (methods_return h \<longrightarrow> notifiers_ok (cs_h s) \<and> (\<forall>p \<in> set (cs_procs s). in_range (proc_notifiers p) (cs_h s)))"

lemma filter_calls_notifiers: "filter_calls h msgs w = (Ret calls, w') \<Longrightarrow> h_notifiers w' = h_notifiers w"
  by (induction msgs arbitrary: w calls) (auto simp: immediate_def Let_def run_simps elim!: bindP_RetE split: prod.splits)

lemma notify_inv_update:
  assumes "notify_inv h s" and "h_notifiers w = h_notifiers (cs_h s)"
  shows "notify_inv h (s\<lparr>cs_h := w\<rparr>)" "notify_inv h (startCallProc (call_proc0 b ms (CallRun ms ans [])) (s\<lparr>cs_h := w\<rparr>))"
    "notify_inv h (startCallProc (call_proc0 b ms (CallReply ans [])) s)"
  using assms by (auto simp: notify_inv_def notifiers_ok_def in_range_def startCallProc_def call_proc0_def proc_notifiers_def)

lemma Notify_ok:
  "Notify subid enc n c = (Ret (err, n'), c') \<Longrightarrow> n_buffer n \<noteq> [] \<longrightarrow> n_sub n \<noteq> None \<Longrightarrow> n_buffer n' \<noteq> [] \<longrightarrow> n_sub n' \<noteq> None"
  by (auto simp: Notify_def run_simps elim!: bindP_RetE split: sum.splits option.splits if_splits)

lemma notify_app_ok:
  assumes "notify_app n subid enc w = Some w'" and "notifiers_ok w" and "n < length (h_notifiers w)"
  shows "notifiers_ok w' \<and> length (h_notifiers w') = length (h_notifiers w)"
proof -
  from assms(1) obtain err n' c where *: "Notify subid enc (h_notifiers w ! n) (h_conn w) = (Ret (err, n'), c)"
    "w' = w\<lparr>h_notifiers := (h_notifiers w)[n := n'], h_conn := c\<rparr>" by (auto simp: notify_app_def split: prod.splits outcome.splits)
  have "n_buffer n' \<noteq> [] \<longrightarrow> n_sub n' \<noteq> None"
    by (rule Notify_ok [OF *(1)]) (use assms(2,3) in \<open>simp add: notifiers_ok_def list_all_length\<close>)
  with * assms(2) show ?thesis
    by (auto simp: notifiers_ok_def list_all_iff dest!: set_update_subset_insert [THEN subsetD])
qed

lemma notify_inv_step:
  assumes "notify_inv h s" and "calls_step h ctx_bound s t"
  shows "notify_inv h t"
  using assms(2)
proof cases
  case (k_msg msg)
  obtain ok w where i: "immediate h msg (cs_h s) = (Ret ok, w)" "h_notifiers w = h_notifiers (cs_h s)"
    by (cases "handleImmediate (h_sub_unmarshal h) msg (h_requests (cs_h s))") (auto simp: immediate_def)
  with k_msg notify_inv_update [OF assms(1) i(2)] show ?thesis by (simp add: dispatch_msg_def)
next
  case (k_batch msgs)
  obtain calls w where i: "filter_calls h msgs (cs_h s) = (Ret calls, w)" using filter_calls_Ret by blast
  with k_batch notify_inv_update [OF assms(1) filter_calls_notifiers [OF i]] notify_inv_update(3) [OF assms(1) refl] show ?thesis
    by (simp add: dispatch_batch_def)
next
  case (k_proc k p w)
  show ?thesis unfolding notify_inv_def
  proof
    assume h: "methods_return h"
    with assms(1) have i: "notifiers_ok (cs_h s)" "\<forall>p \<in> set (cs_procs s). in_range (proc_notifiers p) (cs_h s)" by (simp_all add: notify_inv_def)
    have "cp_pc (cs_procs s ! k) \<noteq> CallDone" using proc_step_done [OF k_proc(4)] .
    from proc_progress [OF h i(1) _ this] i(2) k_proc(2,4) have
      "notifiers_ok w" "in_range (proc_notifiers p) w" "length (h_notifiers (cs_h s)) \<le> length (h_notifiers w)" by auto
    with i(2) k_proc(1) show "notifiers_ok (cs_h t) \<and> (\<forall>p \<in> set (cs_procs t). in_range (proc_notifiers p) (cs_h t))"
      by (auto dest!: set_update_subset_insert [THEN subsetD] intro: in_range_mono)
  qed
next
  case (k_notify n subid enc w)
  with assms(1) notify_app_ok [OF k_notify(3) _ k_notify(2)] show ?thesis by (auto simp: notify_inv_def intro: in_range_mono)
next
  case (k_close err inflightReq)
  with assms(1) show ?thesis by (simp add: notify_inv_def notifiers_ok_def in_range_def close_start_def)
next
  case (k_wait err)
  with assms(1) show ?thesis by (simp add: notify_inv_def notifiers_ok_def in_range_def close_finish_def cancelServerSubscriptions_def)
next
  case k_parent
  with assms(1) show ?thesis by (simp add: notify_inv_def)
qed

interpretation notify_sys: step_system "\<lambda>s. \<exists>w. s = calls_init w \<and> notifiers_ok w" "calls_step h ctx_bound" "notify_inv h" for h ctx_bound
proof unfold_locales
  show "notify_inv h s" if "\<exists>w. s = calls_init w \<and> notifiers_ok w" for s
    using that by (auto simp: notify_inv_def calls_init_def)
qed (rule notify_inv_step)

lemma proc_step_msgs: "proc_step h p w = Some (p', w') \<Longrightarrow> cp_msgs p' = cp_msgs p"
  by (auto simp: proc_step_def split: call_pc.splits list.splits prod.splits outcome.splits option.splits)

text \<open>The goroutine does not have to wait for its context, or need not wait any more.\<close>

definition can_go :: "(jsonrpcMessage \<Rightarrow> bool) \<Rightarrow> bool \<Rightarrow> call_proc \<Rightarrow> bool" where
  "can_go ctx_bound parentDone p \<longleftrightarrow> parentDone \<or> list_all (\<lambda>m. \<not> ctx_bound m) (to_serve p)"

lemma finish_one:
  assumes "methods_return h" and "k < length (cs_procs s)" and "notify_inv h s" and "can_go ctx_bound (cs_parentDone s) (cs_procs s ! k)"
  shows "\<exists>t p. (calls_step h ctx_bound)\<^sup>*\<^sup>* s t \<and> cs_close t = cs_close s \<and> cs_parentDone t = cs_parentDone s \<and>
    cs_procs t = (cs_procs s)[k := p] \<and> cp_pc p = CallDone \<and> cp_msgs p = cp_msgs (cs_procs s ! k)"
  using assms(2-4)
proof (induction "rank (cs_procs s ! k)" arbitrary: s rule: wf_induct_rule [OF wf_lex_prod [OF wf_less_than wf_less_than]])
  case (1 s)
  let ?p = "cs_procs s ! k"
  show ?case
  proof (cases "cp_pc ?p = CallDone")
    case True
    then show ?thesis using "1.prems"(1) by (intro exI [of _ s] exI [of _ ?p]) simp
  next
    case False
    have i: "notifiers_ok (cs_h s)" "in_range (proc_notifiers ?p) (cs_h s)" using "1.prems" assms(1) by (auto simp: notify_inv_def)
    from proc_progress [OF assms(1) i False] obtain p' w' where p': "proc_step h ?p (cs_h s) = Some (p', w')"
      "set (to_serve p') \<subseteq> set (to_serve ?p)" "(rank p', rank ?p) \<in> less_than <*lex*> less_than" by blast
    let ?t = "s\<lparr>cs_procs := (cs_procs s)[k := p'], cs_h := w'\<rparr>"
    have "waits_for ctx_bound ?p \<longrightarrow> ctx_done s"
      using "1.prems"(3) by (auto simp: can_go_def ctx_done_def waits_for_def to_serve_def split: call_pc.splits list.splits)
    then have st: "calls_step h ctx_bound s ?t" using "1.prems"(1) p'(1) by (intro k_proc) auto
    have "\<exists>t p. (calls_step h ctx_bound)\<^sup>*\<^sup>* ?t t \<and> cs_close t = cs_close ?t \<and> cs_parentDone t = cs_parentDone ?t \<and>
        cs_procs t = (cs_procs ?t)[k := p] \<and> cp_pc p = CallDone \<and> cp_msgs p = cp_msgs (cs_procs ?t ! k)"
      using "1.prems" p' notify_inv_step [OF "1.prems"(2) st] by (intro "1.hyps") (auto simp: can_go_def list_all_iff)
    then show ?thesis using st "1.prems"(1) proc_step_msgs [OF p'(1)] by (auto intro: converse_rtranclp_into_rtranclp)
  qed
qed

lemma finish_first:
  assumes "methods_return h" and "notify_inv h s" and "list_all (can_go ctx_bound (cs_parentDone s)) (cs_procs s)"
  shows "k \<le> length (cs_procs s) \<Longrightarrow> \<exists>t. (calls_step h ctx_bound)\<^sup>*\<^sup>* s t \<and> cs_close t = cs_close s \<and> cs_parentDone t = cs_parentDone s \<and>
    map cp_msgs (cs_procs t) = map cp_msgs (cs_procs s) \<and> (\<forall>j < k. cp_pc (cs_procs t ! j) = CallDone) \<and> drop k (cs_procs t) = drop k (cs_procs s)"
proof (induction k)
  case (Suc k)
  then obtain t where t: "(calls_step h ctx_bound)\<^sup>*\<^sup>* s t" "cs_close t = cs_close s" "cs_parentDone t = cs_parentDone s"
    "map cp_msgs (cs_procs t) = map cp_msgs (cs_procs s)"
    "\<forall>j < k. cp_pc (cs_procs t ! j) = CallDone" "drop k (cs_procs t) = drop k (cs_procs s)" by auto
  have len: "length (cs_procs t) = length (cs_procs s)" using t(4) by (rule map_eq_imp_length_eq)
  then have k: "k < length (cs_procs t)" using Suc.prems by simp
  have "cs_procs t ! k = cs_procs s ! k" using len t(6) Suc.prems by (metis Suc_le_lessD hd_drop_conv_nth)
  then have "can_go ctx_bound (cs_parentDone t) (cs_procs t ! k)" using assms(3) Suc.prems t(3) by (simp add: list_all_length)
  from finish_one [OF assms(1) k notify_sys.inv_run [OF t(1) assms(2)] this] obtain u p where
    u: "(calls_step h ctx_bound)\<^sup>*\<^sup>* t u" "cs_close u = cs_close t" "cs_parentDone u = cs_parentDone t" "cs_procs u = (cs_procs t)[k := p]"
    "cp_pc p = CallDone" "cp_msgs p = cp_msgs (cs_procs t ! k)" by blast
  have "drop (Suc k) (cs_procs u) = drop (Suc k) (cs_procs s)"
    using arg_cong [OF t(6), of tl] unfolding u(4) by (simp add: tl_drop drop_Suc flip: drop_Suc)
  moreover have "map cp_msgs (cs_procs u) = map cp_msgs (cs_procs t)"
    using k by (simp add: u(4,6) map_update list_update_same_conv)
  ultimately show ?case using t u k
    by (intro exI [of _ u]) (auto simp: less_Suc_eq nth_list_update intro: rtranclp_trans)
qed auto

text \<open>C19. Closing a handler completes when its calls can: from every state in which \<open>close\<close> waits, however
  it was reached, if the functions of the registered methods and subscriptions return or panic and none of
  those still to run waits for its context (or the context of the connection has ended), then all call goroutines can
  run to their end and \<open>close\<close> returns. No panic stands in the way: one of a method becomes an error
  answer, and the handler's own code does not panic. All messages of the goroutines are then answered as they should
  be: each goroutine has written one answer, with the response to each of its messages but the notifications, in their
  order, or nothing if there is none to respond to, unless its write failed, and no other answer is on the
  connection.\<close>

theorem close_completes:
  assumes "methods_return h" and "notifiers_ok w" and "services_keep replies h" and "replies (h_conn w) = []"
    and "(calls_step h ctx_bound)\<^sup>*\<^sup>* (calls_init w) s"
    and "cs_close s = CWaiting err" and "cs_parentDone s \<or> list_all (\<lambda>p. list_all (\<lambda>m. \<not> ctx_bound m) (to_serve p)) (cs_procs s)"
  shows "\<exists>t. (calls_step h ctx_bound)\<^sup>*\<^sup>* s t \<and> cs_close t = CClosed \<and> map cp_msgs (cs_procs t) = map cp_msgs (cs_procs s) \<and>
    list_all (\<lambda>p. cp_pc p = CallDone \<and> (\<not> cp_failed p \<longrightarrow>
      (\<exists>rs. answered p rs \<and> cp_sent p = (case rs of [] \<Rightarrow> None | r # _ \<Rightarrow> Some (if cp_batch p then WBatch rs else WMsg r))))) (cs_procs t) \<and>
    mset (replies (h_conn (cs_h t))) = mset (sent_by (cs_procs t))"
proof -
  have i: "notify_inv h s" by (rule notify_sys.inv_reachable [OF _ assms(5)]) (use assms(2) in blast)
  have "list_all (can_go ctx_bound (cs_parentDone s)) (cs_procs s)" using assms(7) by (auto simp: can_go_def list_all_iff)
  from finish_first [OF assms(1) i this le_refl] obtain t where t: "(calls_step h ctx_bound)\<^sup>*\<^sup>* s t" "cs_close t = CWaiting err"
    "map cp_msgs (cs_procs t) = map cp_msgs (cs_procs s)" "\<forall>j < length (cs_procs s). cp_pc (cs_procs t ! j) = CallDone"
    using assms(6) by auto
  then have z: "callWG_zero t" using map_eq_imp_length_eq [OF t(3)] by (simp add: callWG_zero_def list_all_length)
  let ?t = "close_finish err t"
  have r: "(calls_step h ctx_bound)\<^sup>*\<^sup>* s ?t" using t(1) k_wait [OF t(2) z] by (rule rtranclp.rtrancl_into_rtrancl)
  have "calls_inv h ?t" by (rule calls_sys.inv_reachable [OF _ rtranclp_trans [OF assms(5) r]]) (use assms(4) in blast)
  from calls_inv_answered [OF this assms(3)] z t(3) r show ?thesis
    by (intro exI [of _ ?t]) (auto simp: close_finish_def callWG_zero_def list_all_iff)
qed

text \<open>A service with one method, which panics.\<close>

definition crash_handler :: "(unit, int) handler" where
  "crash_handler = test_handler\<lparr>h_reg := [(''foo'', \<lparr>svc_name = ''foo'', svc_callbacks = [(''bar'',
     \<lparr>cb_fn = \<lparr>fn_In = [], fn_Out = [], fn_Call = (\<lambda>_. panicP ''crash'')\<rparr>, cb_rcvr = False, cb_argTypes = [], cb_hasCtx = False,
       cb_errPos = None, cb_isSubscribe = False\<rparr>)], svc_subscriptions = []\<rparr>)]\<rparr>"

theorem close_completes_witness:
  "\<exists>s t. run_sched crash_handler (\<lambda>_. False) [SMsg (call_message ''1'' ''foo_bar'' []), SBatch [], SProc 1, SClose None] (calls_init (handler_state0 [])) = Some s \<and>
     (calls_step crash_handler (\<lambda>_. False))\<^sup>*\<^sup>* s t \<and> cs_close t = CClosed \<and> callWG_zero t"
proof -
  let ?run = "run_sched crash_handler (\<lambda>_. False) [SMsg (call_message ''1'' ''foo_bar'' []), SBatch [], SProc 1, SClose None] (calls_init (handler_state0 []))"
  have "map_option cs_close ?run = Some (CWaiting None)" by code_simp
  then obtain s where s: "?run = Some s" "cs_close s = CWaiting None" by (auto simp: map_option_eq_Some)
  have r: "methods_return crash_handler" "services_keep replies crash_handler"
    by (auto simp: methods_return_def services_keep_def fn_returns_def fn_keeps_def crash_handler_def lookup_callback_def
        lookup_subscription_def Let_def run_simps split: if_splits)
  have "notifiers_ok (handler_state0 [])" "replies (h_conn (handler_state0 [])) = []"
    by (simp_all add: notifiers_ok_def replies_def handler_state0_def)
  from close_completes [OF r(1) this(1) r(2) this(2) run_sched_steps [OF s(1)] s(2)] s(1) show ?thesis
    by (auto simp: list_all_iff callWG_zero_def)
qed

end
