(* ===== verification/Call_Server.thy ===== *)
theory Call_Server
  imports Rpc_Calls
begin

text \<open>
  What a connection handler promises to its peer, as an abstract server of jobs, and the refinement of
  the handler's goroutines (src/util/rpc/handler.go) to it. A job is a message or a batch; it runs, and
  then ends in one step: with the right answer on the wire, silently when it has only notifications,
  or with its answer lost to a write error. The server takes jobs until its close begins and is
  closed when none of them runs. Subscriptions, notifiers, registrations and the pieces of a goroutine
  are invisible in it.
\<close>

section \<open>The server\<close>

datatype job_state = Running | Silent | Lost | Answered wire

record job =
  j_batch :: bool
  j_msgs :: "jsonrpcMessage list"
  j_state :: job_state

datatype phase = Serving | Closing | Closed

record call_server =
  jobs :: "job list"
  on_conn :: "wire multiset"
  phase :: phase

definition call_server0 :: call_server where
  "call_server0 = \<lparr>jobs = [], on_conn = {#}, phase = Serving\<rparr>"

text \<open>The answers a job owes: one per message that is not a notification, in their order.\<close>

definition owes :: "jsonrpcMessage list \<Rightarrow> jsonrpcMessage list \<Rightarrow> bool" where
  "owes msgs ans \<longleftrightarrow> (if msgs = [] then ans = [errorMessage (invalidRequestError ''empty batch'')]
     else list_all2 answers (filter (\<lambda>m. \<not> isNotification m) msgs) ans)"

text \<open>How a job may end, with what that puts on the wire.\<close>

inductive job_end :: "job \<Rightarrow> job_state \<Rightarrow> wire multiset \<Rightarrow> bool" where
  silent: "owes (j_msgs j) [] \<Longrightarrow> job_end j Silent {#}"
| lost: "owes (j_msgs j) (a # ans) \<Longrightarrow> job_end j Lost {#}"
| single: "owes (j_msgs j) (a # ans) \<Longrightarrow> \<not> j_batch j \<Longrightarrow> job_end j (Answered (WMsg a)) {#WMsg a#}"
| batched: "owes (j_msgs j) (a # ans) \<Longrightarrow> j_batch j \<Longrightarrow> job_end j (Answered (WBatch (a # ans))) {#WBatch (a # ans)#}"

inductive_cases job_endE: "job_end j st out"

inductive call_server_step :: "call_server \<Rightarrow> call_server \<Rightarrow> bool" where
  accept: "phase a = Serving \<Longrightarrow>
     call_server_step a (a\<lparr>jobs := jobs a @ [\<lparr>j_batch = b, j_msgs = ms, j_state = Running\<rparr>]\<rparr>)"
| finish: "k < length (jobs a) \<Longrightarrow> j_state (jobs a ! k) = Running \<Longrightarrow> job_end (jobs a ! k) st out \<Longrightarrow>
     call_server_step a (a\<lparr>jobs := (jobs a)[k := (jobs a ! k)\<lparr>j_state := st\<rparr>], on_conn := on_conn a + out\<rparr>)"
| begin_close: "phase a = Serving \<Longrightarrow> call_server_step a (a\<lparr>phase := Closing\<rparr>)"
| end_close: "phase a = Closing \<Longrightarrow> list_all (\<lambda>j. j_state j \<noteq> Running) (jobs a) \<Longrightarrow> call_server_step a (a\<lparr>phase := Closed\<rparr>)"

inductive_cases call_server_stepE: "call_server_step a b"

fun job_wires :: "job_state \<Rightarrow> wire list" where
  "job_wires (Answered a) = [a]"
| "job_wires _ = []"

definition call_server_inv :: "call_server \<Rightarrow> bool" where
  "call_server_inv a \<longleftrightarrow> on_conn a = mset (concat (map (job_wires \<circ> j_state) (jobs a))) \<and>
     list_all (\<lambda>j. j_state j = Running \<or> job_end j (j_state j) (mset (job_wires (j_state j)))) (jobs a) \<and>
     (phase a = Closed \<longrightarrow> list_all (\<lambda>j. j_state j \<noteq> Running) (jobs a))"

lemma job_end_wires: "job_end j st out \<Longrightarrow> out = mset (job_wires st) \<and> st \<noteq> Running"
  by (erule job_endE) auto

lemma job_end_state [simp]: "job_end (j\<lparr>j_state := s\<rparr>) st out \<longleftrightarrow> job_end j st out"
  by (auto simp: job_end.simps)

lemma call_server_inv_step:
  assumes "call_server_inv a" and "call_server_step a b"
  shows "call_server_inv b"
  using assms(2)
proof cases
  case (finish k st out)
  let ?j = "(jobs a ! k)\<lparr>j_state := st\<rparr>"
  note e = job_end_wires [OF finish(4)]
  have "mset (concat (map (job_wires \<circ> j_state) ((jobs a)[k := ?j]))) = mset (concat (map (job_wires \<circ> j_state) (jobs a))) + out"
    using mset_concat_update [OF finish(2), of "job_wires \<circ> j_state" ?j] e finish(3) by simp
  with assms(1) finish e show ?thesis
    by (auto simp: call_server_inv_def list_all_iff dest!: set_update_subset_insert [THEN subsetD])
qed (use assms(1) in \<open>auto simp: call_server_inv_def\<close>)

interpretation server_spec: step_system "\<lambda>a. a = call_server0" call_server_step call_server_inv
proof unfold_locales
  show "call_server_inv a" if "a = call_server0" for a using that by (simp add: call_server_inv_def call_server0_def)
qed (rule call_server_inv_step)

section \<open>The handler as a server\<close>

definition state_of :: "call_proc \<Rightarrow> job_state" where
  "state_of p = (if \<exists>ms ans cp. cp_pc p = CallRun ms ans cp \<or> cp_pc p = CallReply ans cp then Running
     else case cp_sent p of Some a \<Rightarrow> Answered a | None \<Rightarrow> if cp_answers p = [] then Silent else Lost)"

definition job_of :: "call_proc \<Rightarrow> job" where
  "job_of p = \<lparr>j_batch = cp_batch p, j_msgs = cp_msgs p, j_state = state_of p\<rparr>"

definition phase_of :: "close_pc \<Rightarrow> phase" where
  "phase_of c = (case c of COpen \<Rightarrow> Serving | CWaiting _ \<Rightarrow> Closing | CClosed \<Rightarrow> Closed)"

definition server_of :: "('x, 'v) calls \<Rightarrow> call_server" where
  "server_of s = \<lparr>jobs = map job_of (cs_procs s), on_conn = mset (replies (h_conn (cs_h s))), phase = phase_of (cs_close s)\<rparr>"

lemma answered_owes: "answered p ans \<longleftrightarrow> owes (cp_msgs p) ans"
  by (simp add: answered_def owes_def)

text \<open>The piece that ends a job is the write of its answer; all others keep it as it is.\<close>

lemma proc_step_job:
  assumes "services_keep replies h" and "proc_inv p" and "proc_step h p w = Some (p', w')"
  shows "job_of p' = job_of p \<and> replies (h_conn w') = replies (h_conn w) \<or>
    state_of p = Running \<and> (\<exists>st out. job_end (job_of p) st out \<and> job_of p' = (job_of p)\<lparr>j_state := st\<rparr> \<and>
      mset (replies (h_conn w')) = mset (replies (h_conn w)) + out)"
proof (cases "cp_pc p")
  case (CallRun ms ans cp)
  with assms(3) have "job_of p' = job_of p \<and> replies (h_conn w') = replies (h_conn w)"
    by (cases ms) (auto simp: proc_step_def job_of_def state_of_def dest!: handleCallMsg_keeps [OF assms(1)] split: prod.splits outcome.splits)
  then show ?thesis by blast
next
  case (CallReply ans cp)
  with assms(2) have o: "owes (cp_msgs p) ans" "cp_sent p = None" by (auto simp: proc_inv_def answered_owes)
  have r: "state_of p = Running" using CallReply by (simp add: state_of_def)
  have m: "mset (replies (h_conn w')) = mset (replies (h_conn w)) + mset (sent_by [p'])"
    using proc_step_inv [OF assms] o(2) by (simp add: sent_by_def)
  show ?thesis
  proof (cases ans)
    case Nil
    with CallReply assms(3) o have "job_of p' = (job_of p)\<lparr>j_state := Silent\<rparr>" "sent_by [p'] = []"
      by (auto simp: proc_step_def answer_wire_def job_of_def state_of_def sent_by_def)
    with m r o Nil show ?thesis by (auto intro!: exI [of _ Silent] job_end.silent simp: job_of_def)
  next
    case (Cons a as)
    let ?x = "if cp_batch p then WBatch (a # as) else WMsg a"
    obtain st where st: "job_of p' = (job_of p)\<lparr>j_state := st\<rparr>" "st = Lost \<and> sent_by [p'] = [] \<or> st = Answered ?x \<and> sent_by [p'] = [?x]"
    proof -
      obtain err w1 where x: "lift_conn (write_message ?x) w = (Ret err, w1)"
        by (cases "write_fails (h_conn w) (attempts (h_conn w))") (auto simp: lift_conn_def write_message_def)
      have "p' = p\<lparr>cp_pc := CallNotify cp, cp_answers := a # as, cp_failed := (err \<noteq> None), cp_sent := (if err = None then Some ?x else None)\<rparr>"
        using assms(3) unfolding proc_step_def by (simp only: CallReply Cons answer_wire_def call_pc.case list.case option.case x prod.case outcome.case option.inject prod.inject)
      with Cons show thesis by (intro that [of "if err = None then Answered ?x else Lost"]) (auto simp: job_of_def state_of_def sent_by_def)
    qed
    from o(1) Cons have "job_end (job_of p) st (mset (sent_by [p']))"
      using st(2) by (cases "cp_batch p") (auto intro!: job_end.intros simp: job_of_def)
    with m r st(1) show ?thesis by blast
  qed
next
  case (CallNotify cp)
  with assms(3) have "job_of p' = job_of p \<and> replies (h_conn w') = replies (h_conn w)"
    by (cases cp) (auto simp: proc_step_def job_of_def state_of_def dest!: activate_all_one replies_activate split: prod.splits outcome.splits)
  then show ?thesis by blast
next
  case CallDone
  with assms(3) show ?thesis by (simp add: proc_step_def)
qed

lemma server_of_proc:
  assumes "services_keep replies h" and "calls_inv h s" and "k < length (cs_procs s)"
    and "proc_step h (cs_procs s ! k) (cs_h s) = Some (p, w)" and "t = s\<lparr>cs_procs := (cs_procs s)[k := p], cs_h := w\<rparr>"
  shows "call_server_step\<^sup>*\<^sup>* (server_of s) (server_of t)"
proof -
  have "proc_inv (cs_procs s ! k)" using assms(1-3) by (simp add: calls_inv_def list_all_length)
  from proc_step_job [OF assms(1) this assms(4)] show ?thesis
  proof (elim disjE conjE exE)
    assume "job_of p = job_of (cs_procs s ! k)" "replies (h_conn w) = replies (h_conn (cs_h s))"
    with assms(3,5) have "server_of t = server_of s" by (simp add: server_of_def map_update) (metis list_update_id length_map nth_map)
    then show ?thesis by simp
  next
    fix st out
    assume "state_of (cs_procs s ! k) = Running" "job_end (job_of (cs_procs s ! k)) st out"
      "job_of p = (job_of (cs_procs s ! k))\<lparr>j_state := st\<rparr>" "mset (replies (h_conn w)) = mset (replies (h_conn (cs_h s))) + out"
    with assms(3,5) finish [of k "server_of s" st out] have "call_server_step (server_of s) (server_of t)"
      by (simp add: server_of_def map_update job_of_def)
    then show ?thesis by blast
  qed
qed

lemma server_of_accept:
  assumes "cs_close s = COpen" and "replies (h_conn (cs_h u)) = replies (h_conn (cs_h s))" and "cs_procs u = cs_procs s" and "cs_close u = COpen"
    and "t = u \<or> (\<exists>p. t = startCallProc p u \<and> state_of p = Running)"
  shows "call_server_step\<^sup>*\<^sup>* (server_of s) (server_of t)"
proof -
  have u: "server_of u = server_of s" using assms(1-4) by (simp add: server_of_def)
  from assms(5) show ?thesis
  proof (elim disjE exE conjE)
    fix p assume p: "t = startCallProc p u" "state_of p = Running"
    have "call_server_step (server_of u) (server_of t)"
      using accept [of "server_of u" "cp_batch p" "cp_msgs p"] p assms(4) by (simp add: server_of_def startCallProc_def job_of_def phase_of_def)
    then show ?thesis using u by auto
  qed (use u in simp)
qed

lemma state_of_start [simp]: "state_of (call_proc0 b ms (CallRun xs ans cp)) = Running" "state_of (call_proc0 b ms (CallReply ans cp)) = Running"
  by (simp_all add: state_of_def call_proc0_def)

lemma server_of_step:
  assumes "services_keep replies h" and "calls_inv h s" and "closed_inv s" and "calls_step h ctx_bound s t"
  shows "call_server_step\<^sup>*\<^sup>* (server_of s) (server_of t)"
  using assms(4)
proof cases
  case (k_msg msg)
  obtain ok w where i: "immediate h msg (cs_h s) = (Ret ok, w)"
    by (cases "handleImmediate (h_sub_unmarshal h) msg (h_requests (cs_h s))") (auto simp: immediate_def Let_def)
  show ?thesis
    by (rule server_of_accept [of s "s\<lparr>cs_h := w\<rparr>"]) (use k_msg i immediate_conn [OF i] in \<open>auto simp: dispatch_msg_def\<close>)
next
  case (k_batch msgs)
  obtain calls w where c: "filter_calls h msgs (cs_h s) = (Ret calls, w)" using filter_calls_Ret by blast
  show ?thesis
  proof (cases "msgs = []")
    case True
    then show ?thesis by (intro server_of_accept [of s s]) (use k_batch in \<open>auto simp: dispatch_batch_def\<close>)
  next
    case False
    show ?thesis
      by (rule server_of_accept [of s "s\<lparr>cs_h := w\<rparr>"]) (use k_batch False c filter_calls_conn [OF c] in \<open>auto simp: dispatch_batch_def\<close>)
  qed
next
  case (k_proc k p w)
  then show ?thesis using server_of_proc [OF assms(1,2)] by blast
next
  case (k_notify n subid enc w)
  with notify_app_keeps [OF k_notify(3)] show ?thesis by (simp add: server_of_def)
next
  case (k_close err inflightReq)
  with begin_close [of "server_of s"] show ?thesis by (auto simp: server_of_def close_start_def phase_of_def)
next
  case (k_wait err)
  then have "list_all (\<lambda>j. j_state j \<noteq> Running) (jobs (server_of s))"
    by (auto simp: callWG_zero_def server_of_def list_all_iff job_of_def state_of_def split: option.splits)
  with k_wait end_close [of "server_of s"] show ?thesis
    by (auto simp: server_of_def close_finish_def phase_of_def cancelServerSubscriptions_def)
next
  case k_parent
  then have "server_of t = server_of s" by (simp add: server_of_def)
  then show ?thesis by simp
qed

interpretation handler_server: simulation
    "\<lambda>s. \<exists>w. s = calls_init w \<and> replies (h_conn w) = [] \<and> services_keep replies h" "calls_step h ctx_bound"
    "\<lambda>s. services_keep replies h \<and> calls_inv h s \<and> closed_inv s"
    server_of "\<lambda>a. a = call_server0" call_server_step for h ctx_bound
proof unfold_locales
  fix s :: "('a, 'b) calls" assume "\<exists>w. s = calls_init w \<and> replies (h_conn w) = [] \<and> services_keep replies h"
  then obtain w where w: "s = calls_init w" "replies (h_conn w) = []" "services_keep replies h" by blast
  from w show "services_keep replies h \<and> calls_inv h s \<and> closed_inv s"
    using calls_sys.inv_init [of s h] closed_sys.inv_init [of s] by blast
  from w show "server_of s = call_server0" by (simp add: server_of_def calls_init_def call_server0_def phase_of_def)
qed (auto intro: calls_inv_step closed_inv_step server_of_step)

section \<open>Properties\<close>

text \<open>C7. A connection handler implements a server of jobs: whatever the methods do, as long as they do not write
  responses of their own, and however the call goroutines, the notifications and the close interleave, every
  state of the handler is, seen as a server, one that the abstract server reaches; so the answers on the
  connection are those of its jobs, each ended job has put there one right answer for all its calls, in their
  order, or has nothing to answer or lost it to a write error, and no job runs once the handler is closed.\<close>

theorem handler_refines_server:
  assumes "services_keep replies h" and "replies (h_conn w) = []" and "(calls_step h ctx_bound)\<^sup>*\<^sup>* (calls_init w) s"
  shows "call_server_step\<^sup>*\<^sup>* call_server0 (server_of s) \<and> call_server_inv (server_of s)"
proof -
  have i: "\<exists>v. calls_init w = calls_init v \<and> replies (h_conn v) = [] \<and> services_keep replies h" using assms by blast
  from handler_server.sim_reachable [OF i assms(3)] handler_server.sim_invariant [OF server_spec.step_system_axioms i assms(3)]
  show ?thesis by metis
qed

text \<open>Two calls, served at the same time, then the close: both jobs have ended with their answers.\<close>

theorem handler_refines_server_witness:
  "let m = (\<lambda>n. call_message n ''foo_bar'' []); r = (\<lambda>n. WMsg (errorResponse (m n) (methodNotFoundError ''foo_bar''))) in
   \<exists>s. calls_run (two_calls @ [SClose None, SWait]) = Some s \<and> call_server_step\<^sup>*\<^sup>* call_server0 (server_of s) \<and>
     phase (server_of s) = Closed \<and> map j_state (jobs (server_of s)) = [Answered (r ''1''), Answered (r ''2'')]"
proof -
  let ?run = "calls_run (two_calls @ [SClose None, SWait])"
  let ?r = "\<lambda>n. WMsg (errorResponse (call_message n ''foo_bar'' []) (methodNotFoundError ''foo_bar''))"
  have "map_option (\<lambda>s. (cs_close s, map (\<lambda>p. (cp_pc p, cp_sent p)) (cs_procs s))) ?run =
    Some (CClosed, [(CallDone, Some (?r ''1'')), (CallDone, Some (?r ''2''))])" by code_simp
  then obtain s where s: "?run = Some s" "cs_close s = CClosed"
    "map (\<lambda>p. (cp_pc p, cp_sent p)) (cs_procs s) = [(CallDone, Some (?r ''1'')), (CallDone, Some (?r ''2''))]"
    by (auto simp: map_option_eq_Some)
  have "map j_state (jobs (server_of s)) = [Answered (?r ''1''), Answered (?r ''2'')]"
    using s(3) by (auto simp: server_of_def job_of_def state_of_def)
  moreover have "replies (h_conn (handler_state0 [])) = []" by (simp add: replies_def handler_state0_def)
  ultimately show ?thesis
    using s handler_refines_server [OF test_keeps _ run_sched_steps [OF s(1) [unfolded calls_run_def]]]
    by (simp add: server_of_def phase_of_def)
qed

end
