(* ===== verification/Spec2Isabelle.thy ===== *)
theory Spec2Isabelle
  imports Scan_Pool Polling_Progress Rpc_Types Rpc_Streams Rpc_Close Call_Server
begin

text \<open>
  A verification development for block-scan, a scanner of blockchain events in Go. The paths
  below are those of the repository under src/.

  \<^bold>\<open>The program.\<close> An application calls \<open>StartScanChainEvents\<close> (scan.go) with its options: a chain
  interface, the contracts it watches and an object with callbacks. One of two scanners runs until
  its context ends and is restarted after every panic. The polling scanner (scan/scan.go) walks the
  blocks in one goroutine, which sends transactions through a bounded channel to a second one,
  which fetches receipts and hands their logs to callbacks. The subscription scanner
  (subscribe/subscribe.go) first catches up with a sequence of log queries and then reacts to
  events. Both use the task queue and callback dispatch of services/scan.go, the helpers of util,
  a logging adapter (util/log) and metrics. The package util/rpc is a JSON-RPC library: messages
  and errors, a registry of services, a connection handler that serves calls and matches
  responses, subscriptions on both sides, a client with a dispatching goroutine, a server, and
  transports over HTTP, websockets, sockets, pipes and standard input.

  \<^bold>\<open>The theories\<close>, in the order of their imports:

  \<^item> \<open>Prelude\<close>: strings and machine integers of Go, the outcome of a piece of code (a value, a panic,
    the end of the process), programs over an outside world (\<open>bindP\<close>, \<open>returnP\<close>, \<open>panicP\<close>), the
    simplification collections \<open>run_simps\<close> and \<open>str_simps\<close>, and two locales on step relations: \<open>step_system\<close>
    gives each relation that it is interpreted on its theorem on reachable states, \<open>simulation\<close>, which
    extends it, the refinement of an abstract system and the transfer of its invariants.
  \<^item> \<open>Util\<close> (util/utils.go), \<open>Logging\<close> (util/log/log.go), \<open>Metrics_Pkg\<close> (metrics/): the retry helper
    and its bound, delays that wrap around at 64 bits, the level parser and the two adapters, and
    the race in the initialisation of the metrics. The locale \<open>metrics_sink\<close> is the metrics
    interface, interpreted on both implementations.
  \<^item> \<open>Services\<close> (services/scan.go): options, receipts, the task queue and the call of a callback by
    reflection.
  \<^item> \<open>Polling_Scan\<close>, \<open>Polling_Wipe\<close> (scan/scan.go): the distribution of a receipt refines a filter of
    its first occurrences, and never uses the callback object for a receipt it does not queue; the two goroutines are the relation \<open>scan_step\<close>, in which no transaction
    is lost, blocks are visited in order without gaps, and a deadlock is reachable.
  \<^item> \<open>Polling_Progress\<close> (scan/scan.go): in which states the goroutines are stuck, and that the end of the
    context does not free them; transactions whose receipts are there are finished in the order in
    which they were sent.
  \<^item> \<open>Subscribe_Scan\<close> (subscribe/subscribe.go): the catch-up covers the whole range of blocks in ranges of
    at most 500 and ends, whatever logs and however many failures the node answers with, as long as these are finitely many;
    pending transactions are kept until they are due; dispatching panics.
  \<^item> \<open>Start_Scan\<close> (scan.go): what a call of \<open>StartScanChainEvents\<close> can end with. The locale
    \<open>scan_backend\<close> is the contract of a scanner's \<open>Init\<close>, interpreted on both scanners.
  \<^item> \<open>Polling_Restart\<close> (scan.go with scan/scan.go): the polling scanner across restarts, which share the
    package's channel: no transaction is lost between its goroutines, but every restart leaves a
    consumer behind; and the recorded start block can pass over a transaction that still waits.
  \<^item> \<open>Scan_Pool\<close>: the abstract specification of the polling scanner, a pool in which transactions are
    submitted, wait and are retired once; the goroutines of all starts together refine it.
  \<^item> \<open>Go_Text\<close>, \<open>Go_Json\<close>, \<open>Go_Url\<close>: decimal numbers, JSON syntax trees and their text; the scanner of
    \<open>encoding/json\<close>, which reads back the text of every value; \<open>url.Parse\<close>.
  \<^item> \<open>Rpc_Json\<close> (util/rpc/errors.go, json.go): messages survive the wire, batches, positional
    arguments. The locale \<open>server_codec\<close> is what the server relies on when it closes a codec; the
    JSON codec, the HTTP connection and the websocket codec are its instances.
  \<^item> \<open>Rpc_Types\<close> (types.go), \<open>Rpc_Service\<close> (service.go): block numbers and hashes as arguments; which
    methods are registered and how they are found and called.
  \<^item> \<open>Rpc_Subscription\<close> (subscription.go): notifications never precede the response that has the
    subscription's ID; a client's subscription is closed once and delivers in order; to end
    it takes a bounded number of steps, one of which is the answer of the server.
  \<^item> \<open>Rpc_Requests\<close>, \<open>Rpc_Handler\<close> (handler.go): each request gets at most as many responses and closes as it has been
    registered for, and is released when the connection ends; each call is answered exactly once, a batch in
    order.
  \<^item> \<open>Rpc_Calls\<close>, \<open>Rpc_Close\<close> (handler.go): the call goroutines of a connection, its notifications and
    the close of its handler as the relation \<open>calls_step\<close>: concurrent calls are answered once each;
    a goroutine that runs alone does what the program of \<open>Rpc_Handler\<close> does; a close is final, it
    completes with all answers when the functions of the methods return or panic, and never while one of them waits for its
    context and the context of the connection does not end by itself.
  \<^item> \<open>Call_Server\<close>: the abstract specification of a connection handler, a server of jobs each of which
    ends in one step with its right answer; the interleaved goroutines of \<open>calls_step\<close> refine it.
  \<^item> \<open>Rpc_Client\<close>, \<open>Rpc_Dispatch\<close> (client.go): IDs from a counter of 32 bits, calls and batches, which
    are equivalent to their calls one by one but for nil and null results, the write path with its single reconnection, and the
    dispatching goroutine as the relation \<open>dispatch_step\<close>: its send lock works, requests stay
    safe in runs where no answered request is registered again, and two runs in which it fails.
  \<^item> \<open>Rpc_Server\<close> (server.go, endpoints.go): single requests, the service of connections against
    \<open>Stop\<close>, endpoints and modules.
  \<^item> \<open>Rpc_Codec\<close> (\<open>NewCodec\<close> of json.go): the text on a connection and its decoding, value by value.
  \<^item> \<open>Rpc_Http\<close> (http.go): the client and the server over HTTP: which requests are refused and how the others are
    answered; composed with client, server, handler, messages and their text, a call from end to end; notifications, which
    never succeed, and the unchecked responses of a batch.
  \<^item> \<open>Rpc_Websocket\<close> (websocket.go): which origins may connect, and the ping loop with its timer.
  \<^item> \<open>Rpc_Streams\<close> (ipc*.go, stdio.go, inproc.go, metrics.go, the read loop of client.go): listeners,
    endpoints, the counters of served calls; what one side writes on a stream is what the other
    side's read loop hands over, and a drain ends with its reader.
  \<^item> This theory: a call and a batch over a stream from end to end, composed of the caller, the texts,
    the read loops, the handler of the server and the dispatcher of the client.

  \<^bold>\<open>How the model corresponds to the code.\<close> A struct is a record, an enumeration or a state of a
  goroutine a datatype, an unsigned integer a word of its width, a map an association list (or a
  map where only lookups matter), an error a value, a panic the outcome \<open>Panicked\<close>. Sequential code
  is a function or a program over the state; goroutines that interact through channels, locks or
  flags are inductive relations with one rule per step of a goroutine. A library that the code
  calls (zap, Prometheus, go-workers, cast, hexutil, the Ethereum client, gorilla/websocket, the
  set of golang-set, net/http, mime) is an argument of the definitions that use
  it; the laws that a theorem needs of it are its hypotheses, and its witness instantiates them.

  \<^bold>\<open>Fuel and bounds.\<close> \<open>filterLogs\<close>, \<open>drain\<close> and \<open>Subscribe_WipeBlock\<close> wait for the network and take
  fuel; the theorem on \<open>filterLogs\<close> shows that two units more than there are blocks and failures
  to come is enough, and the relation of the results of a start takes any fuel. The
  JSON scanner takes twice the length of the text as fuel, which \<open>fuel_enough\<close> shows to be enough for
  every text, and, as in Go, a nesting of 10000. All other functions are total. The order of blocks needs a height below the largest uint64, for
  which the loop counter wraps. Distinct IDs within a batch need at most \<open>2^32\<close> elements.

  \<^bold>\<open>Not modelled.\<close> Logging inside util/rpc, with the form of an ID in a log line; the seeding of the
  random source; sockets, files and clocks of the operating system beyond the outcomes of the
  calls; case folding outside ASCII and the check of UTF-8 in JSON strings; white space inside a raw
  message, which is kept as its syntax tree; the bodies of application methods, which run as one
  step; the waits for the locks of the handler, the codec and the notifiers, which are held within one step of the model
  (also that of the ping loop for the lock of the encoder); the reading of the data of an error, a JSON
  tree here, as float64 numbers; the pool of write buffers of websockets; the length of a socket path read from C headers. A
  context is seen through the events it causes, so \<open>Call\<close>, \<open>BatchCall\<close> and \<open>Dial\<close>, which pass the
  background context on, are their counterparts without such events.
\<close>

section \<open>A call over a stream\<close>

text \<open>
  The two ends of a stream (a socket, a pipe or standard input and output), put together from the
  components: the caller, the text on the stream, the read loops, the handler that serves the
  call and the dispatcher that hands its response to the caller. The server takes what it has read
  one after the other (\<open>handleMsg\<close> and \<open>handleBatch\<close> as programs, which \<open>Rpc_Calls\<close> shows to be
  runs of its goroutines).
\<close>

fun serve_reads :: "('x, 'v) handler \<Rightarrow> read_event list \<Rightarrow> (('x, 'v) hstate, unit) prog" where
  "serve_reads h [] = returnP ()"
| "serve_reads h (ReadOp msgs batch # evs) =
     bindP (if batch then handleBatch h msgs else handleMsg h (msgs ! 0)) (\<lambda>_. serve_reads h evs)"
| "serve_reads h (ReadWrote m # evs) = bindP (lift_conn (write_message (WMsg m))) (\<lambda>_. serve_reads h evs)"
| "serve_reads h (ReadErr err # evs) = returnP ()"

fun dispatch_reads :: "(nat \<Rightarrow> json option \<Rightarrow> rpc_error + 'v) \<Rightarrow> read_event list \<Rightarrow> 'v dispatcher \<Rightarrow> 'v dispatcher" where
  "dispatch_reads un [] d = d"
| "dispatch_reads un (ReadOp msgs batch # evs) d = dispatch_reads un evs (on_readOp un msgs d)"
| "dispatch_reads un (ReadWrote m # evs) d = dispatch_reads un evs d"
| "dispatch_reads un (ReadErr err # evs) d = on_readErr un err d"

text \<open>The request of a call; its channel has room for one response.\<close>

definition call_op :: "jsonrpcMessage \<Rightarrow> requestOp" where
  "call_op msg = \<lparr>op_ids = (case ID msg of None \<Rightarrow> [] | Some i \<Rightarrow> [i]), op_err = None, op_resp = [], op_closed = 0, op_sub = None\<rparr>"

definition register_call :: "nat \<Rightarrow> jsonrpcMessage \<Rightarrow> 'v dispatcher \<Rightarrow> 'v dispatcher" where
  "register_call op msg d =
     on_reqInit op (d\<lparr>d_requests := (d_requests d)\<lparr>op_store := (op_store (d_requests d))(op := call_op msg)\<rparr>\<rparr>)"

text \<open>
  What the caller waits for: the response the dispatcher has put into its channel once the server
  has read the request and closed the stream.
\<close>

definition stream_answer :: "(rpc_error \<Rightarrow> bool) \<Rightarrow> ('x, 'w) handler \<Rightarrow> ('x, 'w) hstate \<Rightarrow>
    (nat \<Rightarrow> json option \<Rightarrow> rpc_error + 'v) \<Rightarrow> nat \<Rightarrow> 'v dispatcher \<Rightarrow> jsonrpcMessage \<Rightarrow> wait_event" where
  "stream_answer syn h w un op d msg =
     (let w' = snd (serve_reads h (client_read (stream_reads syn (encoded [WMsg msg]))) w);
          d' = dispatch_reads un (client_read (stream_reads syn (encoded (written (h_conn w'))))) (register_call op msg d);
          r = op_store (d_requests d') op in
      case op_resp r of m # _ \<Rightarrow> Received m | [] \<Rightarrow> ChanClosed (op_err r))"

lemma cancel_ops_other: "op \<in> set closed \<Longrightarrow> cancel_ops err closed es store op = store op"
  by (induction err closed es store rule: cancel_ops.induct) auto

lemma dispatched_response:
  assumes "ID r = ID msg" and "ID msg = Some i" and "isResponse r"
  shows "op_resp (op_store (d_requests (dispatch_reads un [ReadOp [r] False, ReadErr err] (register_call op msg d))) op) = [r]"
proof -
  have "\<not> isNotification r" using assms(3) by (auto simp: isNotification_def isResponse_def)
  moreover have "map_of (respWait (d_requests (register_call op msg d))) (show_json i) = Some op"
    using assms(2) by (simp add: register_call_def on_reqInit_def addRequestOp_def request_keys_def call_op_def update_conv)
  ultimately show ?thesis using assms
    by (simp add: on_readOp_def on_readErr_def handleImmediate_def handleResponse_def cancelAllRequests_def cancel_ops_other
        register_call_def on_reqInit_def addRequestOp_def call_op_def Let_def)
qed

text \<open>C14. A call over a stream gives what the method gives: the message the caller makes is written as
  text, read by the server, served by its handler, and the answer, written and read as text in turn,
  is handed by the client's dispatcher to the request it was made for, whatever other requests are
  waiting; the caller returns the result or the error of the response that the handler computed.\<close>

theorem stream_call_end_to_end:
  assumes "newMessage method args c = (Inr msg, c')" and "method \<noteq> []" and "text_message msg"
    and "services_keep (\<lambda>c. c) h" and "handleCallMsg h [] msg w = (Ret (Some r, []), w1)"
    and "written (h_conn w) = []" and "write_fails (h_conn w) (attempts (h_conn w)) = None"
    and "text_message r" and "\<not> syn EOF"
  shows "CallContext True (\<lambda>_. None) (stream_answer syn h w un op d) unmarshal method args c = (Ret (response_result unmarshal r), c')"
proof -
  have call: "isCall msg" using newMessage_isCall [OF assms(1,2)] by simp
  then obtain i where i: "ID msg = Some i" by (auto simp: isCall_def hasValidID_def split: option.splits)
  have "\<not> isNotification msg" "hasValidID msg" using call by (auto simp: isCall_def isNotification_def hasValidID_def split: option.splits)
  then have r: "answers msg r" "ID r = ID msg" using handleCallMsg_answer [OF assms(5)] by (auto simp: answers_def)
  have "h_conn w1 = h_conn w" using handleCallMsg_keeps [OF assms(4,5)] by simp
  from handleMsg_reply [OF assms(5) call this assms(7)] assms(6) obtain w2 where
    w2: "handleMsg h msg w = (Ret (), w2)" "written (h_conn w2) = [WMsg r]" by auto
  have m: "client_read (stream_reads syn (encoded [WMsg msg])) = [ReadOp [msg] False, ReadErr EOF]"
    and a: "client_read (stream_reads syn (encoded [WMsg r])) = [ReadOp [r] False, ReadErr EOF]"
    using read_encoded [of "[WMsg msg]" syn] read_encoded [of "[WMsg r]" syn] assms(3,8,9) by simp_all
  have "snd (serve_reads h [ReadOp [msg] False, ReadErr EOF] w) = w2" using w2(1) by (simp add: bindP_def run_simps)
  with w2(2) m a dispatched_response [OF r(2) i answers_isResponse [OF r(1)], of un EOF op d] have "stream_answer syn h w un op d msg = Received r"
    by (simp add: stream_answer_def Let_def)
  then show ?thesis using assms(1) by (simp add: CallContext_def finish_call_def op_wait_def)
qed

lemma test_texts:
  assumes "n = ''1'' \<or> n = ''2''"
  shows "text_message (call_message n ''foo_bar'' [])"
    and "text_message (errorResponse (call_message n ''foo_bar'' []) (methodNotFoundError ''foo_bar''))"
proof -
  obtain k where k: "maxNestingDepth = Suc (Suc (Suc (Suc k)))" by (rule nesting_room)
  have "scan_number ''1'' = Some (''1'', [])" "scan_number ''2'' = Some (''2'', [])" "ascii (Error (methodNotFoundError ''foo_bar''))"
    by code_simp+
  with assms show "text_message (call_message n ''foo_bar'' [])"
    "text_message (errorResponse (call_message n ''foo_bar'' []) (methodNotFoundError ''foo_bar''))"
    unfolding text_message_def k
    by (auto simp: text_json_message text_json_error call_message_def errorResponse_def errorMessage_def zero_message_def vsn_def ascii_def
        wf_message_def wf_error_def in_int64_def)
qed

theorem stream_call_end_to_end_witness:
  "CallContext True (\<lambda>_. None)
     (stream_answer (\<lambda>_. False) test_handler (handler_state0 []) (\<lambda>_ _. Inl EOF) 0
        (dispatch_init one_op (\<lambda>_. newClientSubscription :: nat ClientSubscription)))
     (\<lambda>_. Inr ()) ''foo_bar'' (Some (Inr (JArr []))) 0 =
   (Ret (Inl (ErrJson \<lparr>Code = -32601, Message = Error (methodNotFoundError ''foo_bar''), ErrData = None\<rparr>)), 1)"
proof -
  let ?m = "call_message ''1'' ''foo_bar'' []"
  let ?r = "errorResponse ?m (methodNotFoundError ''foo_bar'')"
  have n: "newMessage ''foo_bar'' (Some (Inr (JArr []))) 0 = (Inr ?m, 1)"
  proof -
    have "show_nat (unat (0 + 1 :: u32)) = ''1''" by code_simp
    then show ?thesis by (simp add: newMessage_def nextID_def call_message_def Let_def)
  qed
  note t = test_texts [of "''1''", OF disjI1, OF refl]
  have s: "written (h_conn (handler_state0 [])) = []"
    "write_fails (h_conn (handler_state0 [])) (attempts (h_conn (handler_state0 []))) = None" by (simp_all add: handler_state0_def)
  have rr: "response_result (\<lambda>_. Inr ()) ?r = Inl (ErrJson \<lparr>Code = -32601, Message = Error (methodNotFoundError ''foo_bar''), ErrData = None\<rparr>)"
    by (simp add: response_result_def errorResponse_def errorMessage_def)
  show ?thesis
    using stream_call_end_to_end [OF n _ t(1) test_keeps test_call [OF disjI1, OF refl] s t(2), where syn = "\<lambda>_. False" and unmarshal = "\<lambda>_. Inr ()"]
    unfolding rr by simp
qed

section \<open>A batch over a stream\<close>

text \<open>The request of a batch; its channel has room for all responses.\<close>

definition batch_op :: "jsonrpcMessage list \<Rightarrow> requestOp" where
  "batch_op msgs = \<lparr>op_ids = List.map_filter ID msgs, op_err = None, op_resp = [], op_closed = 0, op_sub = None\<rparr>"

definition register_batch :: "nat \<Rightarrow> jsonrpcMessage list \<Rightarrow> 'v dispatcher \<Rightarrow> 'v dispatcher" where
  "register_batch op msgs d =
     on_reqInit op (d\<lparr>d_requests := (d_requests d)\<lparr>op_store := (op_store (d_requests d))(op := batch_op msgs)\<rparr>\<rparr>)"

text \<open>What the dispatcher has put into the channel of the batch once the server has read it and closed the stream.\<close>

definition stream_batch_answers :: "(rpc_error \<Rightarrow> bool) \<Rightarrow> ('x, 'w) handler \<Rightarrow> ('x, 'w) hstate \<Rightarrow>
    (nat \<Rightarrow> json option \<Rightarrow> rpc_error + 'v) \<Rightarrow> nat \<Rightarrow> 'v dispatcher \<Rightarrow> jsonrpcMessage list \<Rightarrow> wait_event list" where
  "stream_batch_answers syn h w un op d msgs =
     (let w' = snd (serve_reads h (client_read (stream_reads syn (encoded [WBatch msgs]))) w);
          d' = dispatch_reads un (client_read (stream_reads syn (encoded (written (h_conn w'))))) (register_batch op msgs d) in
      map Received (op_resp (op_store (d_requests d') op)))"

lemma answers_call: "answers m r \<Longrightarrow> isCall m \<Longrightarrow> ID r = ID m \<and> ID m \<noteq> None \<and> isResponse r"
  using answers_isResponse [of m r] by (auto simp: answers_def isCall_def hasValidID_def split: option.splits)

lemma dispatched_responses:
  assumes "list_all isResponse rs" and "distinct (map id_key rs)" and "op_sub (op_store hh op) = None"
    and "list_all (\<lambda>r. ID r \<noteq> None \<and> map_of (respWait hh) (id_key r) = Some op) rs"
  shows "op_resp (op_store (fold (\<lambda>msg h. snd (handleImmediate un msg h)) rs hh) op) = op_resp (op_store hh op) @ rs"
  using assms
proof (induction rs arbitrary: hh)
  case (Cons r rs)
  let ?o = "op_store hh op"
  let ?h = "hh\<lparr>respWait := AList.delete (id_key r) (respWait hh), op_store := (op_store hh)(op := ?o\<lparr>op_resp := op_resp ?o @ [r]\<rparr>)\<rparr>"
  from Cons.prems obtain i where i: "ID r = Some i" "map_of (respWait hh) (show_json i) = Some op" "id_key r = show_json i"
    by (auto simp: id_key_def)
  have "isResponse r" "\<not> isNotification r" using Cons.prems(1) by (auto simp: isResponse_def isNotification_def)
  then have "snd (handleImmediate un r hh) = ?h"
    using i Cons.prems(3) by (simp add: handleImmediate_def handleResponse_def Let_def)
  moreover have "list_all (\<lambda>r. ID r \<noteq> None \<and> map_of (respWait ?h) (id_key r) = Some op) rs"
    using Cons.prems(2,4) by (auto simp: list_all_iff delete_conv image_iff)
  ultimately show ?case using Cons.IH [of ?h] Cons.prems by simp
qed simp

lemma fold_update_map_of:
  "map_of (fold (\<lambda>k. AList.update k v) ks al) k = (if k \<in> set ks then Some v else map_of al k)"
  by (induction ks arbitrary: al) (auto simp: update_conv)

lemma batch_dispatched:
  assumes "list_all2 (\<lambda>m r. ID r = ID m \<and> ID m \<noteq> None \<and> isResponse r) msgs rs" and "distinct (map id_key msgs)"
  shows "op_resp (op_store (d_requests (dispatch_reads un [ReadOp rs True, ReadErr err] (register_batch op msgs d))) op) = rs"
proof -
  let ?h = "d_requests (register_batch op msgs d)"
  have ids: "map id_key rs = map id_key msgs" "list_all isResponse rs" "list_all (\<lambda>r. ID r \<noteq> None) rs"
    using assms(1) by (induction rule: list_all2_induct) (auto simp: id_key_def)
  have keys: "map show_json (List.map_filter ID msgs) = map id_key msgs"
    using assms(1) by (induction rule: list_all2_induct) (auto simp: id_key_def map_filter_simps)
  have o: "op_store ?h op = batch_op msgs" by (simp add: register_batch_def on_reqInit_def addRequestOp_def)
  have "map_of (respWait ?h) (id_key r) = Some op" if "r \<in> set rs" for r
  proof -
    have "id_key r \<in> set (map id_key msgs)" using that unfolding ids(1) [symmetric] by simp
    then show ?thesis
      by (simp add: register_batch_def on_reqInit_def addRequestOp_def request_keys_def batch_op_def keys fold_update_map_of del: set_map)
  qed
  with ids o assms(2) dispatched_responses [of rs ?h op un] have "op_resp (op_store (fold (\<lambda>msg h. snd (handleImmediate un msg h)) rs ?h) op) = rs"
    by (simp add: list_all_iff batch_op_def)
  then show ?thesis
    by (simp add: on_readOp_def on_readErr_def cancelAllRequests_def cancel_ops_other register_batch_def on_reqInit_def)
qed

lemma new_messages_calls:
  "new_messages b c = (Inr msgs, c') \<Longrightarrow> list_all (\<lambda>e. be_Method e \<noteq> []) b \<Longrightarrow> list_all isCall msgs"
  by (induction b arbitrary: c msgs) (auto dest: newMessage_isCall split: prod.splits sum.splits)

text \<open>C15. A batch over a stream gives what its methods give: the messages the caller makes are written as one
  text, read by the server, served by its handler one after the other, and the array of the answers, written and
  read as text in turn, is handed by the client's dispatcher response by response to the batch they belong to,
  whatever other requests are waiting; the caller returns without error, and each element has the result or
  the error of the response that the handler computed for it.\<close>

theorem stream_batch_end_to_end:
  assumes "new_messages b c = (Inr msgs, c')" and "b \<noteq> []" and "length b \<le> 2 ^ 32" and "list_all (\<lambda>e. be_Method e \<noteq> []) b"
    and "list_all text_message msgs" and "services_keep (\<lambda>c. c) h" and "handle_calls h [] msgs w = (Ret (rs, []), w1)"
    and "written (h_conn w) = []" and "write_fails (h_conn w) (attempts (h_conn w)) = None"
    and "list_all text_message rs" and "\<not> syn EOF"
  shows "\<exists>b'. BatchCallContext (\<lambda>_. None) (stream_batch_answers syn h w un op d msgs) b c = (Some (Ret (None, b')), c') \<and>
    length rs = length b \<and> (\<forall>i < length b. case response_result (be_unmarshal (b ! i)) (rs ! i) of
        Inl e \<Rightarrow> be_Error (b' ! i) = Some e
      | Inr v \<Rightarrow> be_Error (b' ! i) = None \<and> be_Result (b' ! i) = Some v)"
proof -
  note d = new_messages_distinct [OF assms(1,3)]
  have calls: "list_all isCall msgs" by (rule new_messages_calls [OF assms(1,4)])
  have ne: "msgs \<noteq> []" using d(2) assms(2) by auto
  obtain w2 where w2: "handleBatch h msgs w = (Ret (), w2)" "written (h_conn w2) = [WBatch rs]" "list_all2 answers msgs rs"
    using batch_served [OF calls ne assms(6,7,9)] assms(8) by auto
  have r: "list_all2 (\<lambda>m r. ID r = ID m \<and> ID m \<noteq> None \<and> isResponse r) msgs rs"
    using w2(3) calls by (induction rule: list_all2_induct) (auto dest: answers_call)
  have m: "client_read (stream_reads syn (encoded [WBatch msgs])) = [ReadOp msgs True, ReadErr EOF]"
    and a: "client_read (stream_reads syn (encoded [WBatch rs])) = [ReadOp rs True, ReadErr EOF]"
    using read_encoded [of "[WBatch msgs]" syn] read_encoded [of "[WBatch rs]" syn] assms(5,10,11) by simp_all
  have "snd (serve_reads h [ReadOp msgs True, ReadErr EOF] w) = w2" using w2(1) by (simp add: bindP_def run_simps)
  then have answers: "stream_batch_answers syn h w un op d msgs = map Received rs @ []"
    using m a w2(2) batch_dispatched [OF r d(1), of un EOF op d] by (simp add: stream_batch_answers_def Let_def)
  have keys: "map id_key rs = map id_key msgs" using r by (induction rule: list_all2_induct) (auto simp: id_key_def)
  then have "mset (map id_key rs) = mset (map id_key msgs)" by simp
  from batch_responses [where send = "\<lambda>_. None" and evs = "[]", OF assms(1,3) refl this] obtain b' where
    b': "BatchCallContext (\<lambda>_. None) (map Received rs @ []) b c = (Some (Ret (None, b')), c')"
    "\<forall>i < length b. \<forall>r \<in> set rs. id_key r = id_key (msgs ! i) \<longrightarrow> (case response_result (be_unmarshal (b ! i)) r of
          Inl e \<Rightarrow> be_Error (b' ! i) = Some e | Inr v \<Rightarrow> be_Error (b' ! i) = None \<and> be_Result (b' ! i) = Some v)" by blast
  have l: "length rs = length b" using arg_cong [OF keys, of length] d(2) by simp
  then have "rs ! i \<in> set rs \<and> id_key (rs ! i) = id_key (msgs ! i)" if "i < length b" for i
    using that d(2) arg_cong [OF keys, of "\<lambda>xs. xs ! i"] by simp
  with b' l answers show ?thesis by (intro exI [of _ b']) metis
qed

definition two_calls_batch :: "json BatchElem list" where
  "two_calls_batch = replicate 2 \<lparr>be_Method = ''foo_bar'', be_Args = Some (Inr (JArr [])), be_Dest = DPtr False Inr, be_Result = None, be_Error = None\<rparr>"

theorem stream_batch_end_to_end_witness:
  "let msgs = [call_message ''1'' ''foo_bar'' [], call_message ''2'' ''foo_bar'' []];
       err = ErrJson \<lparr>Code = -32601, Message = Error (methodNotFoundError ''foo_bar''), ErrData = None\<rparr> in
   \<exists>b'. BatchCallContext (\<lambda>_. None)
     (stream_batch_answers (\<lambda>_. False) test_handler (handler_state0 []) (\<lambda>_ _. Inl EOF) 0
        (dispatch_init one_op (\<lambda>_. newClientSubscription :: nat ClientSubscription)) msgs) two_calls_batch 0 = (Some (Ret (None, b')), 2) \<and>
     be_Error (b' ! 0) = Some err \<and> be_Error (b' ! 1) = Some err"
proof -
  let ?m = "\<lambda>n. call_message n ''foo_bar'' []"
  let ?r = "\<lambda>n. errorResponse (?m n) (methodNotFoundError ''foo_bar'')"
  let ?err = "ErrJson \<lparr>Code = -32601, Message = Error (methodNotFoundError ''foo_bar''), ErrData = None\<rparr>"
  have n: "new_messages two_calls_batch 0 = (Inr [?m ''1'', ?m ''2''], 2)"
  proof -
    have "show_nat (unat (0 + 1 :: u32)) = ''1''" "show_nat (unat (1 + 1 :: u32)) = ''2''" by code_simp+
    then show ?thesis by (simp add: two_calls_batch_def numeral_2_eq_2 newMessage_def nextID_def call_message_def Let_def)
  qed
  have h: "handle_calls test_handler [] [?m ''1'', ?m ''2''] (handler_state0 []) = (Ret ([?r ''1'', ?r ''2''], []), handler_state0 [])"
    by (simp add: test_call run_simps)
  have t: "list_all text_message [?m ''1'', ?m ''2'']" "list_all text_message [?r ''1'', ?r ''2'']" by (simp_all add: test_texts)
  have s: "written (h_conn (handler_state0 [])) = []"
    "write_fails (h_conn (handler_state0 [])) (attempts (h_conn (handler_state0 []))) = None" by (simp_all add: handler_state0_def)
  have l: "two_calls_batch \<noteq> []" "length two_calls_batch = 2" "list_all (\<lambda>e. be_Method e \<noteq> []) two_calls_batch"
    by (simp_all add: two_calls_batch_def list_all_iff)
  have rr: "response_result u (?r n) = Inl ?err" for u :: "json \<Rightarrow> rpc_error + json" and n
    by (simp add: response_result_def errorResponse_def errorMessage_def)
  have "length two_calls_batch \<le> 2 ^ 32" using l(2) by simp
  from stream_batch_end_to_end [OF n l(1) this l(3) t(1) test_keeps h s t(2), of "\<lambda>_. False" "\<lambda>_ _. Inl EOF" 0
      "dispatch_init one_op (\<lambda>_. newClientSubscription :: nat ClientSubscription)"]
  show ?thesis unfolding l(2) numeral_2_eq_2 Let_def by (simp add: All_less_Suc rr) blast
qed

end
